(* ===== verification/Nvme_Prelude.thy ===== *)
theory Nvme_Prelude
  imports Main "HOL-Library.Word" "HOL-Library.Multiset"
begin

unbundle bit_operations_syntax

text \<open>
  Shared vocabulary of the development: the C integer types as words, byte buffers, the
  byte-reversed dword accesses (PowerPC \<open>lwbrx\<close> and \<open>stwbrx\<close>) that every DMA structure of
  the driver goes through, the copy loops of src/src/compat.c, and the bounded poll loop
  that the driver uses wherever it waits for the controller. Two interfaces live here as
  locales: a dword store with its read-back and frame laws, from which the round trip of a
  whole array of dwords follows, and a polling loop whose body and yield keep an invariant.
\<close>

section \<open>Integer types\<close>

type_synonym u8 = "8 word"
type_synonym u16 = "16 word"
type_synonym u32 = "32 word"
type_synonym u64 = "64 word"

text \<open>
  A buffer is the contents of one allocation, as a function of the byte offset. It has a
  byte at every offset, so a write past the end of an allocation is visible in the model:
  memory safety is the statement that the offsets from the size on keep their value.
\<close>

type_synonym buf = "nat \<Rightarrow> u8"

named_theorems nvme_defs "definitions unfolded by the component proofs"

section \<open>Words\<close>

lemma unat_of_nat_small: "n < 2 ^ LENGTH('a) \<Longrightarrow> unat (of_nat n :: 'a::len word) = n"
  by (simp add: unat_of_nat take_bit_nat_eq_self)

lemma u32_bound [simp]: "unat (x :: u32) < 4294967296"
  using unsigned_less [of x] by simp

lemma u16_bound [simp]: "unat (x :: u16) < 65536"
  using unsigned_less [of x] by simp

lemma unat_ucast_u8 [simp]: "unat (ucast (x :: u8) :: u32) = unat x"
proof -
  have "unat x < 2 ^ 8" using unsigned_less [of x, where 'a = nat] by simp
  then show ?thesis by (simp add: unsigned_ucast_eq take_bit_nat_eq_self)
qed

lemma unat_ucast_u16 [simp]: "unat (ucast (x :: u16) :: u32) = unat x"
proof -
  have "unat x < 2 ^ 32" using u16_bound [of x] by (rule less_le_trans) simp
  then have "take_bit 32 (unat x) = unat x" by (rule take_bit_nat_eq_self)
  then show ?thesis by (simp add: unsigned_ucast_eq)
qed

text \<open>\<open>unat_add\<close> and \<open>unat_mult\<close> without wrap-around.\<close>

lemma unat_plus_small: "unat a + unat b < 2 ^ LENGTH('a) \<Longrightarrow> unat (a + b) = unat a + unat (b :: 'a::len word)"
  by (simp add: unat_word_ariths)

lemma unat_times_small: "unat a * unat b < 2 ^ LENGTH('a) \<Longrightarrow> unat (a * b) = unat a * unat (b :: 'a::len word)"
  by (simp add: unat_word_ariths)

section \<open>Little-endian dwords\<close>

definition dma_r32 :: "buf \<Rightarrow> nat \<Rightarrow> u32" where
  "dma_r32 b i =
     (ucast (b i) OR push_bit 8 (ucast (b (i + 1)))
      OR push_bit 16 (ucast (b (i + 2))) OR push_bit 24 (ucast (b (i + 3))))"

definition dma_w32 :: "buf \<Rightarrow> nat \<Rightarrow> u32 \<Rightarrow> buf" where
  "dma_w32 b i v =
     b(i := ucast v, i + 1 := ucast (drop_bit 8 v),
       i + 2 := ucast (drop_bit 16 v), i + 3 := ucast (drop_bit 24 v))"

lemma bytes_join32:
  "(ucast (ucast v :: u8) OR push_bit 8 (ucast (ucast (drop_bit 8 v) :: u8))
      OR push_bit 16 (ucast (ucast (drop_bit 16 v) :: u8))
      OR push_bit 24 (ucast (ucast (drop_bit 24 v) :: u8))) = (v :: u32)"
  apply (rule bit_word_eqI)
  apply (auto simp: bit_simps)
  subgoal for n by (cases "24 \<le> n") auto
  done

lemma dwords_join64:
  "(push_bit 32 (ucast (ucast (drop_bit 32 v) :: u32)) OR ucast (ucast v :: u32)) = (v :: u64)"
  by (rule bit_word_eqI) (auto simp: bit_simps)

lemma dma_r32_w32_same [simp]: "dma_r32 (dma_w32 b i v) i = v"
  by (simp add: dma_r32_def dma_w32_def bytes_join32)

lemma dma_w32_other: "k < i \<or> i + 4 \<le> k \<Longrightarrow> dma_w32 b i v k = b k"
  by (auto simp: dma_w32_def)

lemma dma_r32_w32_other: "k + 4 \<le> i \<or> i + 4 \<le> k \<Longrightarrow> dma_r32 (dma_w32 b i v) k = dma_r32 b k"
  by (auto simp: dma_r32_def dma_w32_def)

text \<open>
  The interface of a dword store: reading back what was written, and not disturbing the
  dwords beside it. Everything the driver lays out in DMA memory (submission entries, PRP
  lists, range descriptors) is a sequence of such writes, and the laws below turn into
  read-back of the whole sequence once and for all.
\<close>

primrec put_seq :: "('m \<Rightarrow> nat \<Rightarrow> u32 \<Rightarrow> 'm) \<Rightarrow> 'm \<Rightarrow> nat \<Rightarrow> u32 list \<Rightarrow> 'm" where
  "put_seq put m i [] = m"
| "put_seq put m i (v # vs) = put_seq put (put m i v) (i + 4) vs"

locale dword_store =
  fixes get :: "'m \<Rightarrow> nat \<Rightarrow> u32"
    and put :: "'m \<Rightarrow> nat \<Rightarrow> u32 \<Rightarrow> 'm"
  assumes get_put: "get (put m i v) i = v"
    and get_put_other: "k + 4 \<le> i \<or> i + 4 \<le> k \<Longrightarrow> get (put m i v) k = get m k"
begin

lemma get_put_seq_other:
  "k + 4 \<le> i \<or> i + 4 * length vs \<le> k \<Longrightarrow> get (put_seq put m i vs) k = get m k"
  by (induction vs arbitrary: m i) (auto simp: get_put_other)

lemma get_put_seq:
  "j < length vs \<Longrightarrow> get (put_seq put m i vs) (i + 4 * j) = vs ! j"
proof (induction vs arbitrary: m i j)
  case (Cons v vs)
  show ?case
  proof (cases j)
    case 0
    then show ?thesis by (simp add: get_put_seq_other get_put)
  next
    case (Suc j')
    with Cons.IH [of j' "put m i v" "i + 4"] Cons.prems show ?thesis by (simp add: add.assoc)
  qed
qed simp

end

interpretation le: dword_store dma_r32 dma_w32
  by unfold_locales (simp_all add: dma_r32_w32_other)

lemma put_seq_other: "k < i \<or> i + 4 * length vs \<le> k \<Longrightarrow> put_seq dma_w32 b i vs k = b k"
  by (induction vs arbitrary: b i) (auto simp: dma_w32_other)

section \<open>CPU memory and the loops of compat.c\<close>

type_synonym cpu_mem = "u32 \<Rightarrow> u8"

text \<open>\<open>mem_write m a xs\<close> is \<open>memcpy(a, xs, n)\<close> from a local array \<open>xs\<close> of \<open>n\<close> bytes.\<close>

primrec mem_write :: "cpu_mem \<Rightarrow> u32 \<Rightarrow> u8 list \<Rightarrow> cpu_mem" where
  "mem_write m a [] = m"
| "mem_write m a (x # xs) = mem_write (m(a := x)) (a + 1) xs"

definition mem_set :: "cpu_mem \<Rightarrow> u32 \<Rightarrow> u8 \<Rightarrow> nat \<Rightarrow> cpu_mem" where
  "mem_set m a c n = mem_write m a (replicate n c)"

primrec mem_copy :: "nat \<Rightarrow> cpu_mem \<Rightarrow> u32 \<Rightarrow> u32 \<Rightarrow> cpu_mem" where
  "mem_copy 0 m d s = m"
| "mem_copy (Suc n) m d s = mem_copy n (m(d := m s)) (d + 1) (s + 1)"

text \<open>The addresses of an \<open>n\<close>-byte object at \<open>a\<close> (wrapping at the top of memory).\<close>

definition span :: "u32 \<Rightarrow> nat \<Rightarrow> u32 set" where
  "span a n = (\<lambda>i. a + of_nat i) ` {..<n}"

lemma span_0 [simp]: "span a 0 = {}"
  by (simp add: span_def)

lemma span_Suc: "span a (Suc n) = insert a (span (a + 1) n)"
  by (auto simp: span_def lessThan_Suc_eq_insert_0 image_image add.assoc)

lemma span_mono: "m \<le> n \<Longrightarrow> span a m \<subseteq> span a n"
  by (auto simp: span_def)

lemma mem_write_other: "x \<notin> span a (length xs) \<Longrightarrow> mem_write m a xs x = m x"
  by (induction xs arbitrary: m a) (auto simp: span_Suc)

lemma mem_write_nth:
  "\<lbrakk>i < length xs; length xs \<le> 2 ^ 32\<rbrakk> \<Longrightarrow> mem_write m a xs (a + of_nat i) = xs ! i"
proof (induction xs arbitrary: m a i)
  case (Cons x xs)
  show ?case
  proof (cases i)
    case 0
    have "a \<notin> span (a + 1) (length xs)"
    proof
      assume "a \<in> span (a + 1) (length xs)"
      then obtain j where j: "j < length xs" "a + (1 + of_nat j) = a + 0"
        by (auto simp: span_def add.assoc)
      then have "(of_nat (Suc j) :: u32) = 0" by (simp only: add_left_cancel of_nat_Suc)
      moreover have "Suc j < 2 ^ LENGTH(32)" using j(1) Cons.prems(2) by simp
      ultimately show False by (metis Zero_not_Suc unat_of_nat_small unat_0)
    qed
    with 0 show ?thesis by (simp add: mem_write_other)
  next
    case (Suc j)
    with Cons.IH [of j "m(a := x)" "a + 1"] Cons.prems show ?thesis
      by (simp add: add.assoc del: fun_upd_apply)
  qed
qed simp

section \<open>Rings\<close>

text \<open>
  The index arithmetic of every queue of the driver, \<open>(i + 1) % depth\<close> in \<open>int\<close>, stored
  back into a \<open>UWORD\<close>.
\<close>

definition ring_next :: "u16 \<Rightarrow> nat \<Rightarrow> u16" where
  "ring_next i d = of_nat ((unat i + 1) mod d)"

lemma unat_ring_next: "0 < d \<Longrightarrow> d \<le> 65536 \<Longrightarrow> unat (ring_next i d) = (unat i + 1) mod d"
  unfolding ring_next_def by (rule unat_of_nat_small) (simp add: less_le_trans [OF mod_less_divisor])

text \<open>
  A completion queue is read at a head with an expected phase that flips when the head
  wraps. Abstractly it is one counter, the number of entries consumed since the queue was
  created: the head is the counter modulo the depth and the phase is the parity of the
  number of completed rounds. The interface is what a component's own advance does to its
  head and phase; the abstraction then holds for any number of consumed entries.
\<close>

locale cq_ring =
  fixes head :: "'s \<Rightarrow> u16" and phase :: "'s \<Rightarrow> u8" and depth :: nat
    and advance :: "'s \<Rightarrow> 's" and ok :: "'s \<Rightarrow> bool"
  assumes depth_pos: "0 < depth" and depth_le: "depth \<le> 65536"
    and ok_advance: "ok s \<Longrightarrow> ok (advance s)"
    and head_advance: "ok s \<Longrightarrow> head (advance s) = ring_next (head s) depth"
    and phase_advance: "ok s \<Longrightarrow> phase (advance s) =
          (if ring_next (head s) depth = 0 then phase s XOR 1 else phase s)"
begin

definition at :: "nat \<Rightarrow> 's \<Rightarrow> bool" where
  "at n s \<longleftrightarrow> ok s \<and> unat (head s) = n mod depth \<and> phase s = (if even (n div depth) then 1 else 0)"

lemma at_advance: "at n s \<Longrightarrow> at (Suc n) (advance s)"
proof -
  assume a: "at n s"
  have h: "unat (head (advance s)) = Suc n mod depth"
    using a by (simp add: at_def head_advance unat_ring_next depth_pos depth_le mod_Suc_eq)
  have z: "ring_next (head s) depth = 0 \<longleftrightarrow> Suc n mod depth = 0"
    using a h by (simp add: at_def head_advance unat_eq_0 [symmetric] del: unsigned_eq_0_iff)
  have d: "Suc n div depth = (if Suc n mod depth = 0 then Suc (n div depth) else n div depth)"
    by (simp add: div_Suc)
  show ?thesis using a h z d by (auto simp: at_def ok_advance phase_advance)
qed

lemma at_advances: "at n s \<Longrightarrow> at (n + k) ((advance ^^ k) s)"
  by (induction k) (auto dest: at_advance)

end

section \<open>Bounded polling\<close>

text \<open>
  Every wait of the driver is a bounded loop: do the work, stop when the awaited condition
  holds, otherwise yield and go on. \<open>poll_until\<close> returns whether it stopped in time.
\<close>

fun poll_until :: "nat \<Rightarrow> ('s \<Rightarrow> 's) \<Rightarrow> ('s \<Rightarrow> bool) \<Rightarrow> ('s \<Rightarrow> 's) \<Rightarrow> 's \<Rightarrow> bool \<times> 's" where
  "poll_until 0 work stop yield s = (False, s)"
| "poll_until (Suc n) work stop yield s =
     (let s' = work s in
      if stop s' then (True, s') else poll_until n work stop yield (yield s'))"

lemma poll_until_stop: "poll_until n work stop yield s = (True, t) \<Longrightarrow> stop t"
  by (induction n arbitrary: s) (auto simp: Let_def split: if_splits)

lemma poll_until_timeout:
  "poll_until n work stop yield s = (False, t) \<Longrightarrow> 0 < n \<Longrightarrow> \<exists>u. t = yield u \<and> \<not> stop u"
proof (induction n arbitrary: s)
  case (Suc n)
  then show ?case by (cases n) (auto simp: Let_def split: if_splits)
qed simp

text \<open>If the condition holds after \<open>k\<close> yields, within the budget, the poll stops in time.\<close>

lemma poll_until_enough:
  "\<lbrakk>stop (work (((\<lambda>a. yield (work a)) ^^ k) s)); k < n\<rbrakk> \<Longrightarrow> fst (poll_until n work stop yield s)"
proof (induction n arbitrary: s k)
  case (Suc n)
  show ?case
  proof (cases k)
    case 0
    with Suc.prems show ?thesis by (simp add: Let_def)
  next
    case (Suc j)
    then have "stop (work (((\<lambda>a. yield (work a)) ^^ j) (yield (work s))))"
      using Suc.prems(1) funpow_swap1 [of "\<lambda>a. yield (work a)" j s] by simp
    with Suc.IH [of j "yield (work s)"] Suc.prems(2) Suc show ?thesis by (auto simp: Let_def)
  qed
qed simp

locale polling =
  fixes work yield :: "'s \<Rightarrow> 's" and inv :: "'s \<Rightarrow> bool"
  assumes inv_work: "inv s \<Longrightarrow> inv (work s)"
    and inv_yield: "inv s \<Longrightarrow> inv (yield s)"
begin

lemma inv_poll: "inv s \<Longrightarrow> inv (snd (poll_until n work stop yield s))"
  by (induction n arbitrary: s) (auto simp: Let_def inv_work inv_yield)

end

end
