(* ===== verification/Nvme_Regs.thy ===== *)
theory Nvme_Regs
  imports Nvme_Prelude
begin

text \<open>
  The hardware interface of src/include/nvme.h: register offsets, doorbell addresses, the
  field macros of CAP, CC, CSTS and AQA, the 64-byte submission entry as the 16 dwords that
  \<open>write_sqe\<close> and \<open>write_io_sqe\<close> store little-endian, and the fields of a completion
  entry. The lemmas show that the controller reads back the very entry the driver built,
  and that no two doorbells of the driver's queues share an address.
\<close>

section \<open>Registers\<close>

definition NVME_REG_CAP_LO :: u32 where "NVME_REG_CAP_LO = 0x00"
definition NVME_REG_CAP_HI :: u32 where "NVME_REG_CAP_HI = 0x04"
definition NVME_REG_VS :: u32 where "NVME_REG_VS = 0x08"
definition NVME_REG_INTMS :: u32 where "NVME_REG_INTMS = 0x0C"
definition NVME_REG_INTMC :: u32 where "NVME_REG_INTMC = 0x10"
definition NVME_REG_CC :: u32 where "NVME_REG_CC = 0x14"
definition NVME_REG_CSTS :: u32 where "NVME_REG_CSTS = 0x1C"
definition NVME_REG_AQA :: u32 where "NVME_REG_AQA = 0x24"
definition NVME_REG_ASQ_LO :: u32 where "NVME_REG_ASQ_LO = 0x28"
definition NVME_REG_ASQ_HI :: u32 where "NVME_REG_ASQ_HI = 0x2C"
definition NVME_REG_ACQ_LO :: u32 where "NVME_REG_ACQ_LO = 0x30"
definition NVME_REG_ACQ_HI :: u32 where "NVME_REG_ACQ_HI = 0x34"

definition NVME_DOORBELL_BASE :: u32 where "NVME_DOORBELL_BASE = 0x1000"

definition NVME_SQ_TAIL_DB :: "u32 \<Rightarrow> u32 \<Rightarrow> u32" where
  "NVME_SQ_TAIL_DB qid dstrd = NVME_DOORBELL_BASE + (2 * qid) * push_bit (unat dstrd) 4"

definition NVME_CQ_HEAD_DB :: "u32 \<Rightarrow> u32 \<Rightarrow> u32" where
  "NVME_CQ_HEAD_DB qid dstrd = NVME_DOORBELL_BASE + (2 * qid + 1) * push_bit (unat dstrd) 4"

section \<open>Register fields\<close>

definition NVME_CAP_MQES :: "u32 \<Rightarrow> u32" where
  "NVME_CAP_MQES cap_lo = cap_lo AND 0xFFFF"
definition NVME_CAP_DSTRD :: "u32 \<Rightarrow> u32" where
  "NVME_CAP_DSTRD cap_lo = drop_bit 20 cap_lo AND 0xF"
definition NVME_CAP_TO :: "u32 \<Rightarrow> u32" where
  "NVME_CAP_TO cap_lo = drop_bit 24 cap_lo AND 0xFF"
definition NVME_CAP_MPSMIN_HI :: "u32 \<Rightarrow> u32" where
  "NVME_CAP_MPSMIN_HI cap_hi = drop_bit 16 cap_hi AND 0xF"

definition NVME_CC_EN :: u32 where "NVME_CC_EN = 1"
definition NVME_CC_MPS :: "u32 \<Rightarrow> u32" where "NVME_CC_MPS n = push_bit 7 n"
definition NVME_CC_SHN_NORM :: u32 where "NVME_CC_SHN_NORM = push_bit 14 1"
definition NVME_CC_IOSQES :: "u32 \<Rightarrow> u32" where "NVME_CC_IOSQES n = push_bit 16 n"
definition NVME_CC_IOCQES :: "u32 \<Rightarrow> u32" where "NVME_CC_IOCQES n = push_bit 20 n"
definition NVME_CC_DEFAULT :: u32 where
  "NVME_CC_DEFAULT = push_bit 4 0 OR push_bit 11 0 OR push_bit 14 0 OR
     NVME_CC_MPS 0 OR NVME_CC_IOSQES 6 OR NVME_CC_IOCQES 4"

definition NVME_CSTS_RDY :: u32 where "NVME_CSTS_RDY = 1"
definition NVME_CSTS_CFS :: u32 where "NVME_CSTS_CFS = 2"
definition NVME_CSTS_SHST :: "u32 \<Rightarrow> u32" where "NVME_CSTS_SHST s = drop_bit 2 s AND 3"

definition NVME_AQA_ASQS :: "u32 \<Rightarrow> u32" where "NVME_AQA_ASQS n = (n - 1) AND 0xFFF"
definition NVME_AQA_ACQS :: "u32 \<Rightarrow> u32" where "NVME_AQA_ACQS n = push_bit 16 ((n - 1) AND 0xFFF)"

definition NVME_LBAF_LBADS :: "u32 \<Rightarrow> u32" where
  "NVME_LBAF_LBADS v = drop_bit 16 v AND 0xFF"

definition NVME_CQE_PHASE :: "u16 \<Rightarrow> u16" where "NVME_CQE_PHASE st = st AND 1"
definition NVME_CQE_STATUS :: "u16 \<Rightarrow> u16" where "NVME_CQE_STATUS st = drop_bit 1 st AND 0x7FFF"
definition NVME_CQE_SC :: "u16 \<Rightarrow> u16" where "NVME_CQE_SC st = drop_bit 1 st AND 0xFF"
definition NVME_CQE_SCT :: "u16 \<Rightarrow> u16" where "NVME_CQE_SCT st = drop_bit 9 st AND 7"

section \<open>Opcodes and limits\<close>

definition NVME_ADMIN_CREATE_SQ :: u32 where "NVME_ADMIN_CREATE_SQ = 0x01"
definition NVME_ADMIN_GET_LOG_PAGE :: u32 where "NVME_ADMIN_GET_LOG_PAGE = 0x02"
definition NVME_ADMIN_CREATE_CQ :: u32 where "NVME_ADMIN_CREATE_CQ = 0x05"
definition NVME_ADMIN_IDENTIFY :: u32 where "NVME_ADMIN_IDENTIFY = 0x06"
definition NVME_ADMIN_SET_FEATURES :: u32 where "NVME_ADMIN_SET_FEATURES = 0x09"
definition NVME_ADMIN_GET_FEATURES :: u32 where "NVME_ADMIN_GET_FEATURES = 0x0A"
definition NVME_FEATURE_VOLATILE_WRITE_CACHE :: u32 where "NVME_FEATURE_VOLATILE_WRITE_CACHE = 0x06"
definition NVME_CMD_FLUSH :: u32 where "NVME_CMD_FLUSH = 0x00"
definition NVME_CMD_WRITE :: u32 where "NVME_CMD_WRITE = 0x01"
definition NVME_CMD_READ :: u32 where "NVME_CMD_READ = 0x02"
definition NVME_CMD_DSM :: u32 where "NVME_CMD_DSM = 0x09"
definition NVME_DSM_ATTR_AD :: u32 where "NVME_DSM_ATTR_AD = push_bit 2 1"
definition NVME_DSM_MAX_RANGES :: u32 where "NVME_DSM_MAX_RANGES = 256"
definition NVME_STATUS_SUCCESS :: u16 where "NVME_STATUS_SUCCESS = 0"
definition NVME_ADMIN_QUEUE_DEPTH :: nat where "NVME_ADMIN_QUEUE_DEPTH = 64"
definition NVME_IO_QUEUE_DEPTH :: nat where "NVME_IO_QUEUE_DEPTH = 64"
definition NVME_MAX_INFLIGHT :: nat where "NVME_MAX_INFLIGHT = 16"
definition NVME_MAX_CONTROLLERS :: nat where "NVME_MAX_CONTROLLERS = 4"
definition NVME_MAX_UNITS_PER_CTRL :: nat where "NVME_MAX_UNITS_PER_CTRL = 8"
definition NVME_MAX_GLOBAL_UNITS :: nat where "NVME_MAX_GLOBAL_UNITS = NVME_MAX_CONTROLLERS * NVME_MAX_UNITS_PER_CTRL"
definition NVME_BOUNCE_SIZE :: u32 where "NVME_BOUNCE_SIZE = 64 * 1024"
definition NVME_DIRECT_MIN_PAGES :: u32 where "NVME_DIRECT_MIN_PAGES = 2"
definition NVME_SQE_SIZE :: nat where "NVME_SQE_SIZE = 64"
definition NVME_CQE_SIZE :: nat where "NVME_CQE_SIZE = 16"

lemmas reg_defs [nvme_defs] =
  NVME_REG_CAP_LO_def NVME_REG_CAP_HI_def NVME_REG_VS_def NVME_REG_INTMS_def NVME_REG_INTMC_def
  NVME_REG_CC_def NVME_REG_CSTS_def NVME_REG_AQA_def NVME_REG_ASQ_LO_def NVME_REG_ASQ_HI_def
  NVME_REG_ACQ_LO_def NVME_REG_ACQ_HI_def

lemmas size_defs [nvme_defs] =
  NVME_ADMIN_QUEUE_DEPTH_def NVME_IO_QUEUE_DEPTH_def NVME_MAX_INFLIGHT_def NVME_BOUNCE_SIZE_def
  NVME_DIRECT_MIN_PAGES_def NVME_SQE_SIZE_def NVME_CQE_SIZE_def

section \<open>Submission entries\<close>

record nvme_sqe =
  sq_cdw0 :: u32
  sq_nsid :: u32
  sq_cdw2 :: u32
  sq_cdw3 :: u32
  sq_mptr_lo :: u32
  sq_mptr_hi :: u32
  sq_prp1_lo :: u32
  sq_prp1_hi :: u32
  sq_prp2_lo :: u32
  sq_prp2_hi :: u32
  sq_cdw10 :: u32
  sq_cdw11 :: u32
  sq_cdw12 :: u32
  sq_cdw13 :: u32
  sq_cdw14 :: u32
  sq_cdw15 :: u32

text \<open>\<open>memset(&sqe, 0, sizeof(sqe))\<close>\<close>

definition sqe_zero :: nvme_sqe where
  "sqe_zero = \<lparr>sq_cdw0 = 0, sq_nsid = 0, sq_cdw2 = 0, sq_cdw3 = 0, sq_mptr_lo = 0, sq_mptr_hi = 0,
     sq_prp1_lo = 0, sq_prp1_hi = 0, sq_prp2_lo = 0, sq_prp2_hi = 0, sq_cdw10 = 0, sq_cdw11 = 0,
     sq_cdw12 = 0, sq_cdw13 = 0, sq_cdw14 = 0, sq_cdw15 = 0\<rparr>"

text \<open>The structure as the array of dwords the copy loop walks.\<close>

definition sqe_words :: "nvme_sqe \<Rightarrow> u32 list" where
  "sqe_words q = [sq_cdw0 q, sq_nsid q, sq_cdw2 q, sq_cdw3 q, sq_mptr_lo q, sq_mptr_hi q,
     sq_prp1_lo q, sq_prp1_hi q, sq_prp2_lo q, sq_prp2_hi q, sq_cdw10 q, sq_cdw11 q,
     sq_cdw12 q, sq_cdw13 q, sq_cdw14 q, sq_cdw15 q]"

lemma length_sqe_words [simp]: "length (sqe_words q) = 16"
  by (simp add: sqe_words_def)

text \<open>\<open>write_io_sqe(&sq[tail], &sqe)\<close> and, in the same words, \<open>write_sqe\<close>.\<close>

definition write_io_sqe :: "buf \<Rightarrow> nat \<Rightarrow> nvme_sqe \<Rightarrow> buf" where
  "write_io_sqe b idx q = put_seq dma_w32 b (idx * NVME_SQE_SIZE) (sqe_words q)"

definition write_sqe :: "buf \<Rightarrow> nat \<Rightarrow> nvme_sqe \<Rightarrow> buf" where
  "write_sqe b idx q = put_seq dma_w32 b (idx * NVME_SQE_SIZE) (sqe_words q)"

text \<open>What the controller fetches: the 16 little-endian dwords of an entry.\<close>

definition fetch_sqe :: "buf \<Rightarrow> nat \<Rightarrow> nvme_sqe" where
  "fetch_sqe b idx = (let w = (\<lambda>j. dma_r32 b (idx * NVME_SQE_SIZE + 4 * j)) in
     \<lparr>sq_cdw0 = w 0, sq_nsid = w 1, sq_cdw2 = w 2, sq_cdw3 = w 3, sq_mptr_lo = w 4, sq_mptr_hi = w 5,
     sq_prp1_lo = w 6, sq_prp1_hi = w 7, sq_prp2_lo = w 8, sq_prp2_hi = w 9, sq_cdw10 = w 10,
     sq_cdw11 = w 11, sq_cdw12 = w 12, sq_cdw13 = w 13, sq_cdw14 = w 14, sq_cdw15 = w 15\<rparr>)"

lemma fetch_write_same [simp]: "fetch_sqe (write_io_sqe b i q) i = q"
proof -
  have w: "dma_r32 (write_io_sqe b i q) (i * NVME_SQE_SIZE + 4 * j) = sqe_words q ! j" if "j < 16" for j
    using that by (simp add: write_io_sqe_def le.get_put_seq)
  show ?thesis
    unfolding fetch_sqe_def Let_def
    by (simp only: w rel_simps simp_thms) (simp add: sqe_words_def)
qed

lemma fetch_write_other [simp]:
  assumes "i \<noteq> k"
  shows "fetch_sqe (write_io_sqe b i q) k = fetch_sqe b k"
proof -
  have s: "k * 64 + 64 \<le> i * 64 \<or> i * 64 + 64 \<le> k * (64::nat)"
    using assms by linarith
  have "dma_r32 (write_io_sqe b i q) (k * NVME_SQE_SIZE + 4 * j) = dma_r32 b (k * NVME_SQE_SIZE + 4 * j)"
    if "j < 16" for j
    using s that unfolding write_io_sqe_def
    by (intro le.get_put_seq_other) (auto simp: NVME_SQE_SIZE_def)
  then show ?thesis
    unfolding fetch_sqe_def Let_def by (simp only: rel_simps simp_thms)
qed

text \<open>A write to entry \<open>i\<close> stays inside entry \<open>i\<close>, so inside a queue of more than \<open>i\<close> entries.\<close>

lemma write_io_sqe_outside:
  "k < i * 64 \<or> (i + 1) * 64 \<le> k \<Longrightarrow> write_io_sqe b i q k = b k"
  by (auto simp: write_io_sqe_def NVME_SQE_SIZE_def put_seq_other)

lemma write_sqe_eq: "write_sqe = write_io_sqe"
  by (intro ext) (simp add: write_sqe_def write_io_sqe_def)

section \<open>Completion entries\<close>

text \<open>
  Dword 3 of the completion entry at \<open>head\<close>, as \<open>NVMeIO_Harvest\<close>, \<open>NVMe_AdminCmd\<close> and the
  interrupt handler read it: the low half is the command identifier, the high half the
  status with the phase bit.
\<close>

definition cqe_dw3 :: "buf \<Rightarrow> nat \<Rightarrow> u32" where
  "cqe_dw3 b idx = dma_r32 b (idx * NVME_CQE_SIZE + 12)"

definition cqe_status :: "buf \<Rightarrow> nat \<Rightarrow> u16" where
  "cqe_status b idx = ucast (drop_bit 16 (cqe_dw3 b idx))"

definition cqe_cid :: "buf \<Rightarrow> nat \<Rightarrow> u16" where
  "cqe_cid b idx = ucast (cqe_dw3 b idx AND 0xFFFF)"

text \<open>What the controller posts: the command identifier and the status in dword 3.\<close>

definition post_cqe :: "buf \<Rightarrow> nat \<Rightarrow> u16 \<Rightarrow> u16 \<Rightarrow> buf" where
  "post_cqe b idx cid st = dma_w32 b (idx * NVME_CQE_SIZE + 12) (push_bit 16 (ucast st) OR ucast cid)"

lemma halves_join:
  "ucast (drop_bit 16 (push_bit 16 (ucast (st :: u16)) OR ucast (cid :: u16) :: u32)) = st"
  "ucast ((push_bit 16 (ucast (st :: u16)) OR ucast (cid :: u16) :: u32) AND 0xFFFF) = cid"
proof -
  show "ucast (drop_bit 16 (push_bit 16 (ucast st) OR ucast cid :: u32)) = st"
    by (rule bit_word_eqI) (auto simp: bit_simps dest: bit_imp_le_length)
  have m: "(0xFFFF :: u32) = mask 16" by (simp add: mask_eq_exp_minus_1)
  show "ucast ((push_bit 16 (ucast st) OR ucast cid :: u32) AND 0xFFFF) = cid"
    unfolding m by (rule bit_word_eqI) (auto simp: bit_simps)
qed

lemma post_cqe_read [simp]:
  "cqe_status (post_cqe b i cid st) i = st" "cqe_cid (post_cqe b i cid st) i = cid"
  by (simp_all only: cqe_status_def cqe_cid_def cqe_dw3_def post_cqe_def dma_r32_w32_same halves_join)

lemma post_cqe_other:
  assumes "i \<noteq> k"
  shows "cqe_dw3 (post_cqe b i cid st) k = cqe_dw3 b k"
proof -
  have "k * 16 + 16 \<le> i * 16 \<or> i * 16 + 16 \<le> k * (16::nat)"
    using assms by linarith
  then show ?thesis
    by (auto simp: cqe_dw3_def post_cqe_def NVME_CQE_SIZE_def intro!: dma_r32_w32_other)
qed

lemma post_cqe_other_fields [simp]:
  "i \<noteq> k \<Longrightarrow> cqe_status (post_cqe b i cid st) k = cqe_status b k"
  "i \<noteq> k \<Longrightarrow> cqe_cid (post_cqe b i cid st) k = cqe_cid b k"
  by (simp_all add: cqe_status_def cqe_cid_def post_cqe_other)

lemma phase_is_bit: "NVME_CQE_PHASE st = 0 \<or> NVME_CQE_PHASE st = 1"
  by (cases "even st") (simp_all add: NVME_CQE_PHASE_def and_one_eq even_iff_mod_2_eq_zero odd_iff_mod_2_eq_one)

end
