(* ===== verification/Nvme_Status.thy ===== *)
theory Nvme_Status
  imports Nvme_Regs
begin

text \<open>
  src/src/nvme_status.c: the mapping from the status word of a completion entry to the
  \<open>io_Error\<close> of the request, and its diagnostic text. The error codes are the named
  constants of the system headers; the code only stores and compares them, so the model
  keeps them as distinct names, \<open>IO_OK\<close> being the value 0.
\<close>

datatype ioerr =
    IO_OK
  | IOERR_OPENFAIL
  | IOERR_ABORTED
  | IOERR_NOCMD
  | IOERR_BADLENGTH
  | IOERR_BADADDRESS
  | IOERR_UNITBUSY
  | HFERR_BadStatus

definition sct_of :: "u16 \<Rightarrow> u8" where
  "sct_of s = ucast (drop_bit 9 s AND 0x7)"

definition sc_of :: "u16 \<Rightarrow> u8" where
  "sc_of s = ucast (drop_bit 1 s AND 0xFF)"

definition NVMe_StatusToIOErr :: "u16 \<Rightarrow> ioerr" where
  "NVMe_StatusToIOErr status_word =
     (let sct = sct_of status_word; sc = sc_of status_word in
      if sct = 0 \<and> sc = 0 then IO_OK
      else if sct = 0 then
        (if sc = 0x07 \<or> sc = 0x08 \<or> sc = 0x09 \<or> sc = 0x0A \<or> sc = 0x05 then IOERR_ABORTED
         else if sc = 0x80 \<or> sc = 0x81 \<or> sc = 0x82 \<or> sc = 0x83 then IOERR_BADADDRESS
         else if sc = 0x01 \<or> sc = 0x02 \<or> sc = 0x0B then IOERR_NOCMD
         else HFERR_BadStatus)
      else if sct = 1 then HFERR_BadStatus
      else if sct = 2 then IOERR_BADADDRESS
      else if sct = 3 then HFERR_BadStatus
      else if sct = 7 then HFERR_BadStatus
      else HFERR_BadStatus)"

definition NVMe_StatusDescribe :: "u16 \<Rightarrow> string" where
  "NVMe_StatusDescribe status_word =
     (let sct = sct_of status_word; sc = sc_of status_word in
      if sct = 0 \<and> sc = 0 then ''Success''
      else if sct = 0 then
        (if sc = 0x01 then ''Invalid Opcode''
         else if sc = 0x02 then ''Invalid Field''
         else if sc = 0x03 then ''Command ID Conflict''
         else if sc = 0x04 then ''Data Transfer Error''
         else if sc = 0x05 then ''Power-Loss Abort''
         else if sc = 0x06 then ''Internal Error''
         else if sc = 0x07 then ''Abort Requested''
         else if sc = 0x08 then ''Abort (SQ Deleted)''
         else if sc = 0x09 then ''Abort (Failed Fused)''
         else if sc = 0x0A then ''Abort (Missing Fused)''
         else if sc = 0x0B then ''Invalid NS/Format''
         else if sc = 0x0C then ''Command Sequence Error''
         else if sc = 0x80 then ''LBA Out of Range''
         else if sc = 0x81 then ''Capacity Exceeded''
         else if sc = 0x82 then ''Namespace Not Ready''
         else if sc = 0x83 then ''Reservation Conflict''
         else ''Generic Error'')
      else if sct = 1 then ''Command-Specific Error''
      else if sct = 2 then ''Media/Data-Integrity Error''
      else if sct = 3 then ''Path-Related Error''
      else if sct = 7 then ''Vendor-Specific Error''
      else ''Unknown'')"

lemma StatusToIOErr_OK_iff: "NVMe_StatusToIOErr w = IO_OK \<longleftrightarrow> sct_of w = 0 \<and> sc_of w = 0"
  by (simp add: NVMe_StatusToIOErr_def Let_def)

lemma StatusDescribe_Success_iff: "NVMe_StatusDescribe w = ''Success'' \<longleftrightarrow> sct_of w = 0 \<and> sc_of w = 0"
  by (simp add: NVMe_StatusDescribe_def Let_def)

lemma sc_sct_zero_iff: "sct_of w = 0 \<and> sc_of w = 0 \<longleftrightarrow> (\<forall>n. 1 \<le> n \<and> n < 12 \<longrightarrow> \<not> bit w n)"
proof -
  have m: "(7 :: u16) = mask 3" "(0xFF :: u16) = mask 8" by (simp_all add: mask_eq_exp_minus_1)
  have a: "bit (sct_of w) n \<longleftrightarrow> n < 3 \<and> bit w (n + 9)" for n
    unfolding sct_of_def m by (auto simp: bit_simps ac_simps)
  have b: "bit (sc_of w) n \<longleftrightarrow> n < 8 \<and> bit w (n + 1)" for n
    unfolding sc_of_def m by (auto simp: bit_simps ac_simps)
  have "sct_of w = 0 \<longleftrightarrow> (\<forall>n<3. \<not> bit w (n + 9))" "sc_of w = 0 \<longleftrightarrow> (\<forall>n<8. \<not> bit w (n + 1))"
    by (auto simp: bit_eq_iff a b)
  moreover have "(\<forall>n<3. \<not> bit w (n + 9)) \<and> (\<forall>n<8. \<not> bit w (n + 1)) \<longleftrightarrow> (\<forall>n. 1 \<le> n \<and> n < 12 \<longrightarrow> \<not> bit w n)"
    (is "?l \<longleftrightarrow> ?r")
  proof
    assume l: ?l
    show ?r
    proof (intro allI impI)
      fix n :: nat assume "1 \<le> n \<and> n < 12"
      then have "(n - 9 < 3 \<and> n = n - 9 + 9) \<or> (n - 1 < 8 \<and> n = n - 1 + 1)" by arith
      with l show "\<not> bit w n" by metis
    qed
  qed auto
  ultimately show ?thesis by blast
qed

text \<open>The mapper looks at the bits 1 to 11 only: two words that agree there map alike.\<close>

lemma sct_sc_cong:
  assumes "\<And>n. 1 \<le> n \<Longrightarrow> n < 12 \<Longrightarrow> bit v n = bit w n"
  shows "sct_of v = sct_of w" and "sc_of v = sc_of w"
proof -
  have m: "(7 :: u16) = mask 3" "(0xFF :: u16) = mask 8" by (simp_all add: mask_eq_exp_minus_1)
  show "sct_of v = sct_of w"
    unfolding sct_of_def m by (rule bit_word_eqI) (auto simp: bit_simps assms)
  show "sc_of v = sc_of w"
    unfolding sc_of_def m by (rule bit_word_eqI) (auto simp: bit_simps assms)
qed

end
