(* ===== verification/Nvme_State.thy ===== *)
theory Nvme_State
  imports Nvme_Status
begin

text \<open>
  The state of the driver as src/include/nvme_device.h lays it out: the inflight slot, the
  unit (one namespace), the controller, the I/O request of exec and the SCSI command block
  that travels inside it. Pointers are 32-bit addresses with 0 for NULL. Structures that
  the driver reaches through a pointer handed in by a caller are stores from the address to
  the record; the byte buffers shared with the controller are separate allocations, so
  separate components of the record \<open>ram\<close>.

  The operating system and the device are parameters, collected in the record \<open>env\<close>. Every
  one of them may depend on the whole history of calls and register accesses so far, the
  \<open>trace\<close>, so nothing about the device is assumed: \<open>e_device\<close> may rewrite any memory
  whenever the driver looks at a completion queue.
\<close>

section \<open>I/O requests\<close>

text \<open>
  The command codes that \<open>_manager_BeginIO\<close> and \<open>dispatch_ioreq\<close> distinguish, by name: they
  are labels of one switch, so pairwise distinct; \<open>CMD_OTHER\<close> is any other code.
\<close>

datatype iocmd =
    CMD_READ | CMD_WRITE | CMD_UPDATE | CMD_CLEAR | CMD_FLUSH | CMD_START | CMD_STOP
  | TD_MOTOR | TD_SEEK | TD_EJECT | TD_FORMAT | TD_GETGEOMETRY | TD_GETNUMTRACKS | TD_GETDRIVETYPE
  | TD_ADDCHANGEINT | TD_REMCHANGEINT | TD_REMOVE | TD_CHANGENUM | TD_CHANGESTATE | TD_PROTSTATUS
  | TD_READ64 | TD_WRITE64 | TD_SEEK64 | TD_FORMAT64 | HD_SCSICMD
  | ETD_READ | ETD_WRITE | ETD_UPDATE | ETD_CLEAR | ETD_MOTOR | ETD_SEEK | ETD_FORMAT
  | NSCMD_DEVICEQUERY | NSCMD_TD_READ64 | NSCMD_TD_WRITE64 | NSCMD_TD_SEEK64 | NSCMD_TD_FORMAT64
  | NSCMD_TD_GETGEOMETRY64 | NSCMD_ETD_READ64 | NSCMD_ETD_WRITE64 | NSCMD_ETD_SEEK64
  | NSCMD_ETD_FORMAT64 | NSCMD_NVME_GETSTATS | NSCMD_TD_ADDSTATCALLBACK | NSCMD_TD_REMSTATCALLBACK
  | CMD_OTHER u16

record IOStdReq =
  io_Unit :: u32
  io_Command :: iocmd
  io_Flags :: u8
  io_Error :: ioerr
  io_Actual :: u32
  io_Length :: u32
  io_Data :: u32
  io_Offset :: u32

definition IOF_QUICK :: u8 where "IOF_QUICK = 1"

record SCSICmd =
  scsi_Data :: u32
  scsi_Length :: u32
  scsi_Actual :: u32
  scsi_Command :: u32
  scsi_CmdLength :: u16
  scsi_CmdActual :: u16
  scsi_Status :: u8
  scsi_SenseData :: u32
  scsi_SenseLength :: u16
  scsi_SenseActual :: u16

record DriveGeometry =
  dg_SectorSize :: u32
  dg_TotalSectors :: u32
  dg_Cylinders :: u32
  dg_CylSectors :: u32
  dg_Heads :: u32
  dg_TrackSectors :: u32
  dg_BufMemType :: u32
  dg_DeviceType :: u8
  dg_Flags :: u8

record DriveGeometry64 =
  dg64_SectorSize :: u32
  dg64_TotalSectors :: u64
  dg64_DeviceType :: u8
  dg64_Flags :: u8

text \<open>The static command table that \<open>SupportedCommands\<close> points to is kept as its contents.\<close>

record NSDeviceQueryResult =
  DevQueryFormat :: u32
  SizeAvailable :: u32
  DeviceType :: u16
  DeviceSubType :: u16
  SupportedCommands :: "iocmd list"

section \<open>Inflight slots, units and controllers\<close>

record NVMeInflight =
  inf_ioreq :: u32
  inf_cmd_id :: u16
  inf_is_write :: bool
  inf_dma_buf :: u32
  inf_dma_phys :: u32
  inf_dma_size :: u32
  inf_dma_list :: u32
  inf_dma_entries :: u32
  inf_dma_flags :: u32
  inf_use_bounce :: bool
  inf_bounce_user_buf :: u32
  inf_bounce_user_len :: u32
  inf_suppress_reply :: bool
  inf_submit_ticks_hi :: u32
  inf_submit_ticks_lo :: u32

record NVMeUnitStats =
  st_reads :: u64
  st_writes :: u64
  st_flushes :: u64
  st_read_bytes :: u64
  st_write_bytes :: u64
  st_err_timeout :: u32
  st_err_status :: u32
  st_err_abort :: u32
  st_err_dma :: u32
  st_inflight_current :: u32
  st_inflight_peak :: u32
  st_unitbusy_hits :: u32
  st_mdts_splits :: u32
  st_bounce_hits :: u32
  st_direct_dma_hits :: u32
  st_prp_list_hits :: u32
  st_total_io_ticks :: u64
  st_max_io_ticks :: u64

text \<open>
  The lists \<open>inflight\<close>, \<open>bounce_phys\<close>, \<open>prp_list_phys\<close> and \<open>dma_entry_pool\<close> are the C arrays of
  \<open>NVME_MAX_INFLIGHT\<close> elements; the contents of the bounce buffers, the PRP list pages and
  the queues are in \<open>ram\<close>. \<open>port_msgs\<close> is the message list of \<open>io_port\<close>.
\<close>

record NVMeUnit =
  unit_num :: u32
  nsid :: u32
  unit_ctrl :: u32
  open_count :: u32
  block_size :: u32
  total_blocks :: u64
  block_shift :: u32
  io_sq :: u32
  io_cq :: u32
  io_sq_phys :: u32
  io_cq_phys :: u32
  io_sq_tail :: u16
  io_cq_head :: u16
  io_cq_phase :: u8
  queue_depth :: u16
  queue_id :: u16
  unit_task :: u32
  io_port :: u32
  io_signal_mask :: u32
  io_wait_task :: u32
  task_shutdown :: bool
  shutdown_ack_task :: u32
  shutdown_ack_mask :: u32
  port_msgs :: "u32 list"
  inflight :: "NVMeInflight list"
  bounce_bufs :: "u32 list"
  bounce_phys :: "u32 list"
  prp_list_pages :: "u32 list"
  prp_list_phys :: "u32 list"
  dma_entry_pool :: "u32 list"
  dma_entry_pool_capacity :: u32
  dsm_buf :: u32
  dsm_phys :: u32
  changeint_req :: u32
  remove_req :: u32
  stats :: NVMeUnitStats

record NVMeSMARTCache =
  sc_valid :: bool
  sc_last_refresh_tbr :: u64
  sc_critical_warning :: u8
  sc_temp_k :: u16
  sc_spare_pct :: u8
  sc_spare_threshold :: u8
  sc_life_used_pct :: u8
  sc_data_read_units :: u64
  sc_data_written_units :: u64
  sc_host_reads :: u64
  sc_host_writes :: u64
  sc_power_cycles :: u64
  sc_power_on_hours :: u64
  sc_unsafe_shutdowns :: u64
  sc_media_errors :: u64

record NVMeController =
  iobase :: u32
  cap_mqes :: u32
  cap_dstrd :: u32
  page_size :: u32
  max_transfer_bytes :: u32
  io_queue_depth :: u16
  admin_sq :: u32
  admin_cq :: u32
  admin_sq_phys :: u32
  admin_cq_phys :: u32
  admin_sq_dma :: u32
  admin_cq_dma :: u32
  admin_sq_tail :: u16
  admin_cq_head :: u16
  admin_cq_phase :: u8
  next_cmd_id :: u16
  identify_buf :: u32
  identify_phys :: u32
  identify_dma :: u32
  pciDevice :: u32
  irq_vector :: u32
  irq_installed :: bool
  polling_mode :: bool
  model_str :: "u8 list"
  serial_str :: "u8 list"
  fw_rev_str :: "u8 list"
  onc_dsm :: bool
  vwc_present :: bool
  vwc_enabled :: bool
  smart_cache :: NVMeSMARTCache
  ctrl_idx :: u32
  bar0 :: u32

section \<open>Memory, trace and environment\<close>

record ram =
  mem :: cpu_mem
  sq_mem :: buf
  cq_mem :: buf
  bounce_mem :: "nat \<Rightarrow> buf"
  prp_mem :: "nat \<Rightarrow> buf"
  dsm_mem :: buf
  asq_mem :: buf
  acq_mem :: buf
  id_mem :: buf

record DMAEntry =
  PhysicalAddress :: u32
  BlockLength :: u32

text \<open>What the driver reads of a resource range of the PCI interface.\<close>

record PCIResourceRange =
  BaseAddress :: u32
  Physical :: u32
  range_Size :: u32
  range_Flags :: u32

datatype event =
    EvW32 u32 u32
  | EvR32 u32
  | EvReply u32
  | EvPutMsg u32
  | EvStartDMA u32 u32 u32 u32
  | EvEndDMA u32 u32 u32
  | EvAllocEntries u32
  | EvFreeEntries u32
  | EvForbid
  | EvPermit
  | EvObtain
  | EvRelease
  | EvPoll
  | EvAllocVec u32
  | EvFreeVec u32
  | EvAllocPort u32
  | EvFreePort u32
  | EvAllocSignal int
  | EvFreeSignal u32
  | EvSignal u32 u32
  | EvWait u32
  | EvCreateTask u32
  | EvAddIntServer u32 bool
  | EvRemIntServer u32
  | EvAnnounce u32
  | EvOpenLibrary u32
  | EvCloseLibrary u32
  | EvGetInterface u32
  | EvDropInterface u32
  | EvFindDevice u32
  | EvFreeDevice u32
  | EvReadConfig u32 u32
  | EvWriteConfig u32 u32 u32
  | EvGetRange u32 u32
  | EvFreeRange u32 u32
  | EvSetMemoryAttrs u32 u32 u32
  | EvDeleteLibrary

record env =
  e_StartDMA :: "event list \<Rightarrow> u32 \<Rightarrow> u32 \<Rightarrow> u32 \<Rightarrow> u32"
  e_GetDMAList :: "event list \<Rightarrow> u32 \<Rightarrow> u32 \<Rightarrow> u32 \<Rightarrow> nat \<Rightarrow> DMAEntry"
  e_AllocDMAEntry :: "event list \<Rightarrow> u32 \<Rightarrow> u32"
  e_CopyMem_in :: "cpu_mem \<Rightarrow> u32 \<Rightarrow> u32 \<Rightarrow> buf \<Rightarrow> buf"
  e_CopyMem_out :: "buf \<Rightarrow> cpu_mem \<Rightarrow> u32 \<Rightarrow> u32 \<Rightarrow> cpu_mem"
  e_tbr :: "event list \<Rightarrow> u64"
  e_mmio :: "event list \<Rightarrow> u32 \<Rightarrow> u32"
  e_device :: "event list \<Rightarrow> ram \<Rightarrow> ram"
  e_eclock_freq :: u32
  e_AllocVec :: "event list \<Rightarrow> u32 \<Rightarrow> u32"
  e_AllocPort :: "event list \<Rightarrow> u32"
  e_AllocSignal :: "event list \<Rightarrow> int"
  e_CreateTask :: "event list \<Rightarrow> u32"
  e_MapInterrupt :: u32
  e_AddIntServer :: "event list \<Rightarrow> u32 \<Rightarrow> bool"
  e_this_task :: u32
  e_mounter :: bool
  e_OpenLibrary :: "event list \<Rightarrow> string \<Rightarrow> u32 \<Rightarrow> u32"
  e_GetInterface :: "event list \<Rightarrow> u32 \<Rightarrow> string \<Rightarrow> u32"
  e_FindBridge :: "event list \<Rightarrow> u32"
  e_FindClass :: "event list \<Rightarrow> u32 \<Rightarrow> u32 \<Rightarrow> u32 \<Rightarrow> u32"
  e_ReadConfig :: "event list \<Rightarrow> u32 \<Rightarrow> u32 \<Rightarrow> u32"
  e_GetResourceRange :: "event list \<Rightarrow> u32 \<Rightarrow> u32"
  e_range :: "u32 \<Rightarrow> PCIResourceRange"
  e_GetMemoryAttrs :: "event list \<Rightarrow> u32 \<Rightarrow> u32"
  k_SysBase :: u32
  k_PCI_VENDOR_ID :: u32
  k_PCI_DEVICE_ID :: u32
  k_PCI_COMMAND :: u32
  k_PCI_BASE_ADDRESS_0 :: u32
  k_PCI_BASE_ADDRESS_1 :: u32
  k_PCI_COMMAND_MEMORY :: u16
  k_PCI_COMMAND_MASTER :: u16
  k_PCI_COMMAND_INT_DISABLE :: u16
  k_PCI_RANGE_MEMORY :: u32
  k_MEMATTRF_CACHEINHIBIT :: u32
  k_MEMATTRF_GUARDED :: u32
  k_sizeof_NVMeUnit :: u32
  k_DMA_ReadFromRAM :: u32
  k_MEMF_PUBLIC :: u32
  k_DG_DIRECT_ACCESS :: u8
  k_DRIVE_NEWSTYLE :: u32
  k_sizeof_SCSICmd :: u32
  k_sizeof_DriveGeometry :: u32
  k_sizeof_DriveGeometry64 :: u32
  k_sizeof_NSDeviceQueryResult :: u32
  k_NSDEVTYPE_TRACKDISK :: u16

record drv =
  ram :: ram
  reqs :: "u32 \<Rightarrow> IOStdReq"
  scsis :: "u32 \<Rightarrow> SCSICmd"
  geoms :: "u32 \<Rightarrow> DriveGeometry"
  geoms64 :: "u32 \<Rightarrow> DriveGeometry64"
  nsqs :: "u32 \<Rightarrow> NSDeviceQueryResult"
  isr_count :: u32
  isr_claimed :: u32
  isr_not_ours :: u32
  unit_st :: NVMeUnit
  ctrl_st :: NVMeController
  trace :: "event list"

section \<open>Elementary effects\<close>

definition log_ev :: "event \<Rightarrow> drv \<Rightarrow> drv" where
  "log_ev e s = s\<lparr>trace := trace s @ [e]\<rparr>"

definition nvme_w32 :: "u32 \<Rightarrow> u32 \<Rightarrow> drv \<Rightarrow> drv" where
  "nvme_w32 addr val = log_ev (EvW32 addr val)"

definition nvme_r32 :: "env \<Rightarrow> u32 \<Rightarrow> drv \<Rightarrow> u32 \<times> drv" where
  "nvme_r32 e addr s = (e_mmio e (trace s) addr, log_ev (EvR32 addr) s)"

definition ReplyMsg :: "u32 \<Rightarrow> drv \<Rightarrow> drv" where
  "ReplyMsg req = log_ev (EvReply req)"

definition Forbid_Permit :: "drv \<Rightarrow> drv" where
  "Forbid_Permit s = log_ev EvPermit (log_ev EvForbid s)"

definition upd_req :: "u32 \<Rightarrow> (IOStdReq \<Rightarrow> IOStdReq) \<Rightarrow> drv \<Rightarrow> drv" where
  "upd_req p f s = s\<lparr>reqs := (reqs s)(p := f (reqs s p))\<rparr>"

definition upd_scsi :: "u32 \<Rightarrow> (SCSICmd \<Rightarrow> SCSICmd) \<Rightarrow> drv \<Rightarrow> drv" where
  "upd_scsi p f s = s\<lparr>scsis := (scsis s)(p := f (scsis s p))\<rparr>"

definition upd_unit :: "(NVMeUnit \<Rightarrow> NVMeUnit) \<Rightarrow> drv \<Rightarrow> drv" where
  "upd_unit f s = s\<lparr>unit_st := f (unit_st s)\<rparr>"

definition upd_ctrl :: "(NVMeController \<Rightarrow> NVMeController) \<Rightarrow> drv \<Rightarrow> drv" where
  "upd_ctrl f s = s\<lparr>ctrl_st := f (ctrl_st s)\<rparr>"

definition upd_stats :: "(NVMeUnitStats \<Rightarrow> NVMeUnitStats) \<Rightarrow> drv \<Rightarrow> drv" where
  "upd_stats f = upd_unit (\<lambda>u. u\<lparr>stats := f (stats u)\<rparr>)"

definition upd_slot :: "nat \<Rightarrow> (NVMeInflight \<Rightarrow> NVMeInflight) \<Rightarrow> drv \<Rightarrow> drv" where
  "upd_slot i f = upd_unit (\<lambda>u. u\<lparr>inflight := (inflight u)[i := f (inflight u ! i)]\<rparr>)"

definition upd_ram :: "(ram \<Rightarrow> ram) \<Rightarrow> drv \<Rightarrow> drv" where
  "upd_ram f s = s\<lparr>ram := f (ram s)\<rparr>"

definition slot_of :: "drv \<Rightarrow> nat \<Rightarrow> NVMeInflight" where
  "slot_of s i = inflight (unit_st s) ! i"

lemmas effect_defs = log_ev_def nvme_w32_def ReplyMsg_def Forbid_Permit_def upd_req_def
  upd_scsi_def upd_unit_def upd_ctrl_def upd_stats_def upd_slot_def upd_ram_def

text \<open>Each effect touches one component: the projections of the others see through it.\<close>

lemma trace_effects [simp]:
  "trace (log_ev e s) = trace s @ [e]"
  "trace (nvme_w32 a v s) = trace s @ [EvW32 a v]"
  "trace (ReplyMsg r s) = trace s @ [EvReply r]"
  "trace (Forbid_Permit s) = trace s @ [EvForbid, EvPermit]"
  "trace (upd_req p f s) = trace s" "trace (upd_scsi p f' s) = trace s"
  "trace (upd_unit g s) = trace s" "trace (upd_ctrl c s) = trace s"
  "trace (upd_stats h s) = trace s" "trace (upd_slot i k s) = trace s" "trace (upd_ram m s) = trace s"
  by (simp_all add: effect_defs)

lemma unit_effects [simp]:
  "unit_st (log_ev e s) = unit_st s" "unit_st (nvme_w32 a v s) = unit_st s"
  "unit_st (ReplyMsg r s) = unit_st s" "unit_st (Forbid_Permit s) = unit_st s"
  "unit_st (upd_req p f s) = unit_st s" "unit_st (upd_scsi p f' s) = unit_st s"
  "unit_st (upd_unit g s) = g (unit_st s)" "unit_st (upd_ctrl c s) = unit_st s"
  "unit_st (upd_stats h s) = (unit_st s)\<lparr>stats := h (stats (unit_st s))\<rparr>"
  "unit_st (upd_slot i k s) =
     (unit_st s)\<lparr>inflight := (inflight (unit_st s))[i := k (inflight (unit_st s) ! i)]\<rparr>"
  "unit_st (upd_ram m s) = unit_st s"
  by (simp_all add: effect_defs)

lemma ctrl_effects [simp]:
  "ctrl_st (log_ev e s) = ctrl_st s" "ctrl_st (nvme_w32 a v s) = ctrl_st s"
  "ctrl_st (ReplyMsg r s) = ctrl_st s" "ctrl_st (Forbid_Permit s) = ctrl_st s"
  "ctrl_st (upd_req p f s) = ctrl_st s" "ctrl_st (upd_scsi p f' s) = ctrl_st s"
  "ctrl_st (upd_unit g s) = ctrl_st s" "ctrl_st (upd_ctrl c s) = c (ctrl_st s)"
  "ctrl_st (upd_stats h s) = ctrl_st s" "ctrl_st (upd_slot i k s) = ctrl_st s"
  "ctrl_st (upd_ram m s) = ctrl_st s"
  by (simp_all add: effect_defs)

lemma ram_effects [simp]:
  "ram (log_ev e s) = ram s" "ram (nvme_w32 a v s) = ram s"
  "ram (ReplyMsg r s) = ram s" "ram (Forbid_Permit s) = ram s"
  "ram (upd_req p f s) = ram s" "ram (upd_scsi p f' s) = ram s"
  "ram (upd_unit g s) = ram s" "ram (upd_ctrl c s) = ram s"
  "ram (upd_stats h s) = ram s" "ram (upd_slot i k s) = ram s" "ram (upd_ram m s) = m (ram s)"
  by (simp_all add: effect_defs)

lemma reqs_effects [simp]:
  "reqs (log_ev e s) = reqs s" "reqs (nvme_w32 a v s) = reqs s"
  "reqs (ReplyMsg r s) = reqs s" "reqs (Forbid_Permit s) = reqs s"
  "reqs (upd_req p f s) = (reqs s)(p := f (reqs s p))" "reqs (upd_scsi p f' s) = reqs s"
  "reqs (upd_unit g s) = reqs s" "reqs (upd_ctrl c s) = reqs s"
  "reqs (upd_stats h s) = reqs s" "reqs (upd_slot i k s) = reqs s" "reqs (upd_ram m s) = reqs s"
  by (simp_all add: effect_defs)

lemma scsis_effects [simp]:
  "scsis (log_ev e s) = scsis s" "scsis (nvme_w32 a v s) = scsis s"
  "scsis (ReplyMsg r s) = scsis s" "scsis (Forbid_Permit s) = scsis s"
  "scsis (upd_req p f s) = scsis s" "scsis (upd_scsi p f' s) = (scsis s)(p := f' (scsis s p))"
  "scsis (upd_unit g s) = scsis s" "scsis (upd_ctrl c s) = scsis s"
  "scsis (upd_stats h s) = scsis s" "scsis (upd_slot i k s) = scsis s" "scsis (upd_ram m s) = scsis s"
  by (simp_all add: effect_defs)

end
