(* ===== verification/Nvme_Prp.thy ===== *)
theory Nvme_Prp
  imports Nvme_State
begin

text \<open>
  The choice of the transfer path and the construction of PRP1, PRP2 and the PRP list
  (src/src/nvme/nvme_io.c: \<open>should_use_bounce\<close> and the two branches of
  \<open>NVMeIO_SubmitNoRing\<close>), with the addressing rule of NVMe 1.4 section 4.3 as the abstract
  specification: the physical address the controller uses for byte \<open>k\<close> of the transfer is
  the physical address of byte \<open>k\<close> of the buffer.
\<close>

section \<open>Path selection\<close>

definition should_use_bounce :: "u32 \<Rightarrow> u32 \<Rightarrow> u32 \<Rightarrow> bool" where
  "should_use_bounce byte_length data_virt pgsize =
     (if byte_length > NVME_BOUNCE_SIZE then False
      else let min_direct = NVME_DIRECT_MIN_PAGES * pgsize in
      if byte_length < min_direct then True
      else (data_virt AND (pgsize - 1)) \<noteq> 0)"

section \<open>The bounce path\<close>

datatype prp2 = PRP2_value u32 | PRP2_list | PRP2_overflow

text \<open>\<open>for (p = 0; p < extra_pages; p++)\<close>: the loop that fills the PRP list page.\<close>

primrec bounce_fill :: "nat \<Rightarrow> u32 \<Rightarrow> u32 \<Rightarrow> nat \<Rightarrow> buf \<Rightarrow> buf" where
  "bounce_fill 0 pgsize prp1 p b = b"
| "bounce_fill (Suc n) pgsize prp1 p b =
     (let page_phys = prp1 + (of_nat p + 1) * pgsize in
      bounce_fill n pgsize prp1 (Suc p)
        (dma_w32 (dma_w32 b (8 * p) page_phys) (8 * p + 4) 0))"

definition bounce_prp2 :: "u32 \<Rightarrow> u32 \<Rightarrow> u32 \<Rightarrow> buf \<Rightarrow> buf \<times> prp2" where
  "bounce_prp2 pgsize byte_length prp1 b =
     (if byte_length \<le> pgsize then (b, PRP2_value 0)
      else if byte_length \<le> 2 * pgsize then (b, PRP2_value (prp1 + pgsize))
      else let num_pages = (byte_length + pgsize - 1) div pgsize;
               extra_pages = num_pages - 1;
               max_prp = pgsize div 8
           in if extra_pages > max_prp then (b, PRP2_overflow)
              else (bounce_fill (unat extra_pages) pgsize prp1 0 b, PRP2_list))"

section \<open>The direct path\<close>

record prp_acc =
  pa_pg :: u32
  pa_first :: u32
  pa_list :: buf
  pa_overflow :: bool

text \<open>The inner loop, \<open>while (scan < entry_end)\<close>.\<close>

function prp_scan :: "u32 \<Rightarrow> u32 \<Rightarrow> u32 \<Rightarrow> u32 \<Rightarrow> u32 \<Rightarrow> u32 \<Rightarrow> prp_acc \<Rightarrow> prp_acc" where
  "prp_scan pgsize max_prp ebase global_off entry_end scan a =
     (if scan < entry_end then
        let page_phys = ebase + (scan - global_off);
            a1 = (if pa_pg a = 0 then a\<lparr>pa_first := page_phys\<rparr> else a) in
        if max_prp \<le> pa_pg a then a1\<lparr>pa_overflow := True\<rparr>
        else prp_scan pgsize max_prp ebase global_off entry_end (scan + pgsize)
               (a1\<lparr>pa_list := dma_w32 (dma_w32 (pa_list a) (8 * unat (pa_pg a)) page_phys)
                                 (8 * unat (pa_pg a) + 4) 0,
                   pa_pg := pa_pg a + 1\<rparr>)
      else a)"
  by pat_completeness auto

lemma unat_Suc_bounded: "\<not> m \<le> x \<Longrightarrow> unat (x + 1 :: u32) = unat x + 1"
proof -
  assume "\<not> m \<le> x"
  then have "unat x < unat m" by (simp add: word_le_nat_alt)
  then have "unat x + unat (1 :: u32) < 2 ^ LENGTH(32)" using u32_bound [of m] by (simp del: u32_bound)
  from unat_plus_small [OF this] show ?thesis by simp
qed

termination prp_scan
  by (relation "measure (\<lambda>(pgsize, max_prp, ebase, go, ee, scan, a). unat max_prp - unat (pa_pg a))")
     (auto simp: unat_Suc_bounded word_le_nat_alt Let_def)

declare prp_scan.simps [simp del]

text \<open>The outer loop over the scatter-gather list.\<close>

fun prp_walk :: "u32 \<Rightarrow> u32 \<Rightarrow> u32 \<Rightarrow> DMAEntry list \<Rightarrow> u32 \<Rightarrow> prp_acc \<Rightarrow> prp_acc" where
  "prp_walk pgsize max_prp first_page_bytes [] global_off a = a"
| "prp_walk pgsize max_prp first_page_bytes (d # ds) global_off a =
     (let ebase = PhysicalAddress d; elen = BlockLength d; entry_end = global_off + elen in
      if entry_end \<le> first_page_bytes
      then prp_walk pgsize max_prp first_page_bytes ds entry_end a
      else let scan = (if global_off < first_page_bytes then first_page_bytes else global_off);
               a' = prp_scan pgsize max_prp ebase global_off entry_end scan a
           in if pa_overflow a' then a'
              else prp_walk pgsize max_prp first_page_bytes ds entry_end a')"

definition first_page_bytes :: "u32 \<Rightarrow> u32 \<Rightarrow> u32" where
  "first_page_bytes pgsize prp1 =
     (let prp1_offset = prp1 AND (pgsize - 1) in
      if prp1_offset = 0 then pgsize else pgsize - prp1_offset)"

definition direct_prp2 :: "u32 \<Rightarrow> u32 \<Rightarrow> u32 \<Rightarrow> DMAEntry list \<Rightarrow> buf \<Rightarrow> buf \<times> prp2" where
  "direct_prp2 pgsize byte_length prp1 ents b =
     (let fpb = first_page_bytes pgsize prp1; max_prp_entries = pgsize div 8 in
      if byte_length \<le> fpb then (b, PRP2_value 0)
      else let a = prp_walk pgsize max_prp_entries fpb ents 0
                     \<lparr>pa_pg = 0, pa_first = 0, pa_list = b, pa_overflow = False\<rparr>
           in if pa_overflow a then (pa_list a, PRP2_overflow)
              else if pa_pg a = 1 then (pa_list a, PRP2_value (pa_first a))
              else (pa_list a, PRP2_list))"

section \<open>What the controller does with PRP1 and PRP2\<close>

text \<open>
  NVMe 1.4, 4.3: PRP1 covers the bytes up to the end of its page; if the rest fits in one
  page, PRP2 is that page; otherwise PRP2 is the list whose entry \<open>j\<close> is the page of the
  bytes from the \<open>j\<close>-th page boundary on. \<open>prp_locate\<close> gives the physical address of byte \<open>k\<close>.
\<close>

definition prp_page0 :: "nat \<Rightarrow> nat \<Rightarrow> nat" where
  "prp_page0 ps prp1 = ps - prp1 mod ps"

definition prp_entry :: "buf \<Rightarrow> nat \<Rightarrow> nat" where
  "prp_entry b j = unat (dma_r32 b (8 * j)) + 2 ^ 32 * unat (dma_r32 b (8 * j + 4))"

definition prp_locate :: "nat \<Rightarrow> nat \<Rightarrow> u32 \<Rightarrow> prp2 \<Rightarrow> buf \<Rightarrow> nat \<Rightarrow> nat" where
  "prp_locate ps len prp1 p2 b k =
     (let fp = prp_page0 ps (unat prp1) in
      if k < fp then unat prp1 + k
      else let j = (k - fp) div ps; r = (k - fp) mod ps in
        (case p2 of PRP2_value v \<Rightarrow> unat v + (k - fp)
         | PRP2_list \<Rightarrow> prp_entry b j + r
         | PRP2_overflow \<Rightarrow> 0))"

text \<open>
  The controller reads PRP2 as a page exactly when the transfer crosses one page boundary,
  so the driver has to choose between the two forms by that rule.
\<close>

definition prp2_form :: "nat \<Rightarrow> nat \<Rightarrow> u32 \<Rightarrow> prp2 \<Rightarrow> bool" where
  "prp2_form ps len prp1 p2 =
     (case p2 of PRP2_value v \<Rightarrow> len \<le> prp_page0 ps (unat prp1) + ps
      | PRP2_list \<Rightarrow> prp_page0 ps (unat prp1) + ps < len
      | PRP2_overflow \<Rightarrow> False)"

section \<open>The scatter-gather list\<close>

text \<open>\<open>sg_locate\<close>: the physical address of byte \<open>k\<close> of the buffer that the list describes.\<close>

fun sg_locate :: "DMAEntry list \<Rightarrow> nat \<Rightarrow> nat" where
  "sg_locate [] k = 0"
| "sg_locate (d # ds) k =
     (if k < unat (BlockLength d) then unat (PhysicalAddress d) + k
      else sg_locate ds (k - unat (BlockLength d)))"

definition sg_length :: "DMAEntry list \<Rightarrow> nat" where
  "sg_length ds = sum_list (map (\<lambda>d. unat (BlockLength d)) ds)"

text \<open>
  What the code relies on of \<open>GetDMAList\<close>: physically contiguous runs of a virtually
  contiguous buffer, so that a run can start inside a page only at the start of the buffer
  and end inside a page only at its end. \<open>sg_inner\<close> is the rest of such a list.
\<close>

fun sg_inner :: "nat \<Rightarrow> DMAEntry list \<Rightarrow> bool" where
  "sg_inner ps [] = True"
| "sg_inner ps (d # ds) =
     (unat (PhysicalAddress d) mod ps = 0 \<and> unat (PhysicalAddress d) + unat (BlockLength d) \<le> 2 ^ 32
      \<and> (ds \<noteq> [] \<longrightarrow> unat (BlockLength d) mod ps = 0) \<and> sg_inner ps ds)"

fun sg_paged :: "nat \<Rightarrow> DMAEntry list \<Rightarrow> bool" where
  "sg_paged ps [] = False"
| "sg_paged ps (d # ds) =
     (0 < unat (BlockLength d) \<and> unat (PhysicalAddress d) + unat (BlockLength d) \<le> 2 ^ 32
      \<and> (ds \<noteq> [] \<longrightarrow> (unat (PhysicalAddress d) + unat (BlockLength d)) mod ps = 0) \<and> sg_inner ps ds)"

section \<open>Memory safety of the list builders\<close>

lemma bounce_fill_outside: "8 * (p + n) \<le> k \<Longrightarrow> bounce_fill n pgsize prp1 p b k = b k"
  by (induction n arbitrary: p b) (simp_all add: Let_def dma_w32_other)

lemma unat_div8: "8 * unat (x div 8 :: u32) \<le> unat x"
  by (simp add: unat_div)

lemma bounce_prp2_outside: "unat pgsize \<le> k \<Longrightarrow> fst (bounce_prp2 pgsize len prp1 b) k = b k"
proof -
  assume k: "unat pgsize \<le> k"
  have "8 * (0 + unat n) \<le> k" if "\<not> pgsize div 8 < n" for n
    using that k unat_div8 [of pgsize] by (simp add: word_less_nat_alt not_less)
  then show ?thesis
    by (auto simp: bounce_prp2_def Let_def intro: bounce_fill_outside)
qed

lemma prp_scan_outside:
  "8 * unat max_prp \<le> k \<Longrightarrow> pa_list (prp_scan pgsize max_prp eb go ee scan a) k = pa_list a k"
proof (induction pgsize max_prp eb go ee scan a rule: prp_scan.induct)
  case (1 pgsize max_prp eb go ee scan a)
  show ?case
  proof (cases "scan < ee \<and> \<not> max_prp \<le> pa_pg a")
    case True
    then have s: "8 * unat (pa_pg a) + 8 \<le> k" using "1.prems" by (simp add: word_le_nat_alt)
    have w: "dma_w32 (dma_w32 l (8 * unat (pa_pg a)) v) (8 * unat (pa_pg a) + 4) 0 k = l k" for l v
      using s by (simp add: dma_w32_other)
    from True show ?thesis
      unfolding prp_scan.simps [of pgsize max_prp eb go ee scan a] Let_def
      by (simp add: "1.IH" [OF _ refl refl _ "1.prems"] w del: if_split) 
  qed (auto simp: prp_scan.simps [of pgsize max_prp eb go ee scan a] Let_def)
qed

lemma prp_walk_outside:
  "8 * unat max_prp \<le> k \<Longrightarrow> pa_list (prp_walk pgsize max_prp fpb ds go a) k = pa_list a k"
  by (induction ds arbitrary: go a) (simp_all add: Let_def prp_scan_outside)

lemma direct_prp2_outside: "unat pgsize \<le> k \<Longrightarrow> fst (direct_prp2 pgsize len prp1 ds b) k = b k"
proof -
  assume "unat pgsize \<le> k"
  then have "8 * unat (pgsize div 8) \<le> k" using unat_div8 [of pgsize] by linarith
  then show ?thesis by (simp add: direct_prp2_def Let_def prp_walk_outside)
qed

section \<open>The emitted list\<close>

text \<open>
  \<open>prp_good ps fp F n a\<close>: the accumulator holds exactly the first \<open>n\<close> page addresses of the
  buffer whose byte \<open>k\<close> is at \<open>F k\<close>, the pages after PRP1 starting at the byte offsets
  \<open>fp, fp + ps, ...\<close>
\<close>

definition prp_good :: "nat \<Rightarrow> nat \<Rightarrow> (nat \<Rightarrow> nat) \<Rightarrow> nat \<Rightarrow> prp_acc \<Rightarrow> bool" where
  "prp_good ps fp F n a \<longleftrightarrow>
     unat (pa_pg a) = n \<and> \<not> pa_overflow a \<and> (0 < n \<longrightarrow> pa_first a = of_nat (F fp)) \<and>
     (\<forall>j<n. dma_r32 (pa_list a) (8 * j) = of_nat (F (fp + j * ps)) \<and> dma_r32 (pa_list a) (8 * j + 4) = 0)"

lemma prp_good_step:
  assumes "prp_good ps fp F n a" and "pp = of_nat (F (fp + n * ps))" and "n < unat (m :: u32)"
  shows "prp_good ps fp F (Suc n)
     ((if pa_pg a = 0 then a\<lparr>pa_first := pp\<rparr> else a)
        \<lparr>pa_list := dma_w32 (dma_w32 (pa_list a) (8 * unat (pa_pg a)) pp) (8 * unat (pa_pg a) + 4) 0,
         pa_pg := pa_pg a + 1\<rparr>)"
proof -
  have n: "unat (pa_pg a) = n" using assms(1) by (simp add: prp_good_def)
  have "\<not> m \<le> pa_pg a" using n assms(3) by (simp add: word_le_nat_alt)
  then have "unat (pa_pg a + 1) = Suc n" using n unat_Suc_bounded [of m "pa_pg a"] by simp
  moreover have "pa_pg a = 0 \<longleftrightarrow> n = 0" using n by (metis unat_0 unsigned_eq_0_iff)
  moreover have "dma_r32 (dma_w32 (dma_w32 l (8 * n) pp) (8 * n + 4) 0) (8 * j) =
        (if j = n then pp else dma_r32 l (8 * j))"
      "dma_r32 (dma_w32 (dma_w32 l (8 * n) pp) (8 * n + 4) 0) (8 * j + 4) =
        (if j = n then 0 else dma_r32 l (8 * j + 4))" if "j \<le> n" for j l
    using that by (auto simp: dma_r32_w32_other)
  ultimately show ?thesis
    using assms(1,2) n unfolding prp_good_def by (auto simp: less_Suc_eq_le)
qed

lemma prp_scan_good:
  assumes "prp_good ps fp F n a" and "unat scan = fp + n * ps" and "unat pgsize = ps" and "0 < ps"
    and "unat go \<le> unat scan" and "\<forall>j<n. fp + j * ps < unat ee"
    and "\<forall>x. unat scan \<le> x \<and> x < unat ee \<longrightarrow> F x = unat eb + (x - unat go)"
    and "unat ee + ps \<le> 2 ^ 32" and "\<forall>j. fp + j * ps < unat ee \<longrightarrow> j < unat max_prp"
  shows "\<exists>n'. prp_good ps fp F n' (prp_scan pgsize max_prp eb go ee scan a) \<and>
           (\<forall>j. j < n' \<longleftrightarrow> fp + j * ps < unat ee)"
  using assms
proof (induction pgsize max_prp eb go ee scan a arbitrary: n rule: prp_scan.induct)
  case (1 pgsize max_prp eb go ee scan a)
  note prems = "1.prems"
  show ?case
  proof (cases "scan < ee")
    case False
    then have le: "unat ee \<le> fp + n * ps" using prems(2) by (simp add: word_less_nat_alt)
    have "j < n" if j: "fp + j * ps < unat ee" for j
    proof -
      have "j * ps < n * ps" using j le by linarith
      then show "j < n" by simp
    qed
    then have "\<forall>j. j < n \<longleftrightarrow> fp + j * ps < unat ee" using prems(6) by blast
    with False prems(1) show ?thesis by (auto simp: prp_scan.simps [of pgsize])
  next
    case True
    then have lt: "fp + n * ps < unat ee" using prems(2) by (simp add: word_less_nat_alt)
    then have nm: "n < unat max_prp" using prems(9) by blast
    have n: "unat (pa_pg a) = n" using prems(1) by (simp add: prp_good_def)
    have guard: "\<not> max_prp \<le> pa_pg a" using n nm by (simp add: word_le_nat_alt)
    have sub: "unat (scan - go) = unat scan - unat go"
      using prems(5) by (simp add: unat_sub word_le_nat_alt)
    have pp: "eb + (scan - go) = of_nat (F (fp + n * ps))"
    proof -
      have "F (fp + n * ps) = unat eb + unat (scan - go)"
        using prems(7) [rule_format, of "fp + n * ps"] lt prems(2) sub by simp
      then show ?thesis by simp
    qed
    have adv: "unat (scan + pgsize) = fp + Suc n * ps"
    proof -
      have "unat scan + unat pgsize < 2 ^ LENGTH(32)" using lt prems(2,3,8) by simp
      then show ?thesis using unat_plus_small [of scan pgsize] prems(2,3) by simp
    qed
    define a' where "a' = (if pa_pg a = 0 then a\<lparr>pa_first := eb + (scan - go)\<rparr> else a)
        \<lparr>pa_list := dma_w32 (dma_w32 (pa_list a) (8 * unat (pa_pg a)) (eb + (scan - go)))
            (8 * unat (pa_pg a) + 4) 0, pa_pg := pa_pg a + 1\<rparr>"
    have g: "prp_good ps fp F (Suc n) a'"
      unfolding a'_def by (rule prp_good_step [OF prems(1) pp nm])
    have "\<exists>n'. prp_good ps fp F n' (prp_scan pgsize max_prp eb go ee (scan + pgsize) a') \<and>
        (\<forall>j. j < n' \<longleftrightarrow> fp + j * ps < unat ee)"
      unfolding a'_def
    proof (rule "1.IH" [OF True refl refl guard _ adv prems(3,4)])
      show "prp_good ps fp F (Suc n) ((if pa_pg a = 0 then a\<lparr>pa_first := eb + (scan - go)\<rparr> else a)
        \<lparr>pa_list := dma_w32 (dma_w32 (pa_list a) (8 * unat (pa_pg a)) (eb + (scan - go)))
            (8 * unat (pa_pg a) + 4) 0, pa_pg := pa_pg a + 1\<rparr>)"
        using g by (simp add: a'_def)
      show "unat go \<le> unat (scan + pgsize)" using adv prems(2,5) by simp
      show "\<forall>j<Suc n. fp + j * ps < unat ee" using prems(6) lt by (auto simp: less_Suc_eq)
      show "\<forall>x. unat (scan + pgsize) \<le> x \<and> x < unat ee \<longrightarrow> F x = unat eb + (x - unat go)"
        using prems(2,7) adv by auto
    qed (use prems(8,9) in auto)
    then show ?thesis
      using True guard by (simp add: prp_scan.simps [of pgsize max_prp eb go ee scan a] Let_def a'_def)
  qed
qed

section \<open>The whole walk\<close>

lemma sg_length_Cons [simp]: "sg_length (d # ds) = unat (BlockLength d) + sg_length ds"
  and sg_length_Nil [simp]: "sg_length [] = 0"
  by (simp_all add: sg_length_def)

lemma steps_unique:
  "0 < ps \<Longrightarrow> \<forall>j. j < n' \<longleftrightarrow> fp + j * ps < fp + (m :: nat) * ps \<Longrightarrow> n' = m"
  by (metis add_less_cancel_left linorder_neqE_nat mult_less_cancel2 less_irrefl)

text \<open>Past the first run, every run starts at a page boundary.\<close>

lemma prp_walk_inner:
  assumes "prp_good ps fp F n a" and "unat go = fp + n * ps" and "unat pgsize = ps" and "0 < ps"
    and "unat fpb = fp" and "sg_inner ps ds" and "unat go + sg_length ds + ps \<le> 2 ^ 32"
    and "\<forall>k < sg_length ds. F (unat go + k) = sg_locate ds k"
    and "\<forall>j. fp + j * ps < unat go + sg_length ds \<longrightarrow> j < unat max_prp"
  shows "\<exists>n'. prp_good ps fp F n' (prp_walk pgsize max_prp fpb ds go a) \<and>
           (\<forall>j. j < n' \<longleftrightarrow> fp + j * ps < unat go + sg_length ds)"
  using assms
proof (induction ds arbitrary: n a go)
  case Nil
  then show ?case by auto
next
  case (Cons d ds)
  note prems = Cons.prems
  let ?len = "unat (BlockLength d)" and ?ee = "go + BlockLength d"
  have ee: "unat ?ee = unat go + ?len"
    using prems(7) prems(4) by (intro unat_plus_small) simp
  have rest: "F (unat ?ee + k) = sg_locate ds k" if "k < sg_length ds" for k
    using prems(8) [rule_format, of "?len + k"] that ee by (simp add: add.assoc)
  have "\<exists>n'. prp_good ps fp F n' (prp_walk pgsize max_prp fpb ds ?ee a') \<and>
          (\<forall>j. j < n' \<longleftrightarrow> fp + j * ps < unat ?ee + sg_length ds)"
    if a': "prp_good ps fp F n' a'" and m: "ds \<noteq> [] \<longrightarrow> unat ?ee = fp + n' * ps"
      and l: "ds = [] \<longrightarrow> (\<forall>j. j < n' \<longleftrightarrow> fp + j * ps < unat ?ee)" for n' a'
  proof (cases "ds = []")
    case True
    with a' l show ?thesis by auto
  next
    case False
    then show ?thesis
      using Cons.IH [OF a' _ prems(3,4,5)] m prems(6,7,9) rest ee by (simp add: add.assoc)
  qed
  note go_on = this
  show ?case
  proof (cases "?ee \<le> fpb")
    case True
    then have z: "n * ps = 0" "?len = 0" using ee prems(2,5) by (simp_all add: word_le_nat_alt)
    then have "n = 0" using prems(4) by simp
    with go_on [OF prems(1)] True z ee prems(2) show ?thesis by (simp add: Let_def)
  next
    case False
    have ge: "\<not> go < fpb" using prems(2,5) by (simp add: word_less_nat_alt)
    have "\<exists>n'. prp_good ps fp F n' (prp_scan pgsize max_prp (PhysicalAddress d) go ?ee go a) \<and>
           (\<forall>j. j < n' \<longleftrightarrow> fp + j * ps < unat ?ee)"
    proof (cases "\<forall>j<n. fp + j * ps < unat ?ee")
      case True
      show ?thesis
      proof (rule prp_scan_good [OF prems(1,2,3,4) order_refl True])
        show "\<forall>x. unat go \<le> x \<and> x < unat ?ee \<longrightarrow> F x = unat (PhysicalAddress d) + (x - unat go)"
          using prems(8) ee by (auto simp: le_iff_add)
      qed (use prems(7,9) ee in auto)
    next
      case False
      then obtain j where j: "j < n" "\<not> fp + j * ps < unat ?ee" by blast
      then have "j * ps < n * ps" using prems(4) by simp
      with j ee prems(2) show ?thesis by linarith
    qed
    then obtain n' where n': "prp_good ps fp F n' (prp_scan pgsize max_prp (PhysicalAddress d) go ?ee go a)"
      "\<forall>j. j < n' \<longleftrightarrow> fp + j * ps < unat ?ee" by blast
    have "unat ?ee = fp + n' * ps" if "ds \<noteq> []"
    proof -
      have "ps dvd ?len" using prems(6) that by (simp add: dvd_eq_mod_eq_0)
      then obtain q where q: "?len = q * ps" by (metis dvdE mult.commute)
      then have e: "unat ?ee = fp + (n + q) * ps" using ee prems(2) by (simp add: algebra_simps)
      then have "n' = n + q" using n'(2) prems(4) by (intro steps_unique [of ps n' fp]) auto
      with e show ?thesis by simp
    qed
    with go_on [OF n'(1)] n' False ge ee show ?thesis by (simp add: Let_def prp_good_def add.assoc)
  qed
qed

lemma page_end: "(a + len) mod ps = 0 \<Longrightarrow> 0 < len \<Longrightarrow> 0 < ps \<Longrightarrow> \<exists>m. len = (ps - a mod ps) + m * (ps :: nat)"
proof -
  assume a: "(a + len) mod ps = 0" "0 < len" "0 < ps"
  then obtain q where q: "a + len = q * ps" by auto
  define r where "r = a mod ps"
  have ar: "a = (a div ps) * ps + r" and "r < ps" using a(3) by (simp_all add: r_def)
  then have "(a div ps) * ps < q * ps" using q a(2) by linarith
  then have "a div ps < q" by simp
  then obtain m where "q = a div ps + Suc m" using less_iff_Suc_add by auto
  then have "len = (ps - r) + m * ps" using q ar \<open>r < ps\<close> by (simp add: algebra_simps)
  then show ?thesis by (auto simp: r_def)
qed

lemma prp_walk_good:
  assumes "sg_paged ps ds" and "unat pgsize = ps" and "0 < ps"
    and "unat fpb = fp" and fp: "fp = prp_page0 ps (unat (PhysicalAddress (hd ds)))"
    and "sg_length ds + ps \<le> 2 ^ 32"
    and "\<forall>j. fp + j * ps < sg_length ds \<longrightarrow> j < unat max_prp"
    and a: "prp_good ps fp (sg_locate ds) 0 a"
  shows "\<exists>n'. prp_good ps fp (sg_locate ds) n' (prp_walk pgsize max_prp fpb ds 0 a) \<and>
           (\<forall>j. j < n' \<longleftrightarrow> fp + j * ps < sg_length ds)"
proof (cases ds)
  case Nil
  then show ?thesis using assms(1) by simp
next
  case (Cons d es)
  let ?len = "unat (BlockLength d)" and ?F = "sg_locate ds"
  have fpos: "0 < fp" using fp assms(3) by (simp add: prp_page0_def)
  have inner: "sg_inner ps es" and len: "0 < ?len" using assms(1) Cons by simp_all
  have rest: "?F (?len + k) = sg_locate es k" for k by (simp add: Cons)
  have ends: "\<exists>m. ?len = fp + m * ps" if "es \<noteq> []"
  proof -
    have "(unat (PhysicalAddress d) + ?len) mod ps = 0" using assms(1) Cons that by simp
    from page_end [OF this len assms(3)] show ?thesis using fp Cons by (simp only: prp_page0_def list.sel)
  qed
  have go_on: "\<exists>n'. prp_good ps fp ?F n' (prp_walk pgsize max_prp fpb es (BlockLength d) a') \<and>
          (\<forall>j. j < n' \<longleftrightarrow> fp + j * ps < ?len + sg_length es)"
    if a': "prp_good ps fp ?F n' a'" and m: "es \<noteq> [] \<longrightarrow> ?len = fp + n' * ps"
      and l: "es = [] \<longrightarrow> (\<forall>j. j < n' \<longleftrightarrow> fp + j * ps < ?len)" for n' a'
  proof (cases "es = []")
    case True
    with a' l show ?thesis by auto
  next
    case False
    then show ?thesis
      using prp_walk_inner [OF a' _ assms(2,3,4) inner, of "BlockLength d" max_prp] m assms(6,7) rest Cons
      by simp
  qed
  show ?thesis
  proof (cases "BlockLength d \<le> fpb")
    case True
    then have le: "?len \<le> fp" using assms(4) by (simp add: word_le_nat_alt)
    then have "es \<noteq> [] \<longrightarrow> ?len = fp + 0 * ps" using ends by auto
    with go_on [OF a] True le Cons show ?thesis by (simp add: Let_def)
  next
    case False
    then have lt: "fp < ?len" using assms(4) by (simp add: word_le_nat_alt)
    have go: "0 < fpb" using fpos assms(4) by (simp add: word_less_nat_alt)
    have "\<exists>n'. prp_good ps fp ?F n' (prp_scan pgsize max_prp (PhysicalAddress d) 0 (BlockLength d) fpb a) \<and>
           (\<forall>j. j < n' \<longleftrightarrow> fp + j * ps < ?len)"
      by (rule prp_scan_good [OF a]) (use assms Cons in auto)
    then obtain n' where n': "prp_good ps fp ?F n' (prp_scan pgsize max_prp (PhysicalAddress d) 0 (BlockLength d) fpb a)"
      "\<forall>j. j < n' \<longleftrightarrow> fp + j * ps < ?len" by blast
    have "?len = fp + n' * ps" if e: "es \<noteq> []"
    proof -
      obtain q where q: "?len = fp + q * ps" using ends [OF e] by blast
      then have "n' = q" using n'(2) assms(3) by (intro steps_unique [of ps n' fp]) auto
      with q show ?thesis by simp
    qed
    with go_on [OF n'(1)] n' False go Cons show ?thesis by (simp add: Let_def prp_good_def)
  qed
qed

section \<open>Refinement of the addressing rule\<close>

text \<open>The bytes of one page of the buffer are physically contiguous.\<close>

lemma sg_page_inner:
  "\<lbrakk>sg_inner ps ds; j * ps + r < sg_length ds; r < ps\<rbrakk> \<Longrightarrow> sg_locate ds (j * ps + r) = sg_locate ds (j * ps) + r"
proof (induction ds arbitrary: j)
  case (Cons d ds)
  let ?len = "unat (BlockLength d)"
  show ?case
  proof (cases "j * ps + r < ?len")
    case False
    then have "ds \<noteq> []" using Cons.prems(2) by auto
    then have "ps dvd ?len" using Cons.prems(1) by (simp add: dvd_eq_mod_eq_0)
    then obtain q where q: "?len = q * ps" by (metis dvdE mult.commute)
    have "\<not> j < q"
    proof
      assume "j < q"
      then have "Suc j * ps \<le> q * ps" by (intro mult_le_mono1) simp
      with False q Cons.prems(3) show False by simp
    qed
    then obtain i where i: "j = q + i" using le_Suc_ex not_less by blast
    have "sg_locate ds (i * ps + r) = sg_locate ds (i * ps) + r"
      using Cons.prems q i by (intro Cons.IH) (auto simp: algebra_simps)
    then show ?thesis using q i Cons.prems(3) by (simp add: algebra_simps)
  qed simp
qed simp

lemma sg_page_paged:
  assumes "sg_paged ps ds" and "0 < ps" and fp: "fp = prp_page0 ps (unat (PhysicalAddress (hd ds)))"
    and "fp + j * ps + r < sg_length ds" and "r < ps"
  shows "sg_locate ds (fp + j * ps + r) = sg_locate ds (fp + j * ps) + r"
proof (cases ds)
  case (Cons d es)
  let ?len = "unat (BlockLength d)"
  show ?thesis
  proof (cases "fp + j * ps + r < ?len")
    case False
    then have ne: "es \<noteq> []" using assms(4) Cons by auto
    have "(unat (PhysicalAddress d) + ?len) mod ps = 0" "0 < ?len" using assms(1) Cons ne by simp_all
    from page_end [OF this assms(2)] obtain q where q: "?len = fp + q * ps"
      using fp Cons by (auto simp only: prp_page0_def list.sel)
    have "\<not> j < q"
    proof
      assume "j < q"
      then have "Suc j * ps \<le> q * ps" by (intro mult_le_mono1) simp
      with False q assms(5) show False by simp
    qed
    then obtain i where i: "j = q + i" using le_Suc_ex not_less by blast
    have "sg_locate es (i * ps + r) = sg_locate es (i * ps) + r"
      using assms(1,4,5) Cons q i by (intro sg_page_inner) (auto simp: algebra_simps)
    then show ?thesis using q i Cons assms(5) by (simp add: algebra_simps)
  qed (simp add: Cons)
qed (use assms(1) in simp)

lemma sg_bound_inner: "\<lbrakk>sg_inner ps ds; k < sg_length ds\<rbrakk> \<Longrightarrow> sg_locate ds k < 4294967296"
  by (induction ds arbitrary: k) auto

lemma sg_bound: "\<lbrakk>sg_paged ps ds; k < sg_length ds\<rbrakk> \<Longrightarrow> sg_locate ds k < 4294967296"
  by (cases ds) (auto intro: sg_bound_inner)

lemma sg_locate_first: "sg_paged ps ds \<Longrightarrow> k < unat (BlockLength (hd ds)) \<Longrightarrow>
    sg_locate ds k = unat (PhysicalAddress (hd ds)) + k"
  by (cases ds) auto

lemma unat_and_pow2: "unat ps = 2 ^ p \<Longrightarrow> p < 32 \<Longrightarrow> unat (x AND (ps - 1) :: u32) = unat x mod 2 ^ p"
proof -
  assume p: "unat ps = 2 ^ p" "p < 32"
  have "ps = of_nat (unat ps)" by simp
  then have "ps = 2 ^ p" using p by simp
  then have "x AND (ps - 1) = take_bit p x" by (simp add: take_bit_eq_mask mask_eq_exp_minus_1)
  then have "unat (x AND (ps - 1)) = take_bit p (unat x)" by (simp only: unsigned_take_bit_eq)
  then show ?thesis by (simp only: take_bit_eq_mod)
qed

lemma unat_first_page_bytes:
  assumes "unat ps = 2 ^ p" and "p < 32"
  shows "unat (first_page_bytes ps prp1) = prp_page0 (2 ^ p) (unat prp1)"
proof -
  have o: "unat (prp1 AND (ps - 1)) = unat prp1 mod 2 ^ p" by (rule unat_and_pow2 [OF assms])
  then have "prp1 AND (ps - 1) \<le> ps" using assms(1) by (simp add: word_le_nat_alt less_imp_le)
  then have "unat (ps - (prp1 AND (ps - 1))) = 2 ^ p - unat prp1 mod 2 ^ p"
    using o assms(1) by (simp add: unat_sub)
  moreover have "prp1 AND (ps - 1) = 0 \<longleftrightarrow> unat prp1 mod 2 ^ p = 0"
    using o by (metis unat_0 unsigned_eq_0_iff)
  ultimately show ?thesis using assms(1) by (auto simp: first_page_bytes_def Let_def prp_page0_def)
qed

lemma prp_good_locate:
  assumes g: "prp_good ps fp (sg_locate ds) n a" and n: "\<forall>j. j < n \<longleftrightarrow> fp + j * ps < sg_length ds"
    and p: "sg_paged ps ds" "0 < ps" and fp: "fp = prp_page0 ps (unat (PhysicalAddress (hd ds)))"
    and p2: "p2 = (if pa_pg a = 1 then PRP2_value (pa_first a) else PRP2_list)"
    and k: "k < sg_length ds" and long: "fp < sg_length ds"
  shows "prp_locate ps len (PhysicalAddress (hd ds)) p2 (pa_list a) k = sg_locate ds k"
proof (cases "k < fp")
  case True
  show ?thesis
  proof (cases "k < unat (BlockLength (hd ds))")
    case True
    with \<open>k < fp\<close> p fp show ?thesis by (simp add: prp_locate_def Let_def sg_locate_first)
  next
    case False
    obtain d es where ds: "ds = d # es" using p(1) by (cases ds) auto
    then have "es \<noteq> []" using False k by auto
    then have "(unat (PhysicalAddress d) + unat (BlockLength d)) mod ps = 0" "0 < unat (BlockLength d)"
      using p(1) ds by simp_all
    from page_end [OF this p(2)] obtain q where "unat (BlockLength d) = fp + q * ps"
      using fp ds by (auto simp only: prp_page0_def list.sel)
    with True False ds show ?thesis by simp
  qed
next
  case False
  define j r where "j = (k - fp) div ps" and "r = (k - fp) mod ps"
  have k': "k = fp + j * ps + r" "r < ps"
    using False p(2) by (simp_all add: j_def r_def)
  then have j: "j < n" using k n by simp
  have loc: "sg_locate ds k = sg_locate ds (fp + j * ps) + r"
    using sg_page_paged [OF p fp, of j r] k k' by simp
  have b: "unat (of_nat (sg_locate ds (fp + j * ps)) :: u32) = sg_locate ds (fp + j * ps)"
    using sg_bound [OF p(1), of "fp + j * ps"] k k'(1) by (intro unat_of_nat_small) simp
  show ?thesis
  proof (cases "pa_pg a = 1")
    case True
    then have "n = 1" using g by (simp add: prp_good_def)
    with j have "j = 0" by simp
    moreover have "pa_first a = of_nat (sg_locate ds fp)" using g \<open>n = 1\<close> by (simp add: prp_good_def)
    ultimately show ?thesis using False True p2 fp k'(1) loc b by (simp add: prp_locate_def Let_def)
  next
    case False2: False
    have e: "prp_entry (pa_list a) j = sg_locate ds (fp + j * ps)"
      using g j b by (simp add: prp_good_def prp_entry_def)
    have "prp_locate ps len (PhysicalAddress (hd ds)) p2 (pa_list a) k = prp_entry (pa_list a) j + r"
      using False False2 p2 fp by (simp add: prp_locate_def Let_def j_def r_def)
    with e loc show ?thesis by simp
  qed
qed

lemma direct_prp2_refines:
  assumes ps: "unat pgsize = 2 ^ p" "p < 32" and sg: "sg_paged (2 ^ p) ds"
    and prp1: "prp1 = PhysicalAddress (hd ds)" and len: "sg_length ds = unat len"
    and bnd: "unat len + 2 ^ p \<le> 2 ^ 32" and cap: "unat len \<le> 2 ^ p * unat (pgsize div 8)"
    and res: "direct_prp2 pgsize len prp1 ds b = (b', p2)"
  shows "prp2_form (2 ^ p) (unat len) prp1 p2 \<and>
         (\<forall>k < unat len. prp_locate (2 ^ p) (unat len) prp1 p2 b' k = sg_locate ds k)"
proof -
  let ?ps = "2 ^ p :: nat"
  define fp where "fp = prp_page0 ?ps (unat prp1)"
  have fpb: "unat (first_page_bytes pgsize prp1) = fp"
    unfolding fp_def by (rule unat_first_page_bytes [OF ps])
  have fp: "fp = prp_page0 ?ps (unat (PhysicalAddress (hd ds)))" using prp1 by (simp add: fp_def)
  let ?a0 = "\<lparr>pa_pg = 0, pa_first = 0, pa_list = b, pa_overflow = False\<rparr>"
  define a where "a = prp_walk pgsize (pgsize div 8) (first_page_bytes pgsize prp1) ds 0 ?a0"
  have "0 < fp" by (simp add: fp_def prp_page0_def)
  have max: "\<forall>j. fp + j * ?ps < sg_length ds \<longrightarrow> j < unat (pgsize div 8)"
  proof (intro allI impI)
    fix j assume "fp + j * ?ps < sg_length ds"
    then have "?ps * j < ?ps * unat (pgsize div 8)" using cap len mult.commute [of j ?ps] by linarith
    then show "j < unat (pgsize div 8)" by simp
  qed
  have "prp_good ?ps fp (sg_locate ds) 0 ?a0" by (simp add: prp_good_def)
  with prp_walk_good [OF sg ps(1) _ fpb fp _ max, of ?a0] bnd len
  obtain n where n: "prp_good ?ps fp (sg_locate ds) n a" "\<forall>j. j < n \<longleftrightarrow> fp + j * ?ps < sg_length ds"
    by (auto simp: a_def)
  show ?thesis
  proof (cases "len \<le> first_page_bytes pgsize prp1")
    case True
    then have le: "unat len \<le> fp" using fpb by (simp add: word_le_nat_alt)
    have out: "p2 = PRP2_value 0" using res True by (simp add: direct_prp2_def Let_def)
    have "k < unat (BlockLength (hd ds))" if k: "k < unat len" for k
    proof (rule ccontr)
      assume nk: "\<not> k < unat (BlockLength (hd ds))"
      obtain d es where ds: "ds = d # es" using sg by (cases ds) auto
      then have "es \<noteq> []" using nk k len by auto
      then have "(unat (PhysicalAddress d) + unat (BlockLength d)) mod ?ps = 0" "0 < unat (BlockLength d)"
        using sg ds by simp_all
      from page_end [OF this] obtain q where "unat (BlockLength d) = fp + q * ?ps"
        using fp ds by (auto simp only: prp_page0_def list.sel zero_less_power zero_less_numeral)
      then show False using nk k le ds by simp
    qed
    with le out sg prp1 show ?thesis
      by (auto simp: prp2_form_def prp_locate_def Let_def fp [symmetric] sg_locate_first)
  next
    case False
    then have lt: "fp < sg_length ds" using fpb len by (simp add: word_le_nat_alt)
    have ov: "\<not> pa_overflow a" using n(1) by (simp add: prp_good_def)
    have out: "b' = pa_list a" "p2 = (if pa_pg a = 1 then PRP2_value (pa_first a) else PRP2_list)"
      using res False ov by (auto simp: direct_prp2_def Let_def a_def [symmetric] split: if_splits)
    have pg: "pa_pg a = 1 \<longleftrightarrow> n = 1"
      using n(1) by (metis prp_good_def unsigned_1 word_unat_eq_iff)
    have "0 < n" using n(2) lt by simp
    then have "n = 1 \<longleftrightarrow> \<not> fp + 1 * ?ps < sg_length ds" using n(2) [rule_format, of 1] by auto
    then have "prp2_form ?ps (unat len) prp1 p2"
      using out(2) pg len by (auto simp: prp2_form_def fp_def [symmetric])
    with prp_good_locate [OF n sg _ fp out(2) _ lt] len prp1 out(1) show ?thesis by simp
  qed
qed

section \<open>The bounce path\<close>

lemma bounce_fill_entries:
  "\<lbrakk>p \<le> j; j < p + n\<rbrakk> \<Longrightarrow>
     dma_r32 (bounce_fill n pgsize prp1 p b) (8 * j) = prp1 + (of_nat j + 1) * pgsize \<and>
     dma_r32 (bounce_fill n pgsize prp1 p b) (8 * j + 4) = 0"
proof (induction n arbitrary: p b)
  case (Suc n)
  have keep: "dma_r32 (bounce_fill n pgsize prp1 q c) i = dma_r32 c i" if "i + 4 \<le> 8 * q" for n q c i
    using that by (induction n arbitrary: q c) (auto simp: Let_def dma_r32_w32_other)
  show ?case
  proof (cases "p = j")
    case True
    then show ?thesis by (simp add: Let_def keep dma_r32_w32_other)
  next
    case False
    with Suc.IH [of "Suc p"] Suc.prems show ?thesis by (simp add: Let_def)
  qed
qed simp

lemma direct_prp2_pages:
  fixes pgsize :: u32
  assumes "unat pgsize = 2 ^ p" and "12 \<le> p" and "p \<le> 27" and "n \<le> 2 ^ 21"
  shows "n \<le> 2 ^ p * unat (pgsize div 8)" and "n + 2 ^ p \<le> 2 ^ 32"
proof -
  obtain q where q: "p = q + 12" using assms(2) le_Suc_ex by (metis add.commute)
  have d: "unat (pgsize div 8) = 2 ^ p div 8" using assms(1) by (simp add: unat_div)
  have "2 ^ p div 8 = (2 :: nat) ^ (q + 9)"
    by (simp add: q power_add)
  then have "2 ^ p * unat (pgsize div 8) = (2 :: nat) ^ ((q + 12) + (q + 9))"
    using d q by (simp only: power_add)
  also have "(q + 12) + (q + 9) = 2 * q + 21" by simp
  finally have "2 ^ p * unat (pgsize div 8) = (2 :: nat) ^ (2 * q + 21)" .
  moreover have "(2 :: nat) ^ 21 \<le> 2 ^ (2 * q + 21)" by (rule power_increasing) auto
  ultimately show "n \<le> 2 ^ p * unat (pgsize div 8)" using assms(4) by linarith
  have "(2 :: nat) ^ p \<le> 2 ^ 27" using assms(3) by (intro power_increasing) auto
  then show "n + 2 ^ p \<le> 2 ^ 32" using assms(4) by simp
qed

lemma bounce_prp2_refines:
  assumes ps: "unat pgsize = 2 ^ p" "12 \<le> p" "p \<le> 27" and al: "unat prp1 mod 2 ^ p = 0"
    and room: "unat prp1 + unat len \<le> 2 ^ 32" and len: "unat len \<le> 2 ^ 16"
    and res: "bounce_prp2 pgsize len prp1 b = (b', p2)"
  shows "prp2_form (2 ^ p) (unat len) prp1 p2 \<and>
         (\<forall>k < unat len. prp_locate (2 ^ p) (unat len) prp1 p2 b' k = unat prp1 + k)"
proof -
  let ?ps = "2 ^ p :: nat"
  have fp: "prp_page0 ?ps (unat prp1) = ?ps" using al by (simp add: prp_page0_def)
  have small: "unat len + ?ps \<le> 2 ^ 28"
  proof -
    have "?ps \<le> 2 ^ 27" using ps(3) by (intro power_increasing) auto
    then show ?thesis using len by simp
  qed
  have two: "unat (2 * pgsize) = 2 * ?ps"
    using unat_times_small [of 2 pgsize] ps(1) small by simp
  show ?thesis
  proof (cases "len \<le> 2 * pgsize")
    case True
    then have le: "unat len \<le> 2 * ?ps" using two by (simp add: word_le_nat_alt)
    have one: "len \<le> pgsize \<longleftrightarrow> unat len \<le> ?ps" using ps(1) by (simp add: word_le_nat_alt)
    have sum: "unat (prp1 + pgsize) = unat prp1 + ?ps" if "\<not> unat len \<le> ?ps"
      using unat_plus_small [of prp1 pgsize] ps(1) room that by simp
    have p2: "p2 = PRP2_value (if unat len \<le> ?ps then 0 else prp1 + pgsize)"
      using res True one by (auto simp: bounce_prp2_def Let_def split: if_splits)
    show ?thesis
    proof (cases "unat len \<le> ?ps")
      case True
      then show ?thesis using p2 fp le by (auto simp: prp2_form_def prp_locate_def Let_def)
    next
      case False
      then show ?thesis using p2 fp le sum by (auto simp: prp2_form_def prp_locate_def Let_def)
    qed
  next
    case False
    then have gt: "2 * ?ps < unat len" using two by (simp add: word_le_nat_alt not_le)
    define ex where "ex = (len + pgsize - 1) div pgsize - 1"
    have e1: "unat (len + pgsize - 1) = unat len + ?ps - 1"
    proof -
      have s: "unat (len + pgsize) = unat len + ?ps" using unat_plus_small [of len pgsize] ps(1) small by simp
      then have "1 \<le> len + pgsize" using gt by (simp add: word_le_nat_alt)
      with s show ?thesis by (simp add: unat_sub)
    qed
    have e2: "unat ((len + pgsize - 1) div pgsize) = (unat len + ?ps - 1) div ?ps"
      using e1 ps(1) by (simp add: unat_div)
    have ge: "1 \<le> (unat len + ?ps - 1) div ?ps"
      using gt div_le_mono [of ?ps "unat len + ?ps - 1" ?ps] by simp
    then have ex: "unat ex = (unat len + ?ps - 1) div ?ps - 1"
      using e2 unfolding ex_def by (simp add: unat_sub word_le_nat_alt)
    have page: "j < unat ex" if "?ps + j * ?ps < unat len" for j
    proof -
      have "Suc (Suc j) * ?ps \<le> unat len + ?ps - 1" using that by simp
      then have "Suc (Suc j) \<le> (unat len + ?ps - 1) div ?ps"
        by (simp add: less_eq_div_iff_mult_less_eq)
      then show ?thesis using ex by simp
    qed
    have nov: "\<not> pgsize div 8 < ex"
    proof -
      have "unat len \<le> 2 ^ 21" using len by simp
      from direct_prp2_pages(1) [OF ps this]
      have "unat len \<le> ?ps * unat (pgsize div 8)" .
      then have "(unat len + ?ps - 1) div ?ps \<le> (?ps * unat (pgsize div 8) + ?ps - 1) div ?ps"
        by (intro div_le_mono) simp
      also have "?ps * unat (pgsize div 8) + ?ps - 1 = (?ps - 1) + ?ps * unat (pgsize div 8)" by simp
      also have "\<dots> div ?ps = unat (pgsize div 8)" by (subst div_mult_self2) auto
      finally show ?thesis using ex by (simp add: word_less_nat_alt)
    qed
    have pg: "\<not> len \<le> pgsize" using gt ps(1) by (simp add: word_le_nat_alt)
    have out: "p2 = PRP2_list" "b' = bounce_fill (unat ex) pgsize prp1 0 b"
      using res False pg nov by (auto simp: bounce_prp2_def Let_def ex_def [symmetric])
    have ent: "prp_entry b' j = unat prp1 + (j + 1) * ?ps" if "?ps + j * ?ps < unat len" for j
    proof -
      have bd: "(j + 1) * ?ps < unat len" using that by simp
      have "j + 1 \<le> (j + 1) * ?ps" using mult_le_mono2 [of 1 ?ps "j + 1"] by (simp only: mult_1_right) simp
      then have "j + 1 < 2 ^ LENGTH(32)" using bd len by simp
      then have "unat (of_nat (j + 1) :: u32) = j + 1" by (rule unat_of_nat_small)
      then have "unat (of_nat j + 1 :: u32) = j + 1" by (simp only: of_nat_add of_nat_1)
      then have m: "unat ((of_nat j + 1) * pgsize) = (j + 1) * ?ps"
        using unat_times_small [of "of_nat j + 1" pgsize] ps(1) bd len by simp
      then have "unat (prp1 + (of_nat j + 1) * pgsize) = unat prp1 + (j + 1) * ?ps"
        using unat_plus_small [of prp1 "(of_nat j + 1) * pgsize"] bd room by simp
      then show ?thesis
        using bounce_fill_entries [of 0 j "unat ex" pgsize prp1 b] page [OF that] out(2)
        by (simp add: prp_entry_def)
    qed
    have "prp_locate ?ps (unat len) prp1 p2 b' k = unat prp1 + k" if k: "k < unat len" "\<not> k < ?ps" for k
    proof -
      define j r where "j = (k - ?ps) div ?ps" and "r = (k - ?ps) mod ?ps"
      have "k - ?ps = j * ?ps + r" by (simp only: j_def r_def div_mult_mod_eq)
      then have k': "k = ?ps + j * ?ps + r" using k(2) by simp
      then have "prp_entry b' j = unat prp1 + (j + 1) * ?ps" using ent k(1) by simp
      moreover have "prp_locate ?ps (unat len) prp1 p2 b' k = prp_entry b' j + r"
        using k(2) fp out(1) by (simp add: prp_locate_def Let_def j_def r_def)
      ultimately show ?thesis using k' by simp
    qed
    moreover have "prp_locate ?ps (unat len) prp1 p2 b' k = unat prp1 + k" if "k < ?ps" for k
      using that fp by (simp add: prp_locate_def Let_def)
    ultimately show ?thesis using out(1) fp gt by (auto simp: prp2_form_def mult_2)
  qed
qed

end
