(* ===== verification/Nvme_Ledger.thy ===== *)
theory Nvme_Ledger
  imports Nvme_Prp
begin

text \<open>
  The resource ledger of a unit. Three kinds of resources travel through the inflight
  slots: the I/O request that somebody waits for, the DMA pin of \<open>StartDMA\<close> that \<open>EndDMA\<close>
  has to release with the same buffer, size and flags, and the entry array that a
  fragmented transfer allocates. The set-up of the driver adds the memory it allocates, its
  interrupt servers, its libraries and interfaces, and its PCI devices and their register ranges.
  A token stands for each; \<open>held\<close> reads the tokens off a slot, \<open>ins\<close> and \<open>outs\<close> off the trace. An operation conserves the ledger when what entered
  equals what is held plus what left, whatever the operating system and the device do.
\<close>

datatype token = Tok_Req u32 | Tok_Pin u32 u32 u32 | Tok_Ents u32 | Tok_Vec u32 | Tok_Int u32
  | Tok_Lib u32 | Tok_Iface u32 | Tok_Dev u32 | Tok_Range u32 u32

text \<open>The top bit of \<open>dma_flags\<close>: the entry array is the slot's own pool.\<close>

definition POOL_MARK :: u32 where "POOL_MARK = 0x80000000"

definition held :: "NVMeInflight \<Rightarrow> token multiset" where
  "held f =
     (if inf_ioreq f \<noteq> 0 \<and> \<not> inf_suppress_reply f then {#Tok_Req (inf_ioreq f)#} else {#}) +
     (if inf_dma_list f = 0 then {#}
      else {#Tok_Pin (inf_dma_buf f) (inf_dma_size f) (inf_dma_flags f AND NOT POOL_MARK)#} +
           (if inf_dma_flags f AND POOL_MARK = 0 then {#Tok_Ents (inf_dma_list f)#} else {#}))"

fun ins_ev :: "event \<Rightarrow> token multiset" where
  "ins_ev (EvStartDMA b n fl k) = (if k = 0 then {#} else {#Tok_Pin b n fl#})"
| "ins_ev (EvAllocEntries p) = (if p = 0 then {#} else {#Tok_Ents p#})"
| "ins_ev (EvAllocVec p) = (if p = 0 then {#} else {#Tok_Vec p#})"
| "ins_ev (EvAddIntServer v ok) = (if ok then {#Tok_Int v#} else {#})"
| "ins_ev (EvOpenLibrary p) = (if p = 0 then {#} else {#Tok_Lib p#})"
| "ins_ev (EvGetInterface p) = (if p = 0 then {#} else {#Tok_Iface p#})"
| "ins_ev (EvFindDevice p) = (if p = 0 then {#} else {#Tok_Dev p#})"
| "ins_ev (EvGetRange d p) = (if p = 0 then {#} else {#Tok_Range d p#})"
| "ins_ev _ = {#}"

fun outs_ev :: "event \<Rightarrow> token multiset" where
  "outs_ev (EvReply r) = {#Tok_Req r#}"
| "outs_ev (EvEndDMA b n fl) = {#Tok_Pin b n fl#}"
| "outs_ev (EvFreeEntries p) = {#Tok_Ents p#}"
| "outs_ev (EvFreeVec p) = {#Tok_Vec p#}"
| "outs_ev (EvRemIntServer v) = {#Tok_Int v#}"
| "outs_ev (EvCloseLibrary p) = {#Tok_Lib p#}"
| "outs_ev (EvDropInterface p) = {#Tok_Iface p#}"
| "outs_ev (EvFreeDevice p) = {#Tok_Dev p#}"
| "outs_ev (EvFreeRange d p) = {#Tok_Range d p#}"
| "outs_ev _ = {#}"

definition ins :: "event list \<Rightarrow> token multiset" where
  "ins tr = (\<Sum>e\<leftarrow>tr. ins_ev e)"

definition outs :: "event list \<Rightarrow> token multiset" where
  "outs tr = (\<Sum>e\<leftarrow>tr. outs_ev e)"

lemma ins_simps [simp]: "ins [] = {#}" "ins (e # tr) = ins_ev e + ins tr" "ins (tr @ tr') = ins tr + ins tr'"
  and outs_simps [simp]: "outs [] = {#}" "outs (e # tr) = outs_ev e + outs tr" "outs (tr @ tr') = outs tr + outs tr'"
  by (simp_all add: ins_def outs_def)

definition held_slots :: "NVMeInflight list \<Rightarrow> token multiset" where
  "held_slots fs = (\<Sum>f\<leftarrow>fs. held f)"

text \<open>\<open>balanced s s' R\<close>: from \<open>s\<close> to \<open>s'\<close> exactly the tokens \<open>R\<close> entered from outside the trace.\<close>

definition balanced :: "drv \<Rightarrow> drv \<Rightarrow> token multiset \<Rightarrow> bool" where
  "balanced s s' R \<longleftrightarrow>
     held_slots (inflight (unit_st s')) + outs (trace s') + ins (trace s) =
     held_slots (inflight (unit_st s)) + outs (trace s) + ins (trace s') + R"

lemma balanced_refl [simp]: "balanced s s {#}"
  by (simp add: balanced_def)

lemma balanced_trans:
  assumes "balanced s t R" and "balanced t u Q"
  shows "balanced s u (R + Q)"
proof -
  have "(hu + ou + is :: token multiset) = hs + os + iu + (R + Q)"
    if "ht + ot + is = hs + os + it + R" "hu + ou + it = ht + ot + iu + Q" for hu ou iu ht ot it' hs os "is" it
  proof -
    have "(hu + ou + is) + (ht + ot + it) = (hs + os + iu + (R + Q)) + (ht + ot + it)"
      using arg_cong2 [OF that, of "(+)"] by (simp add: ac_simps)
    then show ?thesis by simp
  qed
  from this [OF assms [unfolded balanced_def]] show ?thesis by (simp add: balanced_def)
qed

lemma balanced_trans0 [trans]: "\<lbrakk>balanced s t R; balanced t u {#}\<rbrakk> \<Longrightarrow> balanced s u R"
  using balanced_trans by fastforce

lemma balanced_0trans: "\<lbrakk>balanced s t {#}; balanced t u R\<rbrakk> \<Longrightarrow> balanced s u R"
  using balanced_trans by fastforce

text \<open>The two ways an operation changes the ledger.\<close>

lemma sum_list_update_add:
  "i < length xs \<Longrightarrow> (\<Sum>x\<leftarrow>xs[i := y]. f x) + f (xs ! i) = (\<Sum>x\<leftarrow>xs. f x) + (f y :: 'a :: comm_monoid_add)"
proof (induction xs arbitrary: i)
  case (Cons x xs)
  then show ?case by (cases i) (auto simp: ac_simps)
qed simp

lemma held_slots_update:
  "i < length fs \<Longrightarrow> held_slots (fs[i := f]) + held (fs ! i) = held_slots fs + held f"
  by (simp add: held_slots_def sum_list_update_add)

lemma balanced_slot:
  assumes "i < length (inflight (unit_st s))"
    and "inflight (unit_st s') = (inflight (unit_st s))[i := f]"
    and "trace s' = trace s @ evs"
    and "held f + outs evs = held (slot_of s i) + ins evs + R"
  shows "balanced s s' R"
proof -
  have u: "held_slots (inflight (unit_st s')) + held (slot_of s i) = held_slots (inflight (unit_st s)) + held f"
    using held_slots_update [OF assms(1)] assms(2) by (simp add: slot_of_def)
  have "h' + (o1 + o2) + i1 = h + o1 + (i1 + i2) + R"
    if "h' + old = h + new" "new + o2 = old + i2 + R" for h' h old new o1 o2 i1 i2 :: "token multiset"
  proof -
    have "(h' + (o1 + o2) + i1) + (old + new) = (h + o1 + (i1 + i2) + R) + (old + new)"
      using arg_cong2 [OF that, of "(+)"] by (simp add: ac_simps)
    then show ?thesis by simp
  qed
  from this [OF u assms(4)] assms(3) show ?thesis by (simp add: balanced_def)
qed

lemma balanced_same:
  assumes "inflight (unit_st s') = inflight (unit_st s)" and "trace s' = trace s @ evs"
    and "outs evs = ins evs + R"
  shows "balanced s s' R"
  using assms by (simp add: balanced_def ac_simps)

section \<open>The unit invariant\<close>

text \<open>
  A slot that is free or in bounce mode has no DMA list, and only an occupied slot may
  suppress its reply.
\<close>

definition slot_ok :: "NVMeInflight \<Rightarrow> bool" where
  "slot_ok f \<longleftrightarrow> (inf_ioreq f = 0 \<or> inf_use_bounce f \<longrightarrow> inf_dma_list f = 0) \<and>
     (inf_ioreq f = 0 \<longrightarrow> \<not> inf_suppress_reply f)"

lemma held_free [simp]: "slot_ok f \<Longrightarrow> inf_ioreq f = 0 \<Longrightarrow> held f = {#}"
  by (simp add: slot_ok_def held_def)

definition occupied :: "NVMeInflight list \<Rightarrow> nat" where
  "occupied fs = length (filter (\<lambda>f. inf_ioreq f \<noteq> 0) fs)"

lemma occupied_le: "occupied fs \<le> length fs"
  by (simp add: occupied_def)

lemma occupied_update:
  "i < length fs \<Longrightarrow> occupied (fs[i := f]) + (if inf_ioreq (fs ! i) \<noteq> 0 then 1 else 0) =
     occupied fs + (if inf_ioreq f \<noteq> 0 then 1 else 0)"
proof (induction fs arbitrary: i)
  case (Cons x xs)
  then show ?case by (cases i) (auto simp: occupied_def)
qed simp

lemma occupied_pos: "i < length fs \<Longrightarrow> inf_ioreq (fs ! i) \<noteq> 0 \<Longrightarrow> 0 < occupied fs"
  by (auto simp: occupied_def filter_empty_conv)

text \<open>
  The invariant of a unit: sixteen slots in order, the queue indices inside the rings, and
  the statistics gauge equal to the number of occupied slots.
\<close>

definition unit_ok :: "NVMeUnit \<Rightarrow> bool" where
  "unit_ok u \<longleftrightarrow> length (inflight u) = NVME_MAX_INFLIGHT \<and> (\<forall>f\<in>set (inflight u). slot_ok f) \<and>
     0 < queue_depth u \<and> io_sq_tail u < queue_depth u \<and> io_cq_head u < queue_depth u \<and>
     st_inflight_current (stats u) = of_nat (occupied (inflight u))"

lemma unit_ok_slot: "unit_ok (unit_st s) \<Longrightarrow> i < NVME_MAX_INFLIGHT \<Longrightarrow> slot_ok (slot_of s i)"
  by (simp add: unit_ok_def slot_of_def)

text \<open>An operation that rewrites one slot and keeps the gauge in step keeps the invariant.\<close>

lemma unit_ok_slot_update:
  assumes "unit_ok u" and "i < NVME_MAX_INFLIGHT" and "inflight u' = (inflight u)[i := f]" and "slot_ok f"
    and "queue_depth u' = queue_depth u" and "io_sq_tail u' < queue_depth u" and "io_cq_head u' < queue_depth u"
    and "st_inflight_current (stats u') + (if inf_ioreq (inflight u ! i) \<noteq> 0 then 1 else 0) =
         st_inflight_current (stats u) + (if inf_ioreq f \<noteq> 0 then 1 else 0)"
  shows "unit_ok u'"
proof -
  have "i < length (inflight u)" using assms(1,2) by (simp add: unit_ok_def)
  note o = occupied_update [OF this, of f, THEN arg_cong, of "of_nat :: nat \<Rightarrow> u32"]
  have "st_inflight_current (stats u') + (if inf_ioreq (inflight u ! i) \<noteq> 0 then 1 else 0) =
      of_nat (occupied (inflight u')) + (if inf_ioreq (inflight u ! i) \<noteq> 0 then 1 else 0)"
    using o assms(1,3,8) by (simp add: unit_ok_def split del: if_split) (simp split: if_splits)
  then have "st_inflight_current (stats u') = of_nat (occupied (inflight u'))" by simp
  moreover have "\<forall>g\<in>set (inflight u'). slot_ok g"
    using assms(1,3,4) set_update_subset_insert [of "inflight u" i f] by (auto simp: unit_ok_def)
  ultimately show ?thesis using assms by (simp add: unit_ok_def)
qed

text \<open>Within the invariant the gauge is positive exactly when a slot is occupied.\<close>

lemma gauge_pos:
  assumes "unit_ok u" and "i < NVME_MAX_INFLIGHT" and "inf_ioreq (inflight u ! i) \<noteq> 0"
  shows "0 < st_inflight_current (stats u)"
proof -
  have p: "0 < occupied (inflight u)" "occupied (inflight u) \<le> 16"
    using assms occupied_pos [of i "inflight u"] occupied_le [of "inflight u"]
    by (simp_all add: unit_ok_def NVME_MAX_INFLIGHT_def)
  then have "unat (of_nat (occupied (inflight u)) :: u32) = occupied (inflight u)"
    by (intro unat_of_nat_small) simp
  then show ?thesis using assms(1) p(1) by (simp add: unit_ok_def word_less_nat_alt)
qed

text \<open>
  The part of a unit that no transfer changes: everything but the slots, the queue indices
  and the statistics.
\<close>

definition zero_stats :: NVMeUnitStats where
  "zero_stats = \<lparr>st_reads = 0, st_writes = 0, st_flushes = 0, st_read_bytes = 0, st_write_bytes = 0,
     st_err_timeout = 0, st_err_status = 0, st_err_abort = 0, st_err_dma = 0, st_inflight_current = 0,
     st_inflight_peak = 0, st_unitbusy_hits = 0, st_mdts_splits = 0, st_bounce_hits = 0,
     st_direct_dma_hits = 0, st_prp_list_hits = 0, st_total_io_ticks = 0, st_max_io_ticks = 0\<rparr>"

definition static_of :: "NVMeUnit \<Rightarrow> NVMeUnit" where
  "static_of u = u\<lparr>inflight := [], io_sq_tail := 0, io_cq_head := 0, io_cq_phase := 0, stats := zero_stats\<rparr>"

lemma static_of_upd [simp]:
  "static_of (u\<lparr>inflight := a\<rparr>) = static_of u" "static_of (u\<lparr>io_sq_tail := b\<rparr>) = static_of u"
  "static_of (u\<lparr>io_cq_head := c\<rparr>) = static_of u" "static_of (u\<lparr>io_cq_phase := d\<rparr>) = static_of u"
  "static_of (u\<lparr>stats := f\<rparr>) = static_of u"
  by (simp_all add: static_of_def)

lemma static_ofD:
  assumes "static_of u' = static_of u"
  shows "queue_depth u' = queue_depth u" "port_msgs u' = port_msgs u" "io_port u' = io_port u"
    "changeint_req u' = changeint_req u" "remove_req u' = remove_req u"
    "block_size u' = block_size u" "total_blocks u' = total_blocks u" "nsid u' = nsid u"
  using assms [THEN arg_cong, of queue_depth] assms [THEN arg_cong, of port_msgs] assms [THEN arg_cong, of io_port]
    assms [THEN arg_cong, of changeint_req] assms [THEN arg_cong, of remove_req]
    assms [THEN arg_cong, of block_size] assms [THEN arg_cong, of total_blocks] assms [THEN arg_cong, of nsid]
  by (simp_all add: static_of_def)

lemma ring_next_less: "0 < d \<Longrightarrow> ring_next i (unat d) < (d :: u16)"
  by (simp add: word_less_nat_alt unat_ring_next less_imp_le)

end
