(* ===== verification/Nvme_IO.thy ===== *)
theory Nvme_IO
  imports Nvme_Ledger
begin

text \<open>
  Submission (src/src/nvme/nvme_io.c): the search for a free slot, the doorbell, and
  \<open>NVMeIO_SubmitNoRing\<close> in the order of the code - the checks on the request, the
  reservation of the slot, the bounce or the direct path, and the commit that writes the
  submission entry and advances the shadow tail. A return code of the C function is the
  \<open>int\<close> of the same value.
\<close>

section \<open>Definitions\<close>

primrec first_free :: "NVMeInflight list \<Rightarrow> nat option" where
  "first_free [] = None"
| "first_free (f # fs) = (if inf_ioreq f = 0 then Some 0 else map_option Suc (first_free fs))"

definition find_free_slot :: "drv \<Rightarrow> nat option" where
  "find_free_slot s = first_free (take NVME_MAX_INFLIGHT (inflight (unit_st s)))"

definition NVMeIO_RingSQ :: "drv \<Rightarrow> drv" where
  "NVMeIO_RingSQ s =
     nvme_w32 (iobase (ctrl_st s) + NVME_SQ_TAIL_DB (ucast (queue_id (unit_st s))) (cap_dstrd (ctrl_st s)))
       (ucast (io_sq_tail (unit_st s))) s"

definition offset_is_64 :: "iocmd \<Rightarrow> bool" where
  "offset_is_64 c \<longleftrightarrow> c = TD_READ64 \<or> c = TD_WRITE64 \<or> c = NSCMD_TD_READ64 \<or> c = NSCMD_TD_WRITE64
     \<or> c = NSCMD_ETD_READ64 \<or> c = NSCMD_ETD_WRITE64"

definition byte_offset_of :: "IOStdReq \<Rightarrow> u64" where
  "byte_offset_of r =
     (if offset_is_64 (io_Command r) then push_bit 32 (ucast (io_Actual r)) OR ucast (io_Offset r)
      else ucast (io_Offset r))"

text \<open>The rejected request has its error and its \<open>io_Actual\<close>, 0, set by the caller below.\<close>

definition submit_check :: "NVMeUnit \<Rightarrow> IOStdReq \<Rightarrow> (int \<times> ioerr) + (u64 \<times> u32)" where
  "submit_check u r =
     (let byte_offset = byte_offset_of r; byte_length = io_Length r; block_mask = block_size u - 1 in
      if (ucast (byte_offset AND ucast block_mask) :: u32) \<noteq> 0 then Inl (-5, IOERR_BADADDRESS)
      else if byte_length AND block_mask \<noteq> 0 \<or> (byte_length \<noteq> 0 \<and> io_Data r = 0)
      then Inl (-5, IOERR_BADLENGTH)
      else let start_lba = drop_bit (unat (block_shift u)) byte_offset;
               nlb = drop_bit (unat (block_shift u)) byte_length in
      if nlb = 0 then Inl (-2, IO_OK)
      else if nlb > 0x10000 then Inl (-5, IOERR_BADLENGTH)
      else Inr (start_lba, nlb))"

definition reserve_slot :: "nat \<Rightarrow> u32 \<Rightarrow> bool \<Rightarrow> drv \<Rightarrow> drv" where
  "reserve_slot slot req is_write = upd_slot slot (\<lambda>f. f\<lparr>
     inf_ioreq := req, inf_is_write := is_write, inf_use_bounce := False, inf_dma_list := 0,
     inf_bounce_user_buf := 0, inf_bounce_user_len := 0, inf_suppress_reply := False\<rparr>)"

text \<open>The failure exits after the reservation: free the slot and set the error.\<close>

definition submit_fail :: "nat \<Rightarrow> u32 \<Rightarrow> ioerr \<Rightarrow> drv \<Rightarrow> drv" where
  "submit_fail slot req err s =
     upd_req req (\<lambda>r. r\<lparr>io_Error := err\<rparr>) (upd_slot slot (\<lambda>f. f\<lparr>inf_ioreq := 0\<rparr>) s)"

definition submit_bounce :: "env \<Rightarrow> u32 \<Rightarrow> nat \<Rightarrow> bool \<Rightarrow> u32 \<Rightarrow> u32 \<Rightarrow> drv \<Rightarrow> (int + u32 \<times> u32) \<times> drv" where
  "submit_bounce e req slot is_write data_virt byte_length s0 =
     (let s1 = upd_stats (\<lambda>t. t\<lparr>st_bounce_hits := st_bounce_hits t + 1\<rparr>) s0;
          s2 = upd_slot slot (\<lambda>f. f\<lparr>inf_use_bounce := True, inf_bounce_user_buf := data_virt,
                 inf_bounce_user_len := byte_length\<rparr>) s1;
          s3 = (if is_write then upd_ram (\<lambda>m. m\<lparr>bounce_mem := (bounce_mem m)(slot :=
                  e_CopyMem_in e (mem m) data_virt byte_length (bounce_mem m slot))\<rparr>) s2 else s2);
          prp1_phys = bounce_phys (unit_st s3) ! slot;
          (lst, p2) = bounce_prp2 (page_size (ctrl_st s3)) byte_length prp1_phys (prp_mem (ram s3) slot)
      in case p2 of
           PRP2_overflow \<Rightarrow> (Inl (-4), submit_fail slot req IOERR_BADLENGTH s3)
         | PRP2_value v \<Rightarrow> (Inr (prp1_phys, v), s3)
         | PRP2_list \<Rightarrow> (Inr (prp1_phys, prp_list_phys (unit_st s3) ! slot),
             upd_stats (\<lambda>t. t\<lparr>st_prp_list_hits := st_prp_list_hits t + 1\<rparr>)
               (upd_ram (\<lambda>m. m\<lparr>prp_mem := (prp_mem m)(slot := lst)\<rparr>) s3)))"

text \<open>\<open>EndDMA\<close>, and \<open>FreeSysObject\<close> of an entry array that this transfer owns.\<close>

definition end_dma :: "u32 \<Rightarrow> u32 \<Rightarrow> u32 \<Rightarrow> bool \<Rightarrow> u32 \<Rightarrow> drv \<Rightarrow> drv" where
  "end_dma buf len flags is_pool dma_list s =
     (let s1 = log_ev (EvEndDMA buf len flags) s in
      if is_pool then s1 else log_ev (EvFreeEntries dma_list) s1)"

definition direct_entries :: "env \<Rightarrow> nat \<Rightarrow> u32 \<Rightarrow> u32 \<Rightarrow> u32 \<Rightarrow> u32 \<Rightarrow> drv \<Rightarrow> (u32 \<times> bool) option \<times> drv" where
  "direct_entries e slot entries data_virt byte_length flags s =
     (if entries \<le> dma_entry_pool_capacity (unit_st s) \<and> dma_entry_pool (unit_st s) ! slot \<noteq> 0
      then (Some (dma_entry_pool (unit_st s) ! slot, True), s)
      else let p = e_AllocDMAEntry e (trace s) entries; s1 = log_ev (EvAllocEntries p) s in
        if p = 0 then (None, log_ev (EvEndDMA data_virt byte_length flags) s1)
        else (Some (p, False), s1))"

definition submit_direct :: "env \<Rightarrow> u32 \<Rightarrow> nat \<Rightarrow> bool \<Rightarrow> u32 \<Rightarrow> u32 \<Rightarrow> drv \<Rightarrow> (int + u32 \<times> u32) \<times> drv" where
  "submit_direct e req slot is_write data_virt byte_length s0 =
     (let s1 = upd_stats (\<lambda>t. t\<lparr>st_direct_dma_hits := st_direct_dma_hits t + 1\<rparr>) s0;
          flags = (if is_write then k_DMA_ReadFromRAM e else 0);
          entries = e_StartDMA e (trace s1) data_virt byte_length flags;
          s2 = log_ev (EvStartDMA data_virt byte_length flags entries) s1
      in if entries = 0 then (Inl (-3), submit_fail slot req IOERR_ABORTED s2)
      else case direct_entries e slot entries data_virt byte_length flags s2 of
        (None, s3) \<Rightarrow> (Inl (-3), submit_fail slot req IOERR_ABORTED s3)
      | (Some (dma_list, is_pool), s3) \<Rightarrow>
        (let ents = map (e_GetDMAList e (trace s3) data_virt byte_length flags) [0..<unat entries];
             s4 = upd_slot slot (\<lambda>f. f\<lparr>inf_dma_list := dma_list,
                    inf_dma_flags := flags OR (if is_pool then POOL_MARK else 0),
                    inf_dma_buf := data_virt, inf_dma_phys := PhysicalAddress (hd ents),
                    inf_dma_size := byte_length, inf_dma_entries := entries\<rparr>) s3;
             prp1_phys = PhysicalAddress (hd ents);
             (lst, p2) = direct_prp2 (page_size (ctrl_st s4)) byte_length prp1_phys ents (prp_mem (ram s4) slot);
             s5 = upd_ram (\<lambda>m. m\<lparr>prp_mem := (prp_mem m)(slot := lst)\<rparr>) s4
         in case p2 of
              PRP2_overflow \<Rightarrow> (Inl (-4), submit_fail slot req IOERR_BADLENGTH
                 (upd_slot slot (\<lambda>f. f\<lparr>inf_dma_list := 0\<rparr>)
                   (end_dma data_virt byte_length flags is_pool dma_list s5)))
            | PRP2_value v \<Rightarrow> (Inr (prp1_phys, v), s5)
            | PRP2_list \<Rightarrow> (Inr (prp1_phys, prp_list_phys (unit_st s5) ! slot),
                upd_stats (\<lambda>t. t\<lparr>st_prp_list_hits := st_prp_list_hits t + 1\<rparr>) s5)))"

text \<open>\<open>inflight_current++\<close> with the peak, common to all submitters.\<close>

definition gauge_up :: "NVMeUnitStats \<Rightarrow> NVMeUnitStats" where
  "gauge_up t =
     (let t1 = t\<lparr>st_inflight_current := st_inflight_current t + 1\<rparr> in
      if st_inflight_current t1 > st_inflight_peak t1
      then t1\<lparr>st_inflight_peak := st_inflight_current t1\<rparr> else t1)"

definition stamp_ticks :: "env \<Rightarrow> nat \<Rightarrow> drv \<Rightarrow> drv" where
  "stamp_ticks e slot s = (let tbr = e_tbr e (trace s) in
     upd_slot slot (\<lambda>f. f\<lparr>inf_submit_ticks_hi := ucast (drop_bit 32 tbr),
       inf_submit_ticks_lo := ucast (tbr AND 0xFFFFFFFF)\<rparr>) s)"

definition put_sqe :: "nvme_sqe \<Rightarrow> drv \<Rightarrow> drv" where
  "put_sqe q s = upd_ram (\<lambda>m. m\<lparr>sq_mem := write_io_sqe (sq_mem m) (unat (io_sq_tail (unit_st s))) q\<rparr>) s"

definition advance_tail :: "drv \<Rightarrow> drv" where
  "advance_tail = upd_unit (\<lambda>u. u\<lparr>io_sq_tail := ring_next (io_sq_tail u) (unat (queue_depth u))\<rparr>)"

definition cid_of_slot :: "nat \<Rightarrow> u16" where
  "cid_of_slot slot = of_nat (slot + 1)"

definition rw_sqe :: "NVMeUnit \<Rightarrow> bool \<Rightarrow> nat \<Rightarrow> u32 \<Rightarrow> u32 \<Rightarrow> u64 \<Rightarrow> u32 \<Rightarrow> nvme_sqe" where
  "rw_sqe u is_write slot prp1_phys prp2_phys start_lba nlb = sqe_zero\<lparr>
     sq_cdw0 := (if is_write then NVME_CMD_WRITE else NVME_CMD_READ) OR push_bit 16 (ucast (cid_of_slot slot)),
     sq_nsid := nsid u, sq_prp1_lo := prp1_phys, sq_prp1_hi := 0, sq_prp2_lo := prp2_phys, sq_prp2_hi := 0,
     sq_cdw10 := ucast (start_lba AND 0xFFFFFFFF), sq_cdw11 := ucast (drop_bit 32 start_lba),
     sq_cdw12 := (nlb - 1) AND 0xFFFF\<rparr>"

definition count_rw :: "bool \<Rightarrow> u32 \<Rightarrow> NVMeUnitStats \<Rightarrow> NVMeUnitStats" where
  "count_rw is_write byte_length t =
     (if is_write then t\<lparr>st_writes := st_writes t + 1, st_write_bytes := st_write_bytes t + ucast byte_length\<rparr>
      else t\<lparr>st_reads := st_reads t + 1, st_read_bytes := st_read_bytes t + ucast byte_length\<rparr>)"

definition submit_commit :: "env \<Rightarrow> bool \<Rightarrow> nat \<Rightarrow> u32 \<Rightarrow> u32 \<times> u32 \<Rightarrow> u64 \<Rightarrow> u32 \<Rightarrow> drv \<Rightarrow> drv" where
  "submit_commit e is_write slot byte_length prps start_lba nlb s0 =
     (let s1 = upd_slot slot (\<lambda>f. f\<lparr>inf_cmd_id := cid_of_slot slot\<rparr>) s0;
          s2 = put_sqe (rw_sqe (unit_st s1) is_write slot (fst prps) (snd prps) start_lba nlb) s1;
          s3 = stamp_ticks e slot s2;
          s4 = upd_stats (\<lambda>t. gauge_up (count_rw is_write byte_length t)) s3
      in advance_tail s4)"

definition NVMeIO_SubmitNoRing :: "env \<Rightarrow> u32 \<Rightarrow> bool \<Rightarrow> drv \<Rightarrow> int \<times> drv" where
  "NVMeIO_SubmitNoRing e req is_write s =
     (case find_free_slot s of
        None \<Rightarrow> (-1, s)
      | Some slot \<Rightarrow>
        (case submit_check (unit_st s) (reqs s req) of
           Inl (rc, err) \<Rightarrow> (rc, upd_req req (\<lambda>r. r\<lparr>io_Error := err, io_Actual := 0\<rparr>) s)
         | Inr (start_lba, nlb) \<Rightarrow>
           (let data_virt = io_Data (reqs s req); byte_length = io_Length (reqs s req);
                s1 = reserve_slot slot req is_write s;
                submit = (if should_use_bounce byte_length data_virt (page_size (ctrl_st s1))
                          then submit_bounce else submit_direct)
            in case submit e req slot is_write data_virt byte_length s1 of
                 (Inl rc, s2) \<Rightarrow> (rc, s2)
               | (Inr prps, s2) \<Rightarrow> (0, submit_commit e is_write slot byte_length prps start_lba nlb s2))))"

definition NVMeIO_Submit :: "env \<Rightarrow> u32 \<Rightarrow> bool \<Rightarrow> drv \<Rightarrow> int \<times> drv" where
  "NVMeIO_Submit e req is_write s =
     (case NVMeIO_SubmitNoRing e req is_write s of
        (rc, s1) \<Rightarrow> if rc = 0 then (rc, NVMeIO_RingSQ s1) else (rc, s1))"

definition flush_sqe :: "NVMeUnit \<Rightarrow> nat \<Rightarrow> nvme_sqe" where
  "flush_sqe u slot = sqe_zero\<lparr>sq_cdw0 := NVME_CMD_FLUSH OR push_bit 16 (ucast (cid_of_slot slot)),
     sq_nsid := nsid u\<rparr>"

text \<open>The slot of a command without data, for \<open>NVMeIO_Flush\<close> and \<open>NVMeIO_SubmitAndWait\<close>.\<close>

definition reserve_nodata :: "nat \<Rightarrow> u32 \<Rightarrow> bool \<Rightarrow> drv \<Rightarrow> drv" where
  "reserve_nodata slot req suppress = upd_slot slot (\<lambda>f. f\<lparr>
     inf_ioreq := req, inf_cmd_id := cid_of_slot slot, inf_is_write := False, inf_use_bounce := False,
     inf_dma_list := 0, inf_bounce_user_buf := 0, inf_bounce_user_len := 0,
     inf_suppress_reply := suppress\<rparr>)"

definition NVMeIO_Flush :: "env \<Rightarrow> u32 \<Rightarrow> drv \<Rightarrow> int \<times> drv" where
  "NVMeIO_Flush e req s =
     (case find_free_slot s of
        None \<Rightarrow> (-1, s)
      | Some slot \<Rightarrow>
        (let s1 = reserve_nodata slot req False s;
             s2 = put_sqe (flush_sqe (unit_st s1) slot) s1;
             s3 = stamp_ticks e slot s2;
             s4 = upd_stats (\<lambda>t. gauge_up (t\<lparr>st_flushes := st_flushes t + 1\<rparr>)) s3
         in (0, NVMeIO_RingSQ (advance_tail s4))))"

section \<open>The free slot\<close>

lemma first_free_Some: "first_free fs = Some i \<Longrightarrow>
    i < length fs \<and> inf_ioreq (fs ! i) = 0 \<and> (\<forall>j<i. inf_ioreq (fs ! j) \<noteq> 0)"
  by (induction fs arbitrary: i) (auto simp: less_Suc_eq_0_disj split: if_splits)

lemma first_free_None: "first_free fs = None \<longleftrightarrow> (\<forall>f\<in>set fs. inf_ioreq f \<noteq> 0)"
  by (induction fs) auto

lemma find_free_slot_Some:
  assumes "unit_ok (unit_st s)" and "find_free_slot s = Some i"
  shows "i < NVME_MAX_INFLIGHT" and "i < length (inflight (unit_st s))" and "inf_ioreq (slot_of s i) = 0"
    and "slot_ok (slot_of s i)" and "held (slot_of s i) = {#}"
  using first_free_Some [OF assms(2) [unfolded find_free_slot_def]] assms(1)
  by (auto simp: unit_ok_def slot_of_def)

lemma find_free_slot_None:
  "unit_ok (unit_st s) \<Longrightarrow> find_free_slot s = None \<longleftrightarrow> (\<forall>i<NVME_MAX_INFLIGHT. inf_ioreq (slot_of s i) \<noteq> 0)"
  by (simp add: find_free_slot_def first_free_None unit_ok_def slot_of_def all_set_conv_all_nth)

section \<open>Frames\<close>

text \<open>What the paths leave alone in the unit: everything but the slots and the statistics.\<close>

definition io_frame :: "NVMeUnit \<Rightarrow> NVMeUnit \<Rightarrow> bool" where
  "io_frame u u' \<longleftrightarrow> u' = u\<lparr>inflight := inflight u', stats := stats u'\<rparr> \<and>
     st_inflight_current (stats u') = st_inflight_current (stats u)"

lemma io_frame_fields:
  assumes "io_frame u u'"
  shows "queue_depth u' = queue_depth u" "io_sq_tail u' = io_sq_tail u" "io_cq_head u' = io_cq_head u"
    "io_cq_phase u' = io_cq_phase u" "nsid u' = nsid u" "queue_id u' = queue_id u" "port_msgs u' = port_msgs u"
    "bounce_phys u' = bounce_phys u" "prp_list_phys u' = prp_list_phys u" "block_size u' = block_size u"
    "block_shift u' = block_shift u" "total_blocks u' = total_blocks u"
    "st_inflight_current (stats u') = st_inflight_current (stats u)"
proof -
  have u: "u' = u\<lparr>inflight := inflight u', stats := stats u'\<rparr>" using assms by (simp add: io_frame_def)
  show "queue_depth u' = queue_depth u" "io_sq_tail u' = io_sq_tail u" "io_cq_head u' = io_cq_head u"
    "io_cq_phase u' = io_cq_phase u" "nsid u' = nsid u" "queue_id u' = queue_id u" "port_msgs u' = port_msgs u"
    "bounce_phys u' = bounce_phys u" "prp_list_phys u' = prp_list_phys u" "block_size u' = block_size u"
    "block_shift u' = block_shift u" "total_blocks u' = total_blocks u"
    by (subst u, simp)+
  show "st_inflight_current (stats u') = st_inflight_current (stats u)" using assms by (simp add: io_frame_def)
qed

lemma io_frame_static: "io_frame u u' \<Longrightarrow> static_of u' = static_of u"
  unfolding io_frame_def by (metis static_of_upd(1,5))

lemma io_frame_refl [simp]: "io_frame u u"
  by (simp add: io_frame_def)

lemma io_frame_trans: "io_frame u v \<Longrightarrow> io_frame v t \<Longrightarrow> io_frame u t"
  by (cases u; cases v; cases t; simp add: io_frame_def)

text \<open>
  The contract of a transfer path that starts on a freshly reserved slot: on success the
  slot holds the request and every pin taken, on failure the slot is free and every pin
  was released.
\<close>

definition path_post :: "u32 \<Rightarrow> nat \<Rightarrow> drv \<Rightarrow> (int + u32 \<times> u32) \<times> drv \<Rightarrow> bool" where
  "path_post req slot s res \<longleftrightarrow>
     (\<exists>f evs. inflight (unit_st (snd res)) = (inflight (unit_st s))[slot := f] \<and>
        trace (snd res) = trace s @ evs \<and> io_frame (unit_st s) (unit_st (snd res)) \<and>
        ctrl_st (snd res) = ctrl_st s \<and> sq_mem (ram (snd res)) = sq_mem (ram s) \<and> slot_ok f \<and>
        (case fst res of
           Inl rc \<Rightarrow> rc < 0 \<and> rc \<noteq> -1 \<and> inf_ioreq f = 0 \<and> outs evs = ins evs
         | Inr prps \<Rightarrow> inf_ioreq f = req \<and> \<not> inf_suppress_reply f \<and> held f = {#Tok_Req req#} + ins evs \<and> outs evs = {#}))"

definition fresh_slot :: "u32 \<Rightarrow> NVMeInflight \<Rightarrow> bool" where
  "fresh_slot req f \<longleftrightarrow> inf_ioreq f = req \<and> req \<noteq> 0 \<and> \<not> inf_suppress_reply f \<and> \<not> inf_use_bounce f \<and> inf_dma_list f = 0"

lemma pool_mark_clear:
  assumes "f AND POOL_MARK = 0"
  shows "(f OR POOL_MARK) AND NOT POOL_MARK = f" and "f AND NOT POOL_MARK = f" and "(f OR POOL_MARK) AND POOL_MARK \<noteq> 0"
proof -
  have b: "\<not> (bit f n \<and> bit POOL_MARK n)" for n
    using assms by (metis bit_and_iff bit_0_eq bot_apply bot_bool_def)
  show "(f OR POOL_MARK) AND NOT POOL_MARK = f" "f AND NOT POOL_MARK = f"
    by (rule bit_word_eqI; use b in \<open>auto simp: bit_simps\<close>)+
  have "(f OR POOL_MARK) AND POOL_MARK = POOL_MARK"
    by (rule bit_word_eqI) (auto simp: bit_simps)
  then show "(f OR POOL_MARK) AND POOL_MARK \<noteq> 0" by (simp add: POOL_MARK_def)
qed

lemma POOL_MARK_nonzero [simp]: "POOL_MARK \<noteq> 0"
  by (simp add: POOL_MARK_def)

definition dma_flags_clear :: "env \<Rightarrow> bool" where
  "dma_flags_clear e \<longleftrightarrow> k_DMA_ReadFromRAM e AND POOL_MARK = 0"

lemma path_postI:
  assumes "slot < length (inflight (unit_st s))"
    and "inflight (unit_st s') = (inflight (unit_st s))[slot := f]"
    and "trace s' = trace s @ evs" and "io_frame (unit_st s) (unit_st s')"
    and "ctrl_st s' = ctrl_st s" and "sq_mem (ram s') = sq_mem (ram s)" and "slot_ok f"
    and "case r of Inl rc \<Rightarrow> rc < 0 \<and> rc \<noteq> -1 \<and> inf_ioreq f = 0 \<and> outs evs = ins evs
         | Inr prps \<Rightarrow> inf_ioreq f = req \<and> \<not> inf_suppress_reply f \<and> held f = {#Tok_Req req#} + ins evs \<and> outs evs = {#}"
  shows "path_post req slot s (r, s')"
  using assms unfolding path_post_def by auto

lemma submit_bounce_post:
  assumes "slot < length (inflight (unit_st s))" and "fresh_slot req (slot_of s slot)"
  shows "path_post req slot s (submit_bounce e req slot w data len s)"
  using assms
  by (auto simp: submit_bounce_def submit_fail_def Let_def split: prod.splits prp2.splits
      intro!: path_postI simp: io_frame_def slot_of_def slot_ok_def fresh_slot_def held_def)

lemma direct_entries_cases:
  "(\<exists>s'. direct_entries e slot k b n fl s = (None, s') \<and>
      s' = log_ev (EvEndDMA b n fl) (log_ev (EvAllocEntries 0) s)) \<or>
   (\<exists>dl. dl \<noteq> 0 \<and> direct_entries e slot k b n fl s = (Some (dl, True), s)) \<or>
   (\<exists>dl. dl \<noteq> 0 \<and> direct_entries e slot k b n fl s = (Some (dl, False), log_ev (EvAllocEntries dl) s))"
  by (simp add: direct_entries_def Let_def)

lemma submit_direct_post:
  assumes sl: "slot < length (inflight (unit_st s))" and fresh: "fresh_slot req (slot_of s slot)"
    and fl: "dma_flags_clear e"
  shows "path_post req slot s (submit_direct e req slot w data len s)"
proof -
  define flags where "flags = (if w then k_DMA_ReadFromRAM e else 0)"
  have "flags AND POOL_MARK = 0" using fl by (simp add: flags_def dma_flags_clear_def)
  note pm = pool_mark_clear [OF this] this
  define s1 where "s1 = upd_stats (\<lambda>t. t\<lparr>st_direct_dma_hits := st_direct_dma_hits t + 1\<rparr>) s"
  define k where "k = e_StartDMA e (trace s1) data len flags"
  define s2 where "s2 = log_ev (EvStartDMA data len flags k) s1"
  note st = s1_def s2_def
  note start = submit_direct_def Let_def flags_def [symmetric] s1_def [symmetric] k_def [symmetric] s2_def [symmetric]
  have f0: "inf_ioreq (inflight (unit_st s) ! slot) = req" "\<not> inf_suppress_reply (inflight (unit_st s) ! slot)"
      "\<not> inf_use_bounce (inflight (unit_st s) ! slot)" "inf_dma_list (inflight (unit_st s) ! slot) = 0" "req \<noteq> 0"
    using fresh by (simp_all add: fresh_slot_def slot_of_def)
  show ?thesis
  proof (cases "k = 0")
    case True
    then show ?thesis
      by (simp add: start)
        (rule path_postI [OF sl, where evs = "[EvStartDMA data len flags 0]"],
          (simp add: submit_fail_def st io_frame_def slot_ok_def f0 sl)+)
  next
    case False
    note k = False
    from direct_entries_cases [of e slot k data len flags s2] show ?thesis
    proof (elim disjE exE conjE)
      fix s' assume "direct_entries e slot k data len flags s2 = (None, s')"
        and "s' = log_ev (EvEndDMA data len flags) (log_ev (EvAllocEntries 0) s2)"
      with k show ?thesis
        by (simp add: start)
          (rule path_postI [OF sl, where evs = "[EvStartDMA data len flags k, EvAllocEntries 0, EvEndDMA data len flags]"],
            (simp add: submit_fail_def st io_frame_def slot_ok_def f0 sl)+)
    next
      fix dl assume dl: "dl \<noteq> 0" and d: "direct_entries e slot k data len flags s2 = (Some (dl, True), s2)"
      let ?p = "direct_prp2 (page_size (ctrl_st s)) len (PhysicalAddress (hd (map (e_GetDMAList e (trace s2) data len flags) [0..<unat k])))
          (map (e_GetDMAList e (trace s2) data len flags) [0..<unat k]) (prp_mem (ram s) slot)"
      obtain lst p2 where p: "?p = (lst, p2)" by (cases ?p)
      show ?thesis
        by (cases p2; (simp add: start d k, simp add: st k p [unfolded st, simplified],
            rule path_postI [OF sl, where evs = "[EvStartDMA data len flags k] @ (if p2 = PRP2_overflow then [EvEndDMA data len flags] else [])"],
            (simp add: submit_fail_def end_dma_def st io_frame_def slot_ok_def held_def f0 sl dl pm k)+))
    next
      fix dl assume dl: "dl \<noteq> 0" and d: "direct_entries e slot k data len flags s2 = (Some (dl, False), log_ev (EvAllocEntries dl) s2)"
      let ?tr = "trace s2 @ [EvAllocEntries dl]"
      let ?p = "direct_prp2 (page_size (ctrl_st s)) len (PhysicalAddress (hd (map (e_GetDMAList e ?tr data len flags) [0..<unat k])))
          (map (e_GetDMAList e ?tr data len flags) [0..<unat k]) (prp_mem (ram s) slot)"
      obtain lst p2 where p: "?p = (lst, p2)" by (cases ?p)
      show ?thesis
        by (cases p2; (simp add: start d k, simp add: st k p [unfolded st, simplified],
            rule path_postI [OF sl, where evs = "[EvStartDMA data len flags k, EvAllocEntries dl] @
              (if p2 = PRP2_overflow then [EvEndDMA data len flags, EvFreeEntries dl] else [])"],
            (simp add: submit_fail_def end_dma_def st io_frame_def slot_ok_def held_def f0 sl dl pm k)+))
    qed
  qed
qed

section \<open>The commit\<close>

lemma gauge_up_current [simp]: "st_inflight_current (gauge_up t) = st_inflight_current t + 1"
  by (simp add: gauge_up_def Let_def)

lemma count_rw_current [simp]: "st_inflight_current (count_rw w n t) = st_inflight_current t"
  by (simp add: count_rw_def)

text \<open>The slot after the command identifier and the time stamp are written.\<close>

definition stamped :: "env \<Rightarrow> event list \<Rightarrow> NVMeInflight \<Rightarrow> NVMeInflight" where
  "stamped e tr f = f\<lparr>inf_submit_ticks_hi := ucast (drop_bit 32 (e_tbr e tr)),
     inf_submit_ticks_lo := ucast (e_tbr e tr AND 0xFFFFFFFF)\<rparr>"

lemma stamped_simps [simp]:
  "inf_ioreq (stamped e tr f) = inf_ioreq f" "inf_suppress_reply (stamped e tr f) = inf_suppress_reply f"
  "inf_dma_list (stamped e tr f) = inf_dma_list f" "inf_use_bounce (stamped e tr f) = inf_use_bounce f"
  "inf_cmd_id (stamped e tr f) = inf_cmd_id f"
  "slot_ok (stamped e tr f) = slot_ok f" "held (stamped e tr f) = held f"
  by (simp_all add: stamped_def slot_ok_def held_def)

lemma stamp_ticks_eq: "stamp_ticks e slot s = upd_slot slot (stamped e (trace s)) s"
  by (simp add: stamp_ticks_def stamped_def [abs_def] Let_def)

lemma advance_tail_simps [simp]:
  "trace (advance_tail s) = trace s" "ram (advance_tail s) = ram s" "reqs (advance_tail s) = reqs s"
  "ctrl_st (advance_tail s) = ctrl_st s"
  "unit_st (advance_tail s) = (unit_st s)\<lparr>io_sq_tail := ring_next (io_sq_tail (unit_st s)) (unat (queue_depth (unit_st s)))\<rparr>"
  by (simp_all add: advance_tail_def)

lemma put_sqe_simps [simp]:
  "trace (put_sqe q s) = trace s" "reqs (put_sqe q s) = reqs s" "ctrl_st (put_sqe q s) = ctrl_st s"
  "unit_st (put_sqe q s) = unit_st s"
  "sq_mem (ram (put_sqe q s)) = write_io_sqe (sq_mem (ram s)) (unat (io_sq_tail (unit_st s))) q"
  by (simp_all add: put_sqe_def)

lemma RingSQ_simps [simp]:
  "unit_st (NVMeIO_RingSQ s) = unit_st s" "ctrl_st (NVMeIO_RingSQ s) = ctrl_st s"
  "ram (NVMeIO_RingSQ s) = ram s" "reqs (NVMeIO_RingSQ s) = reqs s" "scsis (NVMeIO_RingSQ s) = scsis s"
  "trace (NVMeIO_RingSQ s) = trace s @ [EvW32 (iobase (ctrl_st s) +
     NVME_SQ_TAIL_DB (ucast (queue_id (unit_st s))) (cap_dstrd (ctrl_st s))) (ucast (io_sq_tail (unit_st s)))]"
  by (simp_all add: NVMeIO_RingSQ_def)

lemma balanced_RingSQ [simp]: "balanced s (NVMeIO_RingSQ t) R = balanced s t R"
  by (simp add: balanced_def)

lemma submit_commit_simps:
  assumes "slot < length (inflight (unit_st s))"
  shows "trace (submit_commit e w slot len prps lba nlb s) = trace s"
    and "reqs (submit_commit e w slot len prps lba nlb s) = reqs s"
    and "ctrl_st (submit_commit e w slot len prps lba nlb s) = ctrl_st s"
    and "inflight (unit_st (submit_commit e w slot len prps lba nlb s)) =
      (inflight (unit_st s))[slot := stamped e (trace s) ((slot_of s slot)\<lparr>inf_cmd_id := cid_of_slot slot\<rparr>)]"
    and "io_sq_tail (unit_st (submit_commit e w slot len prps lba nlb s)) =
      ring_next (io_sq_tail (unit_st s)) (unat (queue_depth (unit_st s)))"
    and "queue_depth (unit_st (submit_commit e w slot len prps lba nlb s)) = queue_depth (unit_st s)"
    and "io_cq_head (unit_st (submit_commit e w slot len prps lba nlb s)) = io_cq_head (unit_st s)"
    and "st_inflight_current (stats (unit_st (submit_commit e w slot len prps lba nlb s))) =
      st_inflight_current (stats (unit_st s)) + 1"
    and "sq_mem (ram (submit_commit e w slot len prps lba nlb s)) = write_io_sqe (sq_mem (ram s))
      (unat (io_sq_tail (unit_st s))) (rw_sqe (unit_st s) w slot (fst prps) (snd prps) lba nlb)"
  using assms
  by (simp_all add: submit_commit_def Let_def stamp_ticks_eq slot_of_def rw_sqe_def)

text \<open>Only the request itself is written, and only when the submission fails.\<close>

lemma direct_entries_frame:
  "ctrl_st (snd (direct_entries e slot k b n fl s)) = ctrl_st s"
  "reqs (snd (direct_entries e slot k b n fl s)) = reqs s"
  "scsis (snd (direct_entries e slot k b n fl s)) = scsis s"
  by (simp_all add: direct_entries_def Let_def)

lemma submit_fail_frame [simp]:
  "ctrl_st (submit_fail slot req err s) = ctrl_st s" "scsis (submit_fail slot req err s) = scsis s"
  "reqs (submit_fail slot req err s) = (reqs s)(req := (reqs s req)\<lparr>io_Error := err\<rparr>)"
  by (simp_all add: submit_fail_def)

lemma path_frame:
  assumes "path = submit_bounce \<or> path = submit_direct" and "path e req slot w data len s = (r, s')"
  shows "ctrl_st s' = ctrl_st s" and "scsis s' = scsis s"
    and "reqs s' = (case r of Inl rc \<Rightarrow> (reqs s)(req := (reqs s req)\<lparr>io_Error := io_Error (reqs s' req)\<rparr>) | Inr p \<Rightarrow> reqs s)"
proof -
  have "ctrl_st s' = ctrl_st s \<and> scsis s' = scsis s \<and>
      reqs s' = (case r of Inl rc \<Rightarrow> (reqs s)(req := (reqs s req)\<lparr>io_Error := io_Error (reqs s' req)\<rparr>) | Inr p \<Rightarrow> reqs s)"
    using assms(1)
  proof
    assume "path = submit_bounce"
    with assms(2) show ?thesis
      by (auto simp: submit_bounce_def Let_def split: prod.splits prp2.splits)
  next
    assume p: "path = submit_direct"
    have d: "ctrl_st t' = ctrl_st t" "reqs t' = reqs t" "scsis t' = scsis t"
      if "direct_entries e slot k data len fl t = (x, t')" for k fl x t t'
      using direct_entries_frame [of e slot k data len fl t] that by simp_all
    show ?thesis
      using assms(2) unfolding p submit_direct_def Let_def
      by (auto simp: end_dma_def Let_def d split: prod.splits prp2.splits option.splits if_splits)
  qed
  then show "ctrl_st s' = ctrl_st s" and "scsis s' = scsis s"
    and "reqs s' = (case r of Inl rc \<Rightarrow> (reqs s)(req := (reqs s req)\<lparr>io_Error := io_Error (reqs s' req)\<rparr>) | Inr p \<Rightarrow> reqs s)"
    by blast+
qed

lemma submit_commit_frame:
  "ctrl_st (submit_commit e w slot len prps lba nlb s) = ctrl_st s"
  "scsis (submit_commit e w slot len prps lba nlb s) = scsis s"
  "reqs (submit_commit e w slot len prps lba nlb s) = reqs s"
  by (simp_all add: submit_commit_def Let_def stamp_ticks_eq) (simp_all add: put_sqe_def effect_defs advance_tail_def)

lemma SubmitNoRing_frame:
  assumes "NVMeIO_SubmitNoRing e req w s = (rc, s')"
  shows "ctrl_st s' = ctrl_st s" and "scsis s' = scsis s" and "r \<noteq> req \<Longrightarrow> reqs s' r = reqs s r"
    and "rc = 0 \<Longrightarrow> reqs s' = reqs s"
proof -
  have "ctrl_st s' = ctrl_st s \<and> scsis s' = scsis s \<and> (r \<noteq> req \<longrightarrow> reqs s' r = reqs s r) \<and> (rc = 0 \<longrightarrow> reqs s' = reqs s)"
  proof (cases "find_free_slot s")
    case None
    with assms show ?thesis by (simp add: NVMeIO_SubmitNoRing_def)
  next
    case (Some slot)
    show ?thesis
    proof (cases "submit_check (unit_st s) (reqs s req)")
      case (Inl a)
      then have "fst a \<noteq> 0" by (auto simp: submit_check_def Let_def split: if_splits)
      with assms Some Inl show ?thesis by (auto simp: NVMeIO_SubmitNoRing_def split: prod.splits)
    next
      case (Inr b)
      define data where "data = io_Data (reqs s req)"
      define len where "len = io_Length (reqs s req)"
      define s1 where "s1 = reserve_slot slot req w s"
      define path where "path = (if should_use_bounce len data (page_size (ctrl_st s1)) then submit_bounce else submit_direct)"
      have one: "ctrl_st s1 = ctrl_st s" "scsis s1 = scsis s" "reqs s1 = reqs s" by (simp_all add: s1_def reserve_slot_def)
      obtain x s2 where x: "path e req slot w data len s1 = (x, s2)" by (cases "path e req slot w data len s1")
      have "path = submit_bounce \<or> path = submit_direct" by (simp add: path_def)
      note f = path_frame [OF this x]
      have res: "(rc, s') = (case x of Inl c \<Rightarrow> (c, s2)
          | Inr prps \<Rightarrow> (0, submit_commit e w slot len prps (fst b) (snd b) s2))"
        using assms Some Inr x
        by (cases b; cases x) (auto simp: NVMeIO_SubmitNoRing_def Let_def s1_def data_def len_def path_def split: if_splits)
      have "c \<noteq> 0" if "x = Inl c" for c
        using x that by (auto simp: path_def submit_bounce_def submit_direct_def Let_def
            split: if_splits prod.splits prp2.splits option.splits)
      with res f(1,2) fun_cong [OF f(3), of r] f(3) one show ?thesis
        by (cases x) (simp_all add: submit_commit_frame split: if_splits)
    qed
  qed
  then show "ctrl_st s' = ctrl_st s" and "scsis s' = scsis s" and "r \<noteq> req \<Longrightarrow> reqs s' r = reqs s r"
    and "rc = 0 \<Longrightarrow> reqs s' = reqs s" by blast+
qed

lemma submit_commit_static: "static_of (unit_st (submit_commit e w slot len prps lba nlb s)) = static_of (unit_st s)"
  by (simp add: submit_commit_def Let_def stamp_ticks_eq)

section \<open>Submission as a whole\<close>

lemma reserve_fresh:
  assumes "req \<noteq> 0" and "slot < length (inflight (unit_st s))"
  shows "fresh_slot req (slot_of (reserve_slot slot req w s) slot)"
    and "slot < length (inflight (unit_st (reserve_slot slot req w s)))"
  using assms by (simp_all add: reserve_slot_def fresh_slot_def slot_of_def)

text \<open>Every way through \<open>NVMeIO_SubmitNoRing\<close>.\<close>

lemma SubmitNoRing_cases:
  assumes ok: "unit_ok (unit_st s)" and req: "req \<noteq> 0" and fl: "dma_flags_clear e"
    and res: "NVMeIO_SubmitNoRing e req w s = (rc, s')"
  obtains (full) "find_free_slot s = None" "rc = -1" "s' = s"
  | (rejected) slot err where "find_free_slot s = Some slot" "submit_check (unit_st s) (reqs s req) = Inl (rc, err)"
      "s' = upd_req req (\<lambda>r. r\<lparr>io_Error := err, io_Actual := 0\<rparr>) s" "rc < -1"
  | (failed) slot f evs where "find_free_slot s = Some slot" "rc < -1" "inf_ioreq f = 0" "slot_ok f"
      "inflight (unit_st s') = (inflight (unit_st s))[slot := f]" "trace s' = trace s @ evs"
      "outs evs = ins evs" "io_frame (unit_st s) (unit_st s')" "sq_mem (ram s') = sq_mem (ram s)"
  | (submitted) slot lba nlb prps f evs where "find_free_slot s = Some slot" "rc = 0"
      "submit_check (unit_st s) (reqs s req) = Inr (lba, nlb)" "inf_ioreq f = req" "\<not> inf_suppress_reply f"
      "slot_ok f" "inf_cmd_id f = cid_of_slot slot"
      "held f = {#Tok_Req req#} + ins evs" "outs evs = {#}" "trace s' = trace s @ evs"
      "inflight (unit_st s') = (inflight (unit_st s))[slot := f]"
      "io_sq_tail (unit_st s') = ring_next (io_sq_tail (unit_st s)) (unat (queue_depth (unit_st s)))"
      "static_of (unit_st s') = static_of (unit_st s)"
      "queue_depth (unit_st s') = queue_depth (unit_st s)" "io_cq_head (unit_st s') = io_cq_head (unit_st s)"
      "st_inflight_current (stats (unit_st s')) = st_inflight_current (stats (unit_st s)) + 1"
      "sq_mem (ram s') = write_io_sqe (sq_mem (ram s)) (unat (io_sq_tail (unit_st s)))
         (rw_sqe (unit_st s) w slot (fst prps) (snd prps) lba nlb)"
proof (cases "find_free_slot s")
  case None
  with res show ?thesis by (intro full) (simp_all add: NVMeIO_SubmitNoRing_def)
next
  case (Some slot)
  note free = find_free_slot_Some [OF ok Some]
  show ?thesis
  proof (cases "submit_check (unit_st s) (reqs s req)")
    case (Inl a)
    obtain c err where a: "a = (c, err)" by (cases a)
    have "c < -1" using Inl a by (auto simp: submit_check_def Let_def split: if_splits)
    with res Some Inl a show ?thesis by (intro rejected [of slot err]) (simp_all add: NVMeIO_SubmitNoRing_def)
  next
    case (Inr b)
    obtain lba nlb where b: "b = (lba, nlb)" by (cases b)
    define s1 where "s1 = reserve_slot slot req w s"
    define data len where "data = io_Data (reqs s req)" and "len = io_Length (reqs s req)"
    define path where "path = (if should_use_bounce len data (page_size (ctrl_st s1)) then submit_bounce else submit_direct)"
    note fresh = reserve_fresh [OF req free(2), of w, folded s1_def]
    obtain r s2 where path: "path e req slot w data len s1 = (r, s2)" by (cases "path e req slot w data len s1")
    have post: "path_post req slot s1 (r, s2)"
      using submit_bounce_post [OF fresh(2,1)] submit_direct_post [OF fresh(2,1) fl] path
      by (simp add: path_def split: if_splits) metis+
    have one: "inflight (unit_st s1) = (inflight (unit_st s))[slot := slot_of s1 slot]" "trace s1 = trace s"
        "io_frame (unit_st s) (unit_st s1)" "ram s1 = ram s"
      using free(2) by (simp_all add: s1_def reserve_slot_def slot_of_def io_frame_def)
    obtain f evs where f: "inflight (unit_st s2) = (inflight (unit_st s))[slot := f]" "trace s2 = trace s @ evs"
        "io_frame (unit_st s) (unit_st s2)" "ctrl_st s2 = ctrl_st s1" "sq_mem (ram s2) = sq_mem (ram s)" "slot_ok f"
        and r: "case r of Inl rc \<Rightarrow> rc < 0 \<and> rc \<noteq> -1 \<and> inf_ioreq f = 0 \<and> outs evs = ins evs
         | Inr prps \<Rightarrow> inf_ioreq f = req \<and> \<not> inf_suppress_reply f \<and> held f = {#Tok_Req req#} + ins evs \<and> outs evs = {#}"
      using post one io_frame_trans [OF one(3)] by (auto simp: path_post_def)
    have len2: "slot < length (inflight (unit_st s2))" using f(1) free(2) by simp
    have sub: "(rc, s') = (case r of Inl rc \<Rightarrow> (rc, s2) | Inr prps \<Rightarrow> (0, submit_commit e w slot len prps lba nlb s2))"
      using res Some Inr b path
      by (cases r) (auto simp: NVMeIO_SubmitNoRing_def Let_def s1_def data_def len_def path_def split: if_splits)
    note fields = io_frame_fields [OF f(3)]
    show ?thesis
    proof (cases r)
      case (Inl c)
      then show ?thesis using sub r f Some by (intro failed [of slot f evs]) simp_all
    next
      case (Inr prps)
      have at: "slot_of s2 slot = f" using f(1) free(2) by (simp add: slot_of_def)
      note sc = submit_commit_simps [OF len2, of e w len prps lba nlb, unfolded at f(1)]
      have q: "rw_sqe (unit_st s2) w slot a1 a2 lba nlb = rw_sqe (unit_st s) w slot a1 a2 lba nlb" for a1 a2
        by (simp add: rw_sqe_def fields)
      let ?f = "stamped e (trace s2) (f\<lparr>inf_cmd_id := cid_of_slot slot\<rparr>)"
      have h: "held (f\<lparr>inf_cmd_id := cid_of_slot slot\<rparr>) = held f" "slot_ok (f\<lparr>inf_cmd_id := cid_of_slot slot\<rparr>) = slot_ok f"
        by (simp_all add: held_def slot_ok_def)
      from Inr sub have "rc = 0" "s' = submit_commit e w slot len prps lba nlb s2" by simp_all
      with Some Inr r f \<open>submit_check _ _ = Inr b\<close> b show ?thesis
        by (intro submitted [of slot lba nlb ?f evs prps]) (simp_all add: sc q h fields submit_commit_static io_frame_static [OF f(3)])
    qed
  qed
qed

text \<open>A submission conserves the ledger: the request entered it exactly when the code is 0.\<close>

lemma SubmitNoRing_ledger:
  assumes ok: "unit_ok (unit_st s)" and req: "req \<noteq> 0" and fl: "dma_flags_clear e"
    and res: "NVMeIO_SubmitNoRing e req w s = (rc, s')"
  shows "unit_ok (unit_st s')" and "balanced s s' (if rc = 0 then {#Tok_Req req#} else {#})"
proof -
  show "unit_ok (unit_st s')"
    using ok req fl res
  proof (cases rule: SubmitNoRing_cases)
    case (failed slot f evs)
    note free = find_free_slot_Some [OF ok failed(1)] and fields = io_frame_fields [OF failed(8)]
    show ?thesis
      by (rule unit_ok_slot_update [OF ok free(1) failed(5,4)])
        (use free failed ok in \<open>auto simp: fields unit_ok_def slot_of_def\<close>)
  next
    case (submitted slot lba nlb prps f evs)
    note free = find_free_slot_Some [OF ok submitted(1)]
    show ?thesis
      by (rule unit_ok_slot_update [OF ok free(1) submitted(11,6)])
        (use free submitted ok req in \<open>auto simp: unit_ok_def slot_of_def ring_next_less\<close>)
  qed (use ok in simp_all)
  show "balanced s s' (if rc = 0 then {#Tok_Req req#} else {#})"
    using ok req fl res
  proof (cases rule: SubmitNoRing_cases)
    case (failed slot f evs)
    note free = find_free_slot_Some [OF ok failed(1)]
    show ?thesis
      by (rule balanced_slot [OF free(2) failed(5,6)]) (use failed free in simp)
  next
    case (submitted slot lba nlb prps f evs)
    note free = find_free_slot_Some [OF ok submitted(1)]
    show ?thesis
      by (rule balanced_slot [OF free(2) submitted(11,10)]) (use submitted free in \<open>simp add: add.commute\<close>)
  qed (simp_all add: balanced_def)
qed

lemma Submit_ledger:
  assumes "unit_ok (unit_st s)" and "req \<noteq> 0" and "dma_flags_clear e"
    and "NVMeIO_Submit e req w s = (rc, s')"
  shows "unit_ok (unit_st s')" and "balanced s s' (if rc = 0 then {#Tok_Req req#} else {#})"
proof -
  obtain c t where c: "NVMeIO_SubmitNoRing e req w s = (c, t)" by fastforce
  with assms(4) have "rc = c" "s' = (if c = 0 then NVMeIO_RingSQ t else t)"
    by (auto simp: NVMeIO_Submit_def split: if_splits)
  with SubmitNoRing_ledger [OF assms(1-3) c]
  show "unit_ok (unit_st s')" and "balanced s s' (if rc = 0 then {#Tok_Req req#} else {#})" by auto
qed

section \<open>Commands without data\<close>

definition nodata_slot :: "env \<Rightarrow> event list \<Rightarrow> nat \<Rightarrow> u32 \<Rightarrow> bool \<Rightarrow> NVMeInflight \<Rightarrow> NVMeInflight" where
  "nodata_slot e tr slot req suppress f = stamped e tr (f\<lparr>
     inf_ioreq := req, inf_cmd_id := cid_of_slot slot, inf_is_write := False, inf_use_bounce := False,
     inf_dma_list := 0, inf_bounce_user_buf := 0, inf_bounce_user_len := 0, inf_suppress_reply := suppress\<rparr>)"

lemma nodata_slot_simps [simp]:
  "inf_ioreq (nodata_slot e tr slot req sr f) = req"
  "inf_suppress_reply (nodata_slot e tr slot req sr f) = sr"
  "inf_dma_list (nodata_slot e tr slot req sr f) = 0"
  "inf_cmd_id (nodata_slot e tr slot req sr f) = cid_of_slot slot"
  "req \<noteq> 0 \<Longrightarrow> slot_ok (nodata_slot e tr slot req sr f)"
  "req \<noteq> 0 \<Longrightarrow> held (nodata_slot e tr slot req sr f) = (if sr then {#} else {#Tok_Req req#})"
  by (simp_all add: nodata_slot_def slot_ok_def held_def)

text \<open>Reserve, write the entry, stamp, count, advance: the tail common to the two submitters.\<close>

lemma nodata_issue:
  assumes ok: "unit_ok (unit_st s)" and free: "find_free_slot s = Some slot" and req: "req \<noteq> 0"
    and g: "\<And>t. st_inflight_current (g t) = st_inflight_current t"
    and s': "s' = advance_tail (upd_stats (\<lambda>t. gauge_up (g t))
      (stamp_ticks e slot (put_sqe q (reserve_nodata slot req sr s))))"
  shows "unit_ok (unit_st s')" and "balanced s s' (if sr then {#} else {#Tok_Req req#})"
    and "inflight (unit_st s') = (inflight (unit_st s))[slot := nodata_slot e (trace s) slot req sr (slot_of s slot)]"
    and "trace s' = trace s" and "reqs s' = reqs s" and "scsis s' = scsis s" and "ctrl_st s' = ctrl_st s"
    and "sq_mem (ram s') = write_io_sqe (sq_mem (ram s)) (unat (io_sq_tail (unit_st s))) q"
    and "io_sq_tail (unit_st s') = ring_next (io_sq_tail (unit_st s)) (unat (queue_depth (unit_st s)))"
    and "static_of (unit_st s') = static_of (unit_st s)"
proof -
  note f = find_free_slot_Some [OF ok free]
  show i: "inflight (unit_st s') = (inflight (unit_st s))[slot := nodata_slot e (trace s) slot req sr (slot_of s slot)]"
    and t: "trace s' = trace s" and "reqs s' = reqs s" and "scsis s' = scsis s" and "ctrl_st s' = ctrl_st s"
    and "sq_mem (ram s') = write_io_sqe (sq_mem (ram s)) (unat (io_sq_tail (unit_st s))) q"
    and tl: "io_sq_tail (unit_st s') = ring_next (io_sq_tail (unit_st s)) (unat (queue_depth (unit_st s)))"
    and "static_of (unit_st s') = static_of (unit_st s)"
    using f(2)
    by (simp_all add: s' stamp_ticks_eq reserve_nodata_def nodata_slot_def slot_of_def)
      (simp_all add: effect_defs advance_tail_def put_sqe_def)
  have u: "queue_depth (unit_st s') = queue_depth (unit_st s)" "io_cq_head (unit_st s') = io_cq_head (unit_st s)"
    "st_inflight_current (stats (unit_st s')) = st_inflight_current (stats (unit_st s)) + 1"
    by (simp_all add: s' stamp_ticks_eq reserve_nodata_def g)
  show "unit_ok (unit_st s')"
    by (rule unit_ok_slot_update [OF ok f(1) i]) (use f ok req u tl in \<open>auto simp: unit_ok_def slot_of_def ring_next_less\<close>)
  show "balanced s s' (if sr then {#} else {#Tok_Req req#})"
    by (rule balanced_slot [OF f(2) i, where evs = "[]"]) (use t f req in simp_all)
qed

lemma Flush_cases:
  assumes ok: "unit_ok (unit_st s)" and req: "req \<noteq> 0" and res: "NVMeIO_Flush e req s = (rc, s')"
  obtains (full) "find_free_slot s = None" "rc = -1" "s' = s"
  | (issued) slot t where "find_free_slot s = Some slot" "rc = 0" "s' = NVMeIO_RingSQ t"
      "unit_ok (unit_st t)" "balanced s t {#Tok_Req req#}" "trace t = trace s"
      "inflight (unit_st t) = (inflight (unit_st s))[slot := nodata_slot e (trace s) slot req False (slot_of s slot)]"
      "reqs t = reqs s" "static_of (unit_st t) = static_of (unit_st s)"
      "sq_mem (ram t) = write_io_sqe (sq_mem (ram s)) (unat (io_sq_tail (unit_st s))) (flush_sqe (unit_st s) slot)"
      "io_sq_tail (unit_st t) = ring_next (io_sq_tail (unit_st s)) (unat (queue_depth (unit_st s)))"
proof (cases "find_free_slot s")
  case None
  with res show ?thesis by (intro full) (simp_all add: NVMeIO_Flush_def)
next
  case (Some slot)
  have q: "flush_sqe (unit_st (reserve_nodata slot req False s)) slot = flush_sqe (unit_st s) slot"
    by (simp add: flush_sqe_def reserve_nodata_def)
  define t where "t = advance_tail (upd_stats (\<lambda>t. gauge_up (t\<lparr>st_flushes := st_flushes t + 1\<rparr>))
      (stamp_ticks e slot (put_sqe (flush_sqe (unit_st s) slot) (reserve_nodata slot req False s))))"
  have eq: "rc = 0" "s' = NVMeIO_RingSQ t"
    using res Some by (simp_all add: NVMeIO_Flush_def Let_def q t_def)
  have g: "st_inflight_current (x\<lparr>st_flushes := st_flushes x + 1\<rparr>) = st_inflight_current x" for x by simp
  note i = nodata_issue [OF ok Some req g t_def]
  show ?thesis by (rule issued [OF Some eq i(1) _ i(4,3,5,10,8,9)]) (use i(2) in simp)
qed

lemma Flush_ledger:
  assumes "unit_ok (unit_st s)" and "req \<noteq> 0" and "NVMeIO_Flush e req s = (rc, s')"
  shows "unit_ok (unit_st s')" and "balanced s s' (if rc = 0 then {#Tok_Req req#} else {#})"
proof -
  have "unit_ok (unit_st s') \<and> balanced s s' (if rc = 0 then {#Tok_Req req#} else {#})"
    using assms by (cases rule: Flush_cases) (simp_all add: assms(1))
  then show "unit_ok (unit_st s')" and "balanced s s' (if rc = 0 then {#Tok_Req req#} else {#})" by simp_all
qed

end
