(* ===== verification/Nvme_Harvest.thy ===== *)
theory Nvme_Harvest
  imports Nvme_IO
begin

text \<open>
  Completion (src/src/nvme/nvme_io.c, \<open>NVMeIO_Harvest\<close>) and the synchronous submission
  built on it (\<open>NVMeIO_SubmitAndWait\<close>).

  The device acts through \<open>e_device\<close> when a drain starts. The drain reads an entry of the
  queue at most once before it stops, so the memory the device presents is the contents
  each entry, and the buffers behind it, have when the driver reads them: entries posted
  while the loop runs are part of it, later ones belong to the next drain.
\<close>

section \<open>One completion\<close>

definition gauge_down :: "NVMeUnitStats \<Rightarrow> NVMeUnitStats" where
  "gauge_down t =
     (if st_inflight_current t > 0 then t\<lparr>st_inflight_current := st_inflight_current t - 1\<rparr> else t)"

definition count_error :: "ioerr \<Rightarrow> NVMeUnitStats \<Rightarrow> NVMeUnitStats" where
  "count_error err t =
     (if err = IOERR_ABORTED then t\<lparr>st_err_abort := st_err_abort t + 1\<rparr>
      else t\<lparr>st_err_status := st_err_status t + 1\<rparr>)"

definition add_latency :: "u64 \<Rightarrow> u64 \<Rightarrow> NVMeUnitStats \<Rightarrow> NVMeUnitStats" where
  "add_latency nowv subv t =
     (if subv \<le> nowv then
        let elapsed = nowv - subv;
            t1 = t\<lparr>st_total_io_ticks := st_total_io_ticks t + elapsed\<rparr>
        in if elapsed > st_max_io_ticks t1 then t1\<lparr>st_max_io_ticks := elapsed\<rparr> else t1
      else t)"

definition submit_ticks :: "NVMeInflight \<Rightarrow> u64" where
  "submit_ticks f = push_bit 32 (ucast (inf_submit_ticks_hi f)) OR ucast (inf_submit_ticks_lo f)"

text \<open>Give the pin of a direct transfer back.\<close>

definition release_dma :: "nat \<Rightarrow> drv \<Rightarrow> drv" where
  "release_dma slot s =
     (let f = slot_of s slot in
      if inf_dma_list f = 0 then s
      else upd_slot slot (\<lambda>g. g\<lparr>inf_dma_list := 0\<rparr>)
             (end_dma (inf_dma_buf f) (inf_dma_size f) (inf_dma_flags f AND NOT POOL_MARK)
               (inf_dma_flags f AND POOL_MARK \<noteq> 0) (inf_dma_list f) s))"

definition harvest_cleanup :: "env \<Rightarrow> nat \<Rightarrow> ioerr \<Rightarrow> drv \<Rightarrow> drv" where
  "harvest_cleanup e slot ioerr s =
     (let f = slot_of s slot in
      if inf_use_bounce f then
        (if \<not> inf_is_write f \<and> ioerr = IO_OK \<and> inf_bounce_user_buf f \<noteq> 0
         then upd_ram (\<lambda>m. m\<lparr>mem := e_CopyMem_out e (bounce_mem m slot) (mem m)
                (inf_bounce_user_buf f) (inf_bounce_user_len f)\<rparr>) s
         else s)
      else release_dma slot s)"

definition harvest_complete :: "env \<Rightarrow> nat \<Rightarrow> u16 \<Rightarrow> drv \<Rightarrow> drv" where
  "harvest_complete e slot status s =
     (let req = inf_ioreq (slot_of s slot);
          ioerr = NVMe_StatusToIOErr status;
          s1 = (if ioerr = IO_OK
                then upd_req req (\<lambda>r. r\<lparr>io_Error := IO_OK, io_Actual := io_Length r\<rparr>) s
                else upd_stats (count_error ioerr)
                       (upd_req req (\<lambda>r. r\<lparr>io_Error := ioerr, io_Actual := 0\<rparr>) s));
          s2 = upd_stats (add_latency (e_tbr e (trace s1)) (submit_ticks (slot_of s1 slot))) s1;
          s3 = upd_stats gauge_down s2;
          s4 = harvest_cleanup e slot ioerr s3;
          was_suppressed = inf_suppress_reply (slot_of s4 slot);
          s5 = upd_slot slot (\<lambda>f. f\<lparr>inf_suppress_reply := False, inf_ioreq := 0\<rparr>) s4
      in if was_suppressed then s5 else ReplyMsg req s5)"

section \<open>The drain\<close>

definition advance_cq :: "drv \<Rightarrow> drv" where
  "advance_cq s =
     (let s1 = upd_unit (\<lambda>u. u\<lparr>io_cq_head := ring_next (io_cq_head u) (unat (queue_depth u))\<rparr>) s;
          s2 = (if io_cq_head (unit_st s1) = 0
                then upd_unit (\<lambda>u. u\<lparr>io_cq_phase := io_cq_phase u XOR 1\<rparr>) s1 else s1)
      in nvme_w32 (iobase (ctrl_st s2) + NVME_CQ_HEAD_DB (ucast (queue_id (unit_st s2))) (cap_dstrd (ctrl_st s2)))
           (ucast (io_cq_head (unit_st s2))) s2)"

definition cq_status :: "drv \<Rightarrow> u16" where
  "cq_status s = cqe_status (cq_mem (ram s)) (unat (io_cq_head (unit_st s)))"

definition cq_cid :: "drv \<Rightarrow> u16" where
  "cq_cid s = cqe_cid (cq_mem (ram s)) (unat (io_cq_head (unit_st s)))"

definition cq_ready :: "drv \<Rightarrow> bool" where
  "cq_ready s \<longleftrightarrow> NVME_CQE_PHASE (cq_status s) = ucast (io_cq_phase (unit_st s))"

text \<open>The slot of a command identifier, if an occupied slot answers to it.\<close>

definition cid_slot :: "u16 \<Rightarrow> drv \<Rightarrow> nat option" where
  "cid_slot cid s =
     (if cid = 0 \<or> unat cid - 1 \<ge> NVME_MAX_INFLIGHT \<or> inf_ioreq (slot_of s (unat cid - 1)) = 0
      then None else Some (unat cid - 1))"

definition harvest_entry :: "env \<Rightarrow> drv \<Rightarrow> drv" where
  "harvest_entry e s =
     (let status = cq_status s; cid = cq_cid s; s1 = advance_cq s in
      case cid_slot cid s1 of None \<Rightarrow> s1 | Some slot \<Rightarrow> harvest_complete e slot status s1)"

text \<open>
  The loop. A depth of 0 would trap in the index arithmetic; no unit has it, and the model
  stops there.
\<close>

function harvest_drain :: "env \<Rightarrow> drv \<Rightarrow> drv" where
  "harvest_drain e s =
     (if queue_depth (unit_st s) \<noteq> 0 \<and> cq_ready s then harvest_drain e (harvest_entry e s) else s)"
  by pat_completeness auto

section \<open>Projections\<close>

lemma gauge_simps [simp]:
  "st_inflight_current (count_error err t) = st_inflight_current t"
  "st_inflight_current (add_latency a b t) = st_inflight_current t"
  by (simp_all add: count_error_def add_latency_def Let_def)

lemma advance_cq_simps [simp]:
  "ram (advance_cq s) = ram s" "reqs (advance_cq s) = reqs s" "scsis (advance_cq s) = scsis s"
  "ctrl_st (advance_cq s) = ctrl_st s"
  "inflight (unit_st (advance_cq s)) = inflight (unit_st s)"
  "queue_depth (unit_st (advance_cq s)) = queue_depth (unit_st s)"
  "io_sq_tail (unit_st (advance_cq s)) = io_sq_tail (unit_st s)"
  "stats (unit_st (advance_cq s)) = stats (unit_st s)"
  "io_cq_head (unit_st (advance_cq s)) = ring_next (io_cq_head (unit_st s)) (unat (queue_depth (unit_st s)))"
  "io_cq_phase (unit_st (advance_cq s)) = (if ring_next (io_cq_head (unit_st s)) (unat (queue_depth (unit_st s))) = 0
     then io_cq_phase (unit_st s) XOR 1 else io_cq_phase (unit_st s))"
  "slot_of (advance_cq s) i = slot_of s i" "static_of (unit_st (advance_cq s)) = static_of (unit_st s)"
  "trace (advance_cq s) = trace s @ [EvW32 (iobase (ctrl_st s) + NVME_CQ_HEAD_DB (ucast (queue_id (unit_st s)))
     (cap_dstrd (ctrl_st s))) (ucast (ring_next (io_cq_head (unit_st s)) (unat (queue_depth (unit_st s)))))]"
  by (simp_all add: advance_cq_def Let_def slot_of_def)

text \<open>What a completion does to the slots and the ledger, and what it leaves alone.\<close>

lemma end_dma_simps [simp]:
  "unit_st (end_dma b n fl pool p s) = unit_st s" "ram (end_dma b n fl pool p s) = ram s"
  "reqs (end_dma b n fl pool p s) = reqs s" "scsis (end_dma b n fl pool p s) = scsis s"
  "ctrl_st (end_dma b n fl pool p s) = ctrl_st s"
  "trace (end_dma b n fl pool p s) = trace s @ (EvEndDMA b n fl # (if pool then [] else [EvFreeEntries p]))"
  by (simp_all add: end_dma_def Let_def)

definition released :: "NVMeInflight \<Rightarrow> event list" where
  "released f = (if inf_dma_list f = 0 then []
     else EvEndDMA (inf_dma_buf f) (inf_dma_size f) (inf_dma_flags f AND NOT POOL_MARK)
       # (if inf_dma_flags f AND POOL_MARK \<noteq> 0 then [] else [EvFreeEntries (inf_dma_list f)]))"

lemma released_ins [simp]: "ins (released f) = {#}"
  by (simp add: released_def)

lemma held_released: "held f = outs (released f) + held (f\<lparr>inf_dma_list := 0\<rparr>)"
  by (simp add: held_def released_def ac_simps)

lemma held_no_list:
  "held (f\<lparr>inf_dma_list := 0\<rparr>) = (if inf_ioreq f \<noteq> 0 \<and> \<not> inf_suppress_reply f then {#Tok_Req (inf_ioreq f)#} else {#})"
  by (simp add: held_def)

lemma no_list_eq: "inf_dma_list f = 0 \<Longrightarrow> f\<lparr>inf_dma_list := 0\<rparr> = f"
  by (cases f) simp

lemma release_dma_simps:
  "trace (release_dma slot s) = trace s @ released (slot_of s slot)"
  "inflight (unit_st (release_dma slot s)) = (inflight (unit_st s))[slot := (slot_of s slot)\<lparr>inf_dma_list := 0\<rparr>]"
  "ram (release_dma slot s) = ram s" "reqs (release_dma slot s) = reqs s"
  "scsis (release_dma slot s) = scsis s" "ctrl_st (release_dma slot s) = ctrl_st s"
  "io_frame (unit_st s) (unit_st (release_dma slot s))"
  by (simp_all add: release_dma_def Let_def released_def no_list_eq io_frame_def)
    (simp_all add: slot_of_def no_list_eq)

text \<open>A completion only touches the slot, the statistics and CPU memory of the unit.\<close>

lemma cleanup_simps:
  assumes "slot_ok (slot_of s slot)"
  shows "trace (harvest_cleanup e slot err s) = trace s @ released (slot_of s slot)"
  "inflight (unit_st (harvest_cleanup e slot err s)) = (inflight (unit_st s))[slot := (slot_of s slot)\<lparr>inf_dma_list := 0\<rparr>]"
  "cq_mem (ram (harvest_cleanup e slot err s)) = cq_mem (ram s)"
  "reqs (harvest_cleanup e slot err s) = reqs s" "scsis (harvest_cleanup e slot err s) = scsis s"
  "ctrl_st (harvest_cleanup e slot err s) = ctrl_st s"
  "io_frame (unit_st s) (unit_st (harvest_cleanup e slot err s))"
proof -
  have b: "inf_dma_list (slot_of s slot) = 0" if "inf_use_bounce (slot_of s slot)"
    using assms that by (simp add: slot_ok_def)
  then have "(inflight (unit_st s))[slot := (slot_of s slot)\<lparr>inf_dma_list := 0\<rparr>] = inflight (unit_st s)"
    if "inf_use_bounce (slot_of s slot)"
    unfolding slot_of_def using that by (subst no_list_eq) (simp_all add: slot_of_def)
  with b show "trace (harvest_cleanup e slot err s) = trace s @ released (slot_of s slot)"
    "inflight (unit_st (harvest_cleanup e slot err s)) = (inflight (unit_st s))[slot := (slot_of s slot)\<lparr>inf_dma_list := 0\<rparr>]"
    by (simp_all add: harvest_cleanup_def Let_def release_dma_simps released_def)
qed (simp_all add: harvest_cleanup_def Let_def release_dma_simps)

text \<open>The request after its completion, the slot after it is freed.\<close>

definition completed :: "u16 \<Rightarrow> IOStdReq \<Rightarrow> IOStdReq" where
  "completed status r = r\<lparr>io_Error := NVMe_StatusToIOErr status,
     io_Actual := (if NVMe_StatusToIOErr status = IO_OK then io_Length r else 0)\<rparr>"

definition freed :: "NVMeInflight \<Rightarrow> NVMeInflight" where
  "freed f = f\<lparr>inf_dma_list := 0, inf_suppress_reply := False, inf_ioreq := 0\<rparr>"

lemma freed_simps [simp]: "inf_ioreq (freed f) = 0" "slot_ok (freed f)" "held (freed f) = {#}"
  by (simp_all add: freed_def slot_ok_def held_def)

lemma harvest_complete_simps:
  assumes "slot_ok (slot_of s slot)" and "slot < length (inflight (unit_st s))"
  shows "trace (harvest_complete e slot st s) = trace s @ released (slot_of s slot) @
      (if inf_suppress_reply (slot_of s slot) then [] else [EvReply (inf_ioreq (slot_of s slot))])"
  "inflight (unit_st (harvest_complete e slot st s)) = (inflight (unit_st s))[slot := freed (slot_of s slot)]"
  "cq_mem (ram (harvest_complete e slot st s)) = cq_mem (ram s)"
  "reqs (harvest_complete e slot st s) = (reqs s)(inf_ioreq (slot_of s slot) := completed st (reqs s (inf_ioreq (slot_of s slot))))"
  "scsis (harvest_complete e slot st s) = scsis s"
  "ctrl_st (harvest_complete e slot st s) = ctrl_st s"
  "st_inflight_current (stats (unit_st (harvest_complete e slot st s))) =
     st_inflight_current (gauge_down (stats (unit_st s)))"
  "unit_st (harvest_complete e slot st s) = (unit_st s)\<lparr>inflight := inflight (unit_st (harvest_complete e slot st s)),
     stats := stats (unit_st (harvest_complete e slot st s))\<rparr>"
proof -
  define err where "err = NVMe_StatusToIOErr st"
  define s1 where "s1 = (if err = IO_OK
                then upd_req (inf_ioreq (slot_of s slot)) (\<lambda>r. r\<lparr>io_Error := IO_OK, io_Actual := io_Length r\<rparr>) s
                else upd_stats (count_error err)
                       (upd_req (inf_ioreq (slot_of s slot)) (\<lambda>r. r\<lparr>io_Error := err, io_Actual := 0\<rparr>) s))"
  define s3 where "s3 = upd_stats gauge_down (upd_stats (add_latency (e_tbr e (trace s1)) (submit_ticks (slot_of s1 slot))) s1)"
  define s4 where "s4 = harvest_cleanup e slot err s3"
  have three: "slot_of s3 slot = slot_of s slot" "trace s3 = trace s" "cq_mem (ram s3) = cq_mem (ram s)"
      "scsis s3 = scsis s" "ctrl_st s3 = ctrl_st s" "inflight (unit_st s3) = inflight (unit_st s)"
      "unit_st s3 = (unit_st s)\<lparr>stats := stats (unit_st s3)\<rparr>"
      "reqs s3 = (reqs s)(inf_ioreq (slot_of s slot) := completed st (reqs s (inf_ioreq (slot_of s slot))))"
    by (simp_all add: s3_def s1_def slot_of_def completed_def err_def [symmetric])
  have g: "st_inflight_current (stats (unit_st s3)) = st_inflight_current (gauge_down (stats (unit_st s)))"
    by (simp add: s3_def s1_def gauge_down_def)
  have "slot_ok (slot_of s3 slot)" using assms(1) three(1) by simp
  note four = cleanup_simps [OF this, of e err, folded s4_def]
  have keep: "slot_of s4 slot = (slot_of s slot)\<lparr>inf_dma_list := 0\<rparr>"
    using four(2) three assms(2) by (simp add: slot_of_def)
  have u4: "unit_st s4 = (unit_st s)\<lparr>inflight := inflight (unit_st s4), stats := stats (unit_st s4)\<rparr>"
    using four(7) three(7) unfolding io_frame_def
    by (cases "unit_st s"; cases "unit_st s3"; cases "unit_st s4") simp
  have eq: "harvest_complete e slot st s = (let s5 = upd_slot slot (\<lambda>f. f\<lparr>inf_suppress_reply := False, inf_ioreq := 0\<rparr>) s4
      in if inf_suppress_reply (slot_of s slot) then s5 else ReplyMsg (inf_ioreq (slot_of s slot)) s5)"
    by (simp add: harvest_complete_def Let_def err_def [symmetric] s1_def [symmetric] keep
      flip: s3_def s4_def)
  show "trace (harvest_complete e slot st s) = trace s @ released (slot_of s slot) @
      (if inf_suppress_reply (slot_of s slot) then [] else [EvReply (inf_ioreq (slot_of s slot))])"
    using four three by (simp add: eq Let_def)
  show "inflight (unit_st (harvest_complete e slot st s)) = (inflight (unit_st s))[slot := freed (slot_of s slot)]"
    using four three keep by (simp add: eq Let_def freed_def slot_of_def)
  show "cq_mem (ram (harvest_complete e slot st s)) = cq_mem (ram s)"
    "reqs (harvest_complete e slot st s) = (reqs s)(inf_ioreq (slot_of s slot) := completed st (reqs s (inf_ioreq (slot_of s slot))))"
    "scsis (harvest_complete e slot st s) = scsis s"
    "ctrl_st (harvest_complete e slot st s) = ctrl_st s"
    using four three by (simp_all add: eq Let_def)
  show "st_inflight_current (stats (unit_st (harvest_complete e slot st s))) =
     st_inflight_current (gauge_down (stats (unit_st s)))"
    using g io_frame_fields(13) [OF four(7)] by (simp add: eq Let_def)
  show "unit_st (harvest_complete e slot st s) = (unit_st s)\<lparr>inflight := inflight (unit_st (harvest_complete e slot st s)),
     stats := stats (unit_st (harvest_complete e slot st s))\<rparr>"
    using u4 by (cases "unit_st s"; cases "unit_st s4") (simp add: eq Let_def)
qed

section \<open>One iteration\<close>

lemma cid_slot_Some:
  assumes "cid_slot cid s = Some i"
  shows "i < NVME_MAX_INFLIGHT" "inf_ioreq (slot_of s i) \<noteq> 0" "cid = of_nat (i + 1)"
proof -
  have c: "cid \<noteq> 0" "unat cid - 1 < NVME_MAX_INFLIGHT" "inf_ioreq (slot_of s (unat cid - 1)) \<noteq> 0" "i = unat cid - 1"
    using assms by (auto simp: cid_slot_def split: if_splits)
  show "i < NVME_MAX_INFLIGHT" "inf_ioreq (slot_of s i) \<noteq> 0" using c by simp_all
  have "0 < unat cid" using c(1) by (simp add: unat_gt_0)
  then have "of_nat (i + 1) = (of_nat (unat cid) :: u16)" using c(4) by simp
  then show "cid = of_nat (i + 1)" by simp
qed

text \<open>Without the invariant: what every iteration keeps, for the termination of the loop.\<close>

lemma harvest_complete_ring:
  "cq_mem (ram (harvest_complete e slot st s)) = cq_mem (ram s)"
  "queue_depth (unit_st (harvest_complete e slot st s)) = queue_depth (unit_st s)"
  "io_cq_head (unit_st (harvest_complete e slot st s)) = io_cq_head (unit_st s)"
  "io_cq_phase (unit_st (harvest_complete e slot st s)) = io_cq_phase (unit_st s)"
  by (simp_all add: harvest_complete_def harvest_cleanup_def release_dma_def Let_def)

lemma harvest_entry_ring:
  "cq_mem (ram (harvest_entry e s)) = cq_mem (ram s)"
  "queue_depth (unit_st (harvest_entry e s)) = queue_depth (unit_st s)"
  "io_cq_head (unit_st (harvest_entry e s)) = ring_next (io_cq_head (unit_st s)) (unat (queue_depth (unit_st s)))"
  "io_cq_phase (unit_st (harvest_entry e s)) = (if ring_next (io_cq_head (unit_st s)) (unat (queue_depth (unit_st s))) = 0
     then io_cq_phase (unit_st s) XOR 1 else io_cq_phase (unit_st s))"
  by (simp_all add: harvest_entry_def Let_def harvest_complete_ring split: option.splits)

text \<open>
  The measure: the entries left in this round, plus one more round if the phase of entry 0
  is not yet the expected one. An entry 0 that does not match stops the loop.
\<close>

definition phase0 :: "drv \<Rightarrow> bool" where
  "phase0 s \<longleftrightarrow> NVME_CQE_PHASE (cqe_status (cq_mem (ram s)) 0) = ucast (io_cq_phase (unit_st s))"

definition drain_measure :: "drv \<Rightarrow> nat" where
  "drain_measure s =
     (let d = unat (queue_depth (unit_st s)); h = unat (io_cq_head (unit_st s)) in
      if d \<le> h then 3 * d + 3
      else if h = 0 \<and> \<not> phase0 s then 0
      else (if phase0 s then 0 else d + 1) + (d - h))"

lemma phase_flip_u16:
  "NVME_CQE_PHASE a = ucast (p :: u8) \<Longrightarrow>
     (NVME_CQE_PHASE b = ucast (p XOR 1)) = (\<not> NVME_CQE_PHASE b = ucast p)"
proof -
  assume a: "NVME_CQE_PHASE a = ucast p"
  have "p = 0 \<or> p = 1"
  proof -
    have "ucast (ucast p :: u16) = p" by (rule bit_word_eqI) (simp add: bit_simps)
    then show ?thesis using a phase_is_bit [of a] by (metis ucast_0 ucast_1)
  qed
  then show ?thesis using phase_is_bit [of b] by auto
qed

lemma drain_decreases:
  assumes d: "queue_depth (unit_st s) \<noteq> 0" and r: "cq_ready s"
  shows "drain_measure (harvest_entry e s) < drain_measure s"
proof -
  define d where "d = unat (queue_depth (unit_st s))"
  define h where "h = unat (io_cq_head (unit_st s))"
  have dpos: "0 < d" "d \<le> 65536" using assms(1) u16_bound [of "queue_depth (unit_st s)"]
    by (simp_all add: d_def unat_gt_0 del: u16_bound)
  have h': "unat (ring_next (io_cq_head (unit_st s)) d) = (h + 1) mod d"
    using dpos by (simp add: unat_ring_next h_def)
  have z: "ring_next (io_cq_head (unit_st s)) d = 0 \<longleftrightarrow> (h + 1) mod d = 0"
    using h' by (metis unat_0 unsigned_eq_0_iff)
  have ph: "phase0 (harvest_entry e s) = (if (h + 1) mod d = 0 then \<not> phase0 s else phase0 s)"
    using r phase_flip_u16 [of "cq_status s" "io_cq_phase (unit_st s)" "cqe_status (cq_mem (ram s)) 0"]
    by (simp add: phase0_def harvest_entry_ring cq_ready_def z flip: d_def)
  have lt: "(h + 1) mod d < d" using dpos by simp
  have m': "drain_measure (harvest_entry e s) =
      (if (h + 1) mod d = 0 \<and> \<not> phase0 (harvest_entry e s) then 0
       else (if phase0 (harvest_entry e s) then 0 else d + 1) + (d - (h + 1) mod d))"
    using lt by (simp add: drain_measure_def Let_def harvest_entry_ring h' flip: d_def)
  have m: "drain_measure s = (if d \<le> h then 3 * d + 3 else if h = 0 \<and> \<not> phase0 s then 0
      else (if phase0 s then 0 else d + 1) + (d - h))"
    by (simp add: drain_measure_def Let_def d_def h_def)
  have zero: "phase0 s" if "h = 0"
    using r that unfolding phase0_def cq_ready_def cq_status_def by (simp add: h_def)
  consider "d \<le> h" | "h < d" "h + 1 = d" | "h + 1 < d" by linarith
  then show ?thesis
    by cases (use m m' ph zero lt dpos in \<open>auto split: if_splits\<close>)
qed

termination harvest_drain
  by (relation "measure (\<lambda>(e, s). drain_measure s)") (auto simp: drain_decreases)

declare harvest_drain.simps [simp del]

definition NVMeIO_Harvest :: "env \<Rightarrow> drv \<Rightarrow> drv" where
  "NVMeIO_Harvest e s = harvest_drain e (upd_ram (e_device e (trace s)) s)"

section \<open>What a drain keeps\<close>

text \<open>
  \<open>io_kept s0 s\<close>: from \<open>s0\<close> to \<open>s\<close> the unit only consumed completions. The invariant holds,
  the ledger is balanced with nothing new, a slot is as before or freed, a request keeps
  everything but \<open>io_Error\<close> and \<open>io_Actual\<close>, and all of it if it is in no slot.
\<close>

definition cleared :: "drv \<Rightarrow> drv \<Rightarrow> bool" where
  "cleared s0 s \<longleftrightarrow> (\<forall>i<NVME_MAX_INFLIGHT. slot_of s i = slot_of s0 i \<or>
     (inf_ioreq (slot_of s0 i) \<noteq> 0 \<and> slot_of s i = freed (slot_of s0 i)))"

definition req_kept :: "drv \<Rightarrow> drv \<Rightarrow> bool" where
  "req_kept s0 s \<longleftrightarrow> (\<forall>r. io_Length (reqs s r) = io_Length (reqs s0 r) \<and> io_Data (reqs s r) = io_Data (reqs s0 r)
      \<and> io_Offset (reqs s r) = io_Offset (reqs s0 r) \<and> io_Command (reqs s r) = io_Command (reqs s0 r)
      \<and> (r \<noteq> 0 \<and> (\<forall>i<NVME_MAX_INFLIGHT. inf_ioreq (slot_of s0 i) \<noteq> r) \<longrightarrow> reqs s r = reqs s0 r))"

definition io_kept :: "drv \<Rightarrow> drv \<Rightarrow> bool" where
  "io_kept s0 s \<longleftrightarrow> unit_ok (unit_st s) \<and> balanced s0 s {#} \<and> cleared s0 s \<and> req_kept s0 s \<and>
     scsis s = scsis s0 \<and> ctrl_st s = ctrl_st s0 \<and> io_sq_tail (unit_st s) = io_sq_tail (unit_st s0) \<and>
     queue_depth (unit_st s) = queue_depth (unit_st s0) \<and> static_of (unit_st s) = static_of (unit_st s0)"

lemma io_kept_refl: "unit_ok (unit_st s) \<Longrightarrow> io_kept s s"
  by (simp add: io_kept_def cleared_def req_kept_def)

lemma cleared_empty: "cleared s t \<Longrightarrow> i < NVME_MAX_INFLIGHT \<Longrightarrow> inf_ioreq (slot_of t i) \<noteq> 0 \<Longrightarrow>
    slot_of t i = slot_of s i"
  by (auto simp: cleared_def)

lemma io_kept_trans:
  assumes a: "io_kept s t" and b: "io_kept t u"
  shows "io_kept s u"
proof -
  have c: "cleared s u"
    unfolding cleared_def
  proof (intro allI impI)
    fix i assume i: "i < NVME_MAX_INFLIGHT"
    then have "slot_of t i = slot_of s i \<or> inf_ioreq (slot_of s i) \<noteq> 0 \<and> slot_of t i = freed (slot_of s i)"
      and "slot_of u i = slot_of t i \<or> inf_ioreq (slot_of t i) \<noteq> 0 \<and> slot_of u i = freed (slot_of t i)"
      using a b by (simp_all add: io_kept_def cleared_def)
    then show "slot_of u i = slot_of s i \<or> inf_ioreq (slot_of s i) \<noteq> 0 \<and> slot_of u i = freed (slot_of s i)"
      by (elim disjE conjE) simp_all
  qed
  have r: "req_kept s u"
    unfolding req_kept_def
  proof (intro allI conjI impI)
    fix r
    assume n: "r \<noteq> 0 \<and> (\<forall>i<NVME_MAX_INFLIGHT. inf_ioreq (slot_of s i) \<noteq> r)"
    have "inf_ioreq (slot_of t i) \<noteq> r" if i: "i < NVME_MAX_INFLIGHT" for i
    proof -
      have "slot_of t i = slot_of s i \<or> slot_of t i = freed (slot_of s i)"
        using a i by (auto simp: io_kept_def cleared_def)
      then show ?thesis using n i by (elim disjE) simp_all
    qed
    then have "reqs u r = reqs t r" using b n by (simp add: io_kept_def req_kept_def)
    then show "reqs u r = reqs s r" using a n by (simp add: io_kept_def req_kept_def)
  qed (use a b in \<open>simp_all add: io_kept_def req_kept_def\<close>)
  show ?thesis
    using a b c r balanced_trans0 [of s t "{#}" u] by (simp add: io_kept_def)
qed

lemma harvest_complete_kept:
  assumes ok: "unit_ok (unit_st s)" and i: "i < NVME_MAX_INFLIGHT" and occ: "inf_ioreq (slot_of s i) \<noteq> 0"
  shows "io_kept s (harvest_complete e i st s)"
proof -
  have so: "slot_ok (slot_of s i)" and len: "i < length (inflight (unit_st s))"
    using unit_ok_slot [OF ok i] ok i by (simp_all add: unit_ok_def)
  let ?t = "harvest_complete e i st s"
  note h = harvest_complete_simps [OF so len, of e st]
  have u: "queue_depth (unit_st ?t) = queue_depth (unit_st s)" "io_sq_tail (unit_st ?t) = io_sq_tail (unit_st s)"
      "io_cq_head (unit_st ?t) = io_cq_head (unit_st s)" "static_of (unit_st ?t) = static_of (unit_st s)"
    by (subst h(8), simp)+
  have "0 < st_inflight_current (stats (unit_st s))"
    using gauge_pos [OF ok i] occ by (simp add: slot_of_def)
  then have g: "st_inflight_current (stats (unit_st ?t)) + 1 = st_inflight_current (stats (unit_st s))"
    by (simp add: h(7) gauge_down_def)
  have 1: "unit_ok (unit_st ?t)"
    by (rule unit_ok_slot_update [OF ok i h(2)])
      (use u g occ ok in \<open>auto simp: unit_ok_def slot_of_def\<close>)
  have "held (slot_of s i) = outs (released (slot_of s i)) + held ((slot_of s i)\<lparr>inf_dma_list := 0\<rparr>)"
    by (rule held_released)
  then have 2: "balanced s ?t {#}"
    by (intro balanced_slot [OF len h(2,1)]) (use occ in \<open>simp add: held_no_list\<close>)
  have sl: "slot_of ?t j = (if j = i then freed (slot_of s i) else slot_of s j)" if "j < NVME_MAX_INFLIGHT" for j
    using len that h(2) by (simp add: slot_of_def)
  show ?thesis
    using 1 2 occ i by (auto simp: io_kept_def cleared_def req_kept_def sl u h(4,5,6) completed_def)
qed

lemma advance_cq_kept: "unit_ok (unit_st s) \<Longrightarrow> io_kept s (advance_cq s)"
  by (auto simp: io_kept_def cleared_def req_kept_def unit_ok_def ring_next_less word_gt_0 intro!: balanced_same)

lemma harvest_entry_kept:
  assumes "unit_ok (unit_st s)"
  shows "io_kept s (harvest_entry e s)"
proof -
  have a: "io_kept s (advance_cq s)" by (rule advance_cq_kept [OF assms])
  then have ok: "unit_ok (unit_st (advance_cq s))" by (simp add: io_kept_def)
  show ?thesis
  proof (cases "cid_slot (cq_cid s) (advance_cq s)")
    case None
    with a show ?thesis by (simp add: harvest_entry_def Let_def)
  next
    case (Some i)
    note c = cid_slot_Some [OF Some]
    show ?thesis
      using io_kept_trans [OF a harvest_complete_kept [OF ok c(1,2)]] Some
      by (simp add: harvest_entry_def Let_def)
  qed
qed

lemma harvest_drain_kept: "unit_ok (unit_st s) \<Longrightarrow> io_kept s (harvest_drain e s)"
proof (induction e s rule: harvest_drain.induct)
  case (1 e s)
  note k = harvest_entry_kept [OF "1.prems", of e]
  then have "unit_ok (unit_st (harvest_entry e s))" by (simp add: io_kept_def)
  with 1 k show ?case
    by (subst harvest_drain.simps) (auto intro: io_kept_trans io_kept_refl)
qed

lemma device_kept: "unit_ok (unit_st s) \<Longrightarrow> io_kept s (upd_ram f s)"
  by (simp add: io_kept_def cleared_def req_kept_def slot_of_def balanced_def)

text \<open>For every behaviour of the device.\<close>

lemma Harvest_kept: "unit_ok (unit_st s) \<Longrightarrow> io_kept s (NVMeIO_Harvest e s)"
  unfolding NVMeIO_Harvest_def
  by (rule io_kept_trans [OF device_kept harvest_drain_kept]) simp_all

section \<open>The queue as a counter\<close>

text \<open>
  The completion queue interface of the prelude, on the code's own advance: the head and
  the expected phase are the image of one counter of consumed entries.
\<close>

interpretation io_cq: cq_ring "\<lambda>s. io_cq_head (unit_st s)" "\<lambda>s. io_cq_phase (unit_st s)"
    "Suc (unat (n :: u16))" "harvest_entry e" "\<lambda>s. unat (queue_depth (unit_st s)) = Suc (unat n)" for n e
  using u16_bound by unfold_locales (simp_all add: harvest_entry_ring Suc_le_eq less_Suc_eq_le [symmetric])

definition cq_at :: "nat \<Rightarrow> nat \<Rightarrow> drv \<Rightarrow> bool" where
  "cq_at d n s \<longleftrightarrow> unat (queue_depth (unit_st s)) = d \<and> unat (io_cq_head (unit_st s)) = n mod d \<and>
     io_cq_phase (unit_st s) = (if even (n div d) then 1 else 0)"

lemma cq_at_entries:
  assumes "cq_at d n s" and "0 < d"
  shows "cq_at d (n + k) ((harvest_entry e ^^ k) s)"
proof -
  have "d \<le> 65535" using assms(1) u16_bound [of "queue_depth (unit_st s)"] by (simp add: cq_at_def del: u16_bound)
  then have "unat (of_nat (d - 1) :: u16) = d - 1" by (intro unat_of_nat_small) simp
  then have "Suc (unat (of_nat (d - 1) :: u16)) = d" using assms(2) by simp
  then obtain m :: u16 where d: "Suc (unat m) = d" by blast
  have "io_cq.at m n s" using assms(1) unfolding io_cq.at_def by (simp add: cq_at_def d)
  from io_cq.at_advances [OF this, of k e] show ?thesis unfolding io_cq.at_def by (simp add: cq_at_def d)
qed

lemma entries_mem: "cq_mem (ram ((harvest_entry e ^^ k) s)) = cq_mem (ram s)"
  by (induction k) (simp_all add: harvest_entry_ring)

text \<open>Entry \<open>j\<close> of the stream is there: its phase bit is the parity of its round.\<close>

definition posted :: "buf \<Rightarrow> nat \<Rightarrow> nat \<Rightarrow> bool" where
  "posted b d j \<longleftrightarrow> NVME_CQE_PHASE (cqe_status b (j mod d)) = (if even (j div d) then 1 else 0)"

lemma cq_ready_posted: "cq_at d n s \<Longrightarrow> cq_ready s = posted (cq_mem (ram s)) d n"
  by (simp add: cq_ready_def cq_status_def posted_def cq_at_def)

text \<open>No more than one round can be posted, so the run of posted entries ends.\<close>

lemma posted_next_round: "0 < d \<Longrightarrow> posted b d n \<Longrightarrow> \<not> posted b d (n + d)"
  by (auto simp: posted_def div_add_self2 split: if_splits)

lemma drain_run:
  assumes "cq_at d n s" and "0 < d" and "\<forall>j<k. posted (cq_mem (ram s)) d (n + j)"
    and "\<not> posted (cq_mem (ram s)) d (n + k)"
  shows "harvest_drain e s = (harvest_entry e ^^ k) s"
  using assms
proof (induction k arbitrary: s n)
  case 0
  then show ?case by (subst harvest_drain.simps) (simp add: cq_ready_posted)
next
  case (Suc k)
  have r: "cq_ready s" using Suc.prems(1,3) by (auto simp: cq_ready_posted)
  have q: "queue_depth (unit_st s) \<noteq> 0" using Suc.prems(1,2) by (auto simp: cq_at_def)
  have a: "cq_at d (Suc n) (harvest_entry e s)" using cq_at_entries [OF Suc.prems(1,2), of 1 e] by simp
  have "\<forall>j<k. posted (cq_mem (ram s)) d (Suc n + j)" using Suc.prems(3) by auto
  then have "harvest_drain e (harvest_entry e s) = (harvest_entry e ^^ k) (harvest_entry e s)"
    using Suc.prems(4) by (intro Suc.IH [OF a Suc.prems(2)]) (simp_all add: harvest_entry_ring)
  then show ?case
    using r q by (subst harvest_drain.simps) (simp add: funpow_swap1)
qed

lemma drain_consumes:
  assumes "cq_at d n s" and "0 < d"
  obtains k where "k \<le> d" "\<forall>j<k. posted (cq_mem (ram s)) d (n + j)" "\<not> posted (cq_mem (ram s)) d (n + k)"
    "harvest_drain e s = (harvest_entry e ^^ k) s" "cq_at d (n + k) (harvest_drain e s)"
proof -
  let ?P = "\<lambda>k. \<not> posted (cq_mem (ram s)) d (n + k)"
  have ex: "\<exists>k\<le>d. ?P k"
    using posted_next_round [OF assms(2), of "cq_mem (ram s)" n] by (cases "?P 0") auto
  define k where "k = (LEAST k. ?P k)"
  have "?P k" "k \<le> d" "\<forall>j<k. \<not> ?P j"
    using ex LeastI_ex [of ?P] Least_le [of ?P] not_less_Least [of _ ?P] unfolding k_def by (blast, metis le_trans, blast)
  with drain_run [OF assms, of k e] cq_at_entries [OF assms, of k e] show ?thesis
    by (intro that [of k]) auto
qed

section \<open>Waiting\<close>

definition POLL_BUDGET :: nat where "POLL_BUDGET = 5000000"

text \<open>Unmask the interrupt if one is installed, then \<open>Forbid(); Permit();\<close>.\<close>

definition poll_yield :: "drv \<Rightarrow> drv" where
  "poll_yield s =
     Forbid_Permit (if irq_installed (ctrl_st s) then nvme_w32 (iobase (ctrl_st s) + NVME_REG_INTMC) 1 s else s)"

lemma poll_yield_simps [simp]:
  "unit_st (poll_yield s) = unit_st s" "ctrl_st (poll_yield s) = ctrl_st s" "reqs (poll_yield s) = reqs s"
  "scsis (poll_yield s) = scsis s" "ram (poll_yield s) = ram s" "slot_of (poll_yield s) i = slot_of s i"
  "balanced t (poll_yield s) R = balanced t s R"
  by (simp_all add: poll_yield_def slot_of_def balanced_def)

lemma poll_yield_kept: "io_kept s0 s \<Longrightarrow> io_kept s0 (poll_yield s)"
  by (simp add: io_kept_def cleared_def req_kept_def)

lemma Harvest_kept_from: "io_kept s0 s \<Longrightarrow> io_kept s0 (NVMeIO_Harvest e s)"
proof -
  assume k: "io_kept s0 s"
  then have "unit_ok (unit_st s)" by (simp add: io_kept_def)
  from io_kept_trans [OF k Harvest_kept [OF this]] show ?thesis .
qed

interpretation io_poll: polling "NVMeIO_Harvest e" poll_yield "io_kept s0" for e s0
  by unfold_locales (erule Harvest_kept_from, erule poll_yield_kept)

definition saw_issue :: "env \<Rightarrow> u32 \<Rightarrow> nvme_sqe \<Rightarrow> nat \<Rightarrow> drv \<Rightarrow> drv" where
  "saw_issue e req sqe slot s =
     (let s1 = reserve_nodata slot req True s;
          q = sqe\<lparr>sq_cdw0 := (sq_cdw0 sqe AND 0x0000FFFF) OR push_bit 16 (ucast (cid_of_slot slot))\<rparr>;
          s2 = put_sqe q s1;
          s3 = stamp_ticks e slot s2;
          s4 = upd_stats (\<lambda>t. gauge_up t) s3
      in NVMeIO_RingSQ (advance_tail s4))"

definition saw_wait :: "env \<Rightarrow> u32 \<Rightarrow> nat \<Rightarrow> drv \<Rightarrow> u16 \<times> drv" where
  "saw_wait e req slot s =
     (case poll_until POLL_BUDGET (NVMeIO_Harvest e) (\<lambda>t. inf_ioreq (slot_of t slot) = 0) poll_yield s of
        (True, s1) \<Rightarrow> (if io_Error (reqs s1 req) = IO_OK then 0 else 0xFF00, s1)
      | (False, s1) \<Rightarrow>
          (0xFFFD, upd_stats gauge_down
             (upd_slot slot (\<lambda>f. f\<lparr>inf_suppress_reply := False, inf_ioreq := 0\<rparr>) s1)))"

definition NVMeIO_SubmitAndWait :: "env \<Rightarrow> u32 \<Rightarrow> nvme_sqe \<Rightarrow> drv \<Rightarrow> u16 \<times> drv" where
  "NVMeIO_SubmitAndWait e req sqe s =
     (let s1 = (if find_free_slot s = None
                then snd (poll_until POLL_BUDGET (NVMeIO_Harvest e) (\<lambda>t. find_free_slot t \<noteq> None) poll_yield
                       (NVMeIO_RingSQ s))
                else s)
      in case find_free_slot s1 of
           None \<Rightarrow> (0xFFFE, s1)
         | Some slot \<Rightarrow> saw_wait e req slot (saw_issue e req sqe slot s1))"

section \<open>What a synchronous command keeps\<close>

definition not_inflight :: "u32 \<Rightarrow> drv \<Rightarrow> bool" where
  "not_inflight r s \<longleftrightarrow> (\<forall>i<NVME_MAX_INFLIGHT. inf_ioreq (slot_of s i) \<noteq> r)"

text \<open>
  \<open>sync_kept R s s'\<close>: the unit ran synchronously on behalf of the requests \<open>R\<close>. No new
  token, no slot taken in the end, and no other idle request touched.
\<close>

definition sync_kept :: "u32 set \<Rightarrow> drv \<Rightarrow> drv \<Rightarrow> bool" where
  "sync_kept R s s' \<longleftrightarrow> unit_ok (unit_st s') \<and> balanced s s' {#} \<and>
     queue_depth (unit_st s') = queue_depth (unit_st s) \<and> static_of (unit_st s') = static_of (unit_st s) \<and>
     (\<forall>i<NVME_MAX_INFLIGHT. inf_ioreq (slot_of s' i) = 0 \<or> inf_ioreq (slot_of s' i) = inf_ioreq (slot_of s i)) \<and>
     (\<forall>r. r \<noteq> 0 \<and> r \<notin> R \<and> not_inflight r s \<longrightarrow> reqs s' r = reqs s r)"

lemma sync_kept_not_inflight: "sync_kept R s s' \<Longrightarrow> r \<noteq> 0 \<Longrightarrow> not_inflight r s \<Longrightarrow> not_inflight r s'"
  by (fastforce simp: sync_kept_def not_inflight_def)

lemma sync_kept_refl: "unit_ok (unit_st s) \<Longrightarrow> sync_kept R s s"
  by (simp add: sync_kept_def)

lemma sync_kept_trans:
  assumes a: "sync_kept R s t" and b: "sync_kept R t u"
  shows "sync_kept R s u"
proof -
  have "inf_ioreq (slot_of u i) = 0 \<or> inf_ioreq (slot_of u i) = inf_ioreq (slot_of s i)"
    if "i < NVME_MAX_INFLIGHT" for i
    using a b that unfolding sync_kept_def by metis
  moreover have "reqs u r = reqs s r" if "r \<noteq> 0 \<and> r \<notin> R \<and> not_inflight r s" for r
    using a b that sync_kept_not_inflight [OF a, of r] by (simp add: sync_kept_def)
  ultimately show ?thesis
    using a b balanced_trans0 [of s t "{#}" u] by (simp add: sync_kept_def)
qed

lemma io_kept_sync: "io_kept s s' \<Longrightarrow> sync_kept R s s'"
  by (auto simp: io_kept_def sync_kept_def cleared_def req_kept_def not_inflight_def)

lemma RingSQ_sync: "unit_ok (unit_st s) \<Longrightarrow> sync_kept R s (NVMeIO_RingSQ s)"
  by (auto simp: sync_kept_def slot_of_def)

lemma saw_issue_simps:
  assumes ok: "unit_ok (unit_st s)" and free: "find_free_slot s = Some slot" and req: "req \<noteq> 0"
  shows "unit_ok (unit_st (saw_issue e req sqe slot s))" and "balanced s (saw_issue e req sqe slot s) {#}"
    and "inflight (unit_st (saw_issue e req sqe slot s)) =
      (inflight (unit_st s))[slot := nodata_slot e (trace s) slot req True (slot_of s slot)]"
    and "reqs (saw_issue e req sqe slot s) = reqs s" and "scsis (saw_issue e req sqe slot s) = scsis s"
    and "ctrl_st (saw_issue e req sqe slot s) = ctrl_st s"
    and "queue_depth (unit_st (saw_issue e req sqe slot s)) = queue_depth (unit_st s)"
    and "static_of (unit_st (saw_issue e req sqe slot s)) = static_of (unit_st s)"
    and "fetch_sqe (sq_mem (ram (saw_issue e req sqe slot s))) (unat (io_sq_tail (unit_st s))) =
      sqe\<lparr>sq_cdw0 := (sq_cdw0 sqe AND 0x0000FFFF) OR push_bit 16 (ucast (cid_of_slot slot))\<rparr>"
proof -
  define q where "q = sqe\<lparr>sq_cdw0 := (sq_cdw0 sqe AND 0x0000FFFF) OR push_bit 16 (ucast (cid_of_slot slot))\<rparr>"
  define t where "t = advance_tail (upd_stats (\<lambda>t. gauge_up t) (stamp_ticks e slot (put_sqe q (reserve_nodata slot req True s))))"
  have eq: "saw_issue e req sqe slot s = NVMeIO_RingSQ t"
    by (simp add: saw_issue_def Let_def t_def q_def)
  have g: "st_inflight_current x = st_inflight_current x" for x :: NVMeUnitStats by simp
  note i = nodata_issue [OF ok free req g t_def]
  show "unit_ok (unit_st (saw_issue e req sqe slot s))" "balanced s (saw_issue e req sqe slot s) {#}"
    "inflight (unit_st (saw_issue e req sqe slot s)) =
      (inflight (unit_st s))[slot := nodata_slot e (trace s) slot req True (slot_of s slot)]"
    "reqs (saw_issue e req sqe slot s) = reqs s" "scsis (saw_issue e req sqe slot s) = scsis s"
    "ctrl_st (saw_issue e req sqe slot s) = ctrl_st s"
    using i(1-7) by (simp_all add: eq)
  show "queue_depth (unit_st (saw_issue e req sqe slot s)) = queue_depth (unit_st s)"
    "static_of (unit_st (saw_issue e req sqe slot s)) = static_of (unit_st s)"
    by (simp_all add: eq t_def stamp_ticks_eq reserve_nodata_def)
  show "fetch_sqe (sq_mem (ram (saw_issue e req sqe slot s))) (unat (io_sq_tail (unit_st s))) =
      sqe\<lparr>sq_cdw0 := (sq_cdw0 sqe AND 0x0000FFFF) OR push_bit 16 (ucast (cid_of_slot slot))\<rparr>"
    using i(8) by (simp add: eq flip: q_def)
qed

lemma free_slot_ok:
  assumes "unit_ok u" and "i < NVME_MAX_INFLIGHT" and "inf_ioreq (inflight u ! i) \<noteq> 0"
    and "u' = u\<lparr>inflight := (inflight u)[i := f], stats := gauge_down (stats u)\<rparr>" and "inf_ioreq f = 0" and "slot_ok f"
  shows "unit_ok u'"
proof (rule unit_ok_slot_update [OF assms(1,2), of u' f])
  show "st_inflight_current (stats u') + (if inf_ioreq (inflight u ! i) \<noteq> 0 then 1 else 0) =
         st_inflight_current (stats u) + (if inf_ioreq f \<noteq> 0 then 1 else 0)"
    using gauge_pos [OF assms(1-3)] assms(3-5) by (simp add: gauge_down_def)
qed (use assms in \<open>simp_all add: unit_ok_def\<close>)

lemma saw_wait_kept:
  assumes ok: "unit_ok (unit_st s)" and i: "i < NVME_MAX_INFLIGHT"
    and sl: "slot_of s i = nodata_slot e' tr i req True f0" and req: "req \<noteq> 0"
  shows "sync_kept {req} s (snd (saw_wait e req i s))" and "inf_ioreq (slot_of (snd (saw_wait e req i s)) i) = 0"
    and "scsis (snd (saw_wait e req i s)) = scsis s"
proof -
  obtain b t where p: "poll_until POLL_BUDGET (NVMeIO_Harvest e) (\<lambda>t. inf_ioreq (slot_of t i) = 0) poll_yield s = (b, t)"
    by fastforce
  have k: "io_kept s t" using io_poll.inv_poll [OF io_kept_refl [OF ok], of POLL_BUDGET e] p by (metis snd_conv)
  have len: "i < length (inflight (unit_st t))" using k i by (simp add: io_kept_def unit_ok_def)
  have "sync_kept {req} s (snd (saw_wait e req i s)) \<and> inf_ioreq (slot_of (snd (saw_wait e req i s)) i) = 0 \<and>
      scsis (snd (saw_wait e req i s)) = scsis s"
  proof (cases b)
    case True
    then have "inf_ioreq (slot_of t i) = 0"
      using poll_until_stop [of POLL_BUDGET "NVMeIO_Harvest e" "\<lambda>t. inf_ioreq (slot_of t i) = 0" poll_yield s t] p by simp
    then show ?thesis using True p k by (simp add: saw_wait_def io_kept_sync) (simp add: io_kept_def)
  next
    case False
    define t' where "t' = upd_stats gauge_down (upd_slot i (\<lambda>f. f\<lparr>inf_suppress_reply := False, inf_ioreq := 0\<rparr>) t)"
    have out: "snd (saw_wait e req i s) = t'" using False p by (simp add: saw_wait_def t'_def)
    define f where "f = (slot_of t i)\<lparr>inf_suppress_reply := False, inf_ioreq := 0\<rparr>"
    have f: "inf_ioreq f = 0" "slot_of t' i = f" "inflight (unit_st t') = (inflight (unit_st t))[i := f]"
      using len by (simp_all add: f_def t'_def slot_of_def)
    have occ: "inf_ioreq (slot_of t i) \<noteq> 0"
      using poll_until_timeout [of POLL_BUDGET "NVMeIO_Harvest e" "\<lambda>t. inf_ioreq (slot_of t i) = 0" poll_yield s t] p False
      by (auto simp: POLL_BUDGET_def)
    then have eq: "slot_of t i = slot_of s i" using cleared_empty [of s t i] k i by (simp add: io_kept_def)
    then have sok: "slot_ok f" by (simp add: f_def sl slot_ok_def)
    have "unit_ok (unit_st t')"
      using k occ f(1) sok by (intro free_slot_ok [of "unit_st t" i "unit_st t'" f])
        (simp_all add: io_kept_def i t'_def f_def slot_of_def)
    moreover have "balanced t t' {#}"
      by (rule balanced_slot [OF len f(3), of "[]"])
        (use f sok in \<open>simp_all add: t'_def, simp add: eq sl req\<close>)
    ultimately have "sync_kept {req} t t'"
      using len f by (auto simp: sync_kept_def t'_def slot_of_def nth_list_update)
    with sync_kept_trans [OF io_kept_sync [OF k]] out f k show ?thesis
      by (simp add: io_kept_def t'_def)
  qed
  then show "sync_kept {req} s (snd (saw_wait e req i s))" and "inf_ioreq (slot_of (snd (saw_wait e req i s)) i) = 0"
    and "scsis (snd (saw_wait e req i s)) = scsis s" by simp_all
qed

lemma saw_issue_wait_kept:
  assumes ok: "unit_ok (unit_st s)" and free: "find_free_slot s = Some i" and req: "req \<noteq> 0"
    and u: "u = snd (saw_wait e req i (saw_issue e req sqe i s))"
  shows "sync_kept {req} s u" and "scsis u = scsis s"
proof -
  define t where "t = saw_issue e req sqe i s"
  note f = find_free_slot_Some [OF ok free] and h = saw_issue_simps [OF ok free req, of e sqe, folded t_def]
  have slots: "slot_of t j = (if j = i then nodata_slot e (trace s) i req True (slot_of s i) else slot_of s j)"
    if "j < NVME_MAX_INFLIGHT" for j
    using h(3) f(2) that by (simp add: slot_of_def)
  have w: "sync_kept {req} t u" "inf_ioreq (slot_of u i) = 0" "scsis u = scsis t"
    using saw_wait_kept [OF h(1) f(1) _ req, of e "trace s" "slot_of s i" e] slots [OF f(1)] u
    by (simp_all add: t_def)
  have n: "not_inflight r t" if "not_inflight r s" "r \<noteq> req" for r
    using that slots by (simp add: not_inflight_def)
  have "inf_ioreq (slot_of u j) = 0 \<or> inf_ioreq (slot_of u j) = inf_ioreq (slot_of s j)"
    if "j < NVME_MAX_INFLIGHT" for j
    using w(1,2) slots [OF that] that unfolding sync_kept_def by metis
  then show "sync_kept {req} s u"
    using w(1) h n balanced_trans0 [of s t "{#}" u] by (auto simp: sync_kept_def)
  show "scsis u = scsis s" using w(3) h(5) by simp
qed

lemma wait_free_kept:
  assumes "unit_ok (unit_st s)"
    and "t = snd (poll_until POLL_BUDGET (NVMeIO_Harvest e) stop poll_yield (NVMeIO_RingSQ s))"
  shows "sync_kept R s t" and "scsis t = scsis s"
proof -
  have "io_kept (NVMeIO_RingSQ s) t"
    using io_poll.inv_poll [OF io_kept_refl, of "NVMeIO_RingSQ s" POLL_BUDGET e stop] assms by simp
  then show "sync_kept R s t" "scsis t = scsis s"
    using sync_kept_trans [OF RingSQ_sync [OF assms(1)] io_kept_sync] by (simp_all add: io_kept_def)
qed

text \<open>The synchronous command as a whole, for every behaviour of the device.\<close>

lemma SubmitAndWait_kept:
  assumes ok: "unit_ok (unit_st s)" and req: "req \<noteq> 0"
    and u: "u = snd (NVMeIO_SubmitAndWait e req sqe s)"
  shows "sync_kept {req} s u" and "scsis u = scsis s"
proof -
  define t where "t = (if find_free_slot s = None
                then snd (poll_until POLL_BUDGET (NVMeIO_Harvest e) (\<lambda>t. find_free_slot t \<noteq> None) poll_yield
                       (NVMeIO_RingSQ s)) else s)"
  have t: "sync_kept {req} s t" "scsis t = scsis s"
    unfolding t_def using sync_kept_refl [OF ok]
    by (simp_all split: if_split add: wait_free_kept [OF ok refl])
  then have okt: "unit_ok (unit_st t)" by (simp add: sync_kept_def)
  have u': "u = (case find_free_slot t of None \<Rightarrow> t | Some i \<Rightarrow> snd (saw_wait e req i (saw_issue e req sqe i t)))"
    using u by (simp add: NVMeIO_SubmitAndWait_def Let_def flip: t_def split: option.split)
  show "sync_kept {req} s u" "scsis u = scsis s"
    using u' t saw_issue_wait_kept [OF okt _ req refl] sync_kept_trans [OF t(1)]
    by (cases "find_free_slot t"; simp)+
qed

text \<open>Result 0 means that the controller completed the command with success.\<close>

lemma SubmitAndWait_result:
  "NVMeIO_SubmitAndWait e req sqe s = (0, u) \<Longrightarrow> io_Error (reqs u req) = IO_OK"
  by (auto simp: NVMeIO_SubmitAndWait_def saw_wait_def Let_def split: option.splits prod.splits bool.splits if_splits)

end
