(* ===== verification/Nvme_Dispatch.thy ===== *)
theory Nvme_Dispatch
  imports Nvme_Harvest
begin

text \<open>
  Reads and writes of the unit task (src/src/unit_task.c): the back-pressure of
  \<open>wait_for_free_slot\<close> and \<open>dispatch_rw\<close> with its split at the controller's maximal
  transfer size.
\<close>

section \<open>Back-pressure\<close>

definition wait_for_free_slot :: "env \<Rightarrow> drv \<Rightarrow> bool \<times> drv" where
  "wait_for_free_slot e s =
     poll_until POLL_BUDGET (\<lambda>t. t) (\<lambda>t. find_free_slot t \<noteq> None)
       (\<lambda>t. poll_yield (NVMeIO_Harvest e t)) (NVMeIO_RingSQ s)"

text \<open>
  The pattern around every submission of the task: on -1 count the hit, wait for a slot
  and try once more.
\<close>

definition submit_retry :: "env \<Rightarrow> (drv \<Rightarrow> int \<times> drv) \<Rightarrow> drv \<Rightarrow> int \<times> drv" where
  "submit_retry e submit s =
     (case submit s of (rc, s1) \<Rightarrow>
        if rc = -1 then
          (case wait_for_free_slot e (upd_stats (\<lambda>t. t\<lparr>st_unitbusy_hits := st_unitbusy_hits t + 1\<rparr>) s1) of
             (ok, s2) \<Rightarrow> if ok then submit s2 else (rc, s2))
        else (rc, s1))"

definition set_error :: "u32 \<Rightarrow> ioerr \<Rightarrow> drv \<Rightarrow> drv" where
  "set_error req err = upd_req req (\<lambda>r. r\<lparr>io_Error := err\<rparr>)"

section \<open>One command\<close>

definition dispatch_rw_fast :: "env \<Rightarrow> u32 \<Rightarrow> bool \<Rightarrow> drv \<Rightarrow> drv" where
  "dispatch_rw_fast e req is_write s =
     (case submit_retry e (NVMeIO_SubmitNoRing e req is_write) s of (rc, s1) \<Rightarrow>
        if rc = 0 then s1
        else ReplyMsg req (if rc = -1 then set_error req IOERR_UNITBUSY s1 else s1))"

section \<open>Chunks\<close>

definition find_req_slot :: "u32 \<Rightarrow> drv \<Rightarrow> nat option" where
  "find_req_slot req s = find (\<lambda>i. inf_ioreq (slot_of s i) = req) [0..<NVME_MAX_INFLIGHT]"

definition chunk_timeout :: "nat \<Rightarrow> u32 \<Rightarrow> drv \<Rightarrow> drv" where
  "chunk_timeout slot req s =
     (let s1 = (if \<not> inf_use_bounce (slot_of s slot) then release_dma slot s else s);
          s2 = upd_slot slot (\<lambda>f. f\<lparr>inf_suppress_reply := False, inf_ioreq := 0\<rparr>) s1;
          s3 = upd_stats (\<lambda>t. (gauge_down t)\<lparr>st_err_timeout := st_err_timeout t + 1\<rparr>) s2
      in set_error req IOERR_ABORTED s3)"

definition rw_chunk_wait :: "env \<Rightarrow> u32 \<Rightarrow> nat \<Rightarrow> drv \<Rightarrow> bool \<times> drv" where
  "rw_chunk_wait e req slot s =
     (let s1 = upd_slot slot (\<lambda>f. f\<lparr>inf_suppress_reply := True\<rparr>) s;
          s2 = snd (poll_until POLL_BUDGET (NVMeIO_Harvest e) (\<lambda>t. inf_ioreq (slot_of t slot) = 0) poll_yield s1)
      in if inf_ioreq (slot_of s2 slot) \<noteq> 0 then (False, chunk_timeout slot req s2)
         else (io_Error (reqs s2 req) = IO_OK, s2))"

text \<open>One pass of the loop; the flag says whether it goes on.\<close>

definition rw_chunk :: "env \<Rightarrow> u32 \<Rightarrow> bool \<Rightarrow> u32 \<Rightarrow> u32 \<Rightarrow> u32 \<Rightarrow> u32 \<Rightarrow> u32 \<Rightarrow> drv \<Rightarrow> bool \<times> drv" where
  "rw_chunk e req is_write orig_offset orig_actual orig_data chunk off s =
     (let base_off = push_bit 32 (ucast orig_actual) OR ucast orig_offset :: u64;
          chunk_off = base_off + ucast off;
          s1 = upd_req req (\<lambda>r. r\<lparr>io_Offset := ucast (chunk_off AND 0xFFFFFFFF),
                 io_Actual := ucast (drop_bit 32 chunk_off), io_Data := orig_data + off,
                 io_Length := chunk\<rparr>) s
      in case submit_retry e (NVMeIO_Submit e req is_write) s1 of (rc, s2) \<Rightarrow>
           if rc \<noteq> 0 then (False, if rc = -1 then set_error req IOERR_UNITBUSY s2 else s2)
           else (case find_req_slot req s2 of
                   None \<Rightarrow> (False, set_error req IOERR_ABORTED s2)
                 | Some slot \<Rightarrow> rw_chunk_wait e req slot s2))"

definition chunk_size :: "u32 \<Rightarrow> u32 \<Rightarrow> u32 \<Rightarrow> u32" where
  "chunk_size total_len max_chunk off =
     (let chunk = total_len - off in if chunk > max_chunk then max_chunk else chunk)"

text \<open>Nothing is submitted for a zero length, so a chunk that goes on is not empty.\<close>

lemma SubmitNoRing_length:
  assumes "NVMeIO_SubmitNoRing e req w s = (0, s')"
  shows "io_Length (reqs s req) \<noteq> 0"
proof
  assume "io_Length (reqs s req) = 0"
  then have "submit_check (unit_st s) (reqs s req) = Inl (rc, err) \<Longrightarrow> rc \<noteq> 0" for rc err
    by (auto simp: submit_check_def Let_def split: if_splits)
  moreover have "\<exists>rc err. submit_check (unit_st s) (reqs s req) = Inl (rc, err)"
    using \<open>io_Length (reqs s req) = 0\<close> by (simp add: submit_check_def Let_def)
  ultimately show False using assms
    by (auto simp: NVMeIO_SubmitNoRing_def split: option.splits)
qed

lemma harvest_drain_length: "io_Length (reqs (harvest_drain e s) r) = io_Length (reqs s r)"
proof (induction e s rule: harvest_drain.induct)
  case (1 e s)
  have "io_Length (reqs (harvest_entry e s) r) = io_Length (reqs s r)"
    by (simp add: harvest_entry_def harvest_complete_def harvest_cleanup_def release_dma_def Let_def split: option.splits)
  with 1 show ?case by (subst harvest_drain.simps) simp
qed

lemma wait_length: "io_Length (reqs (snd (wait_for_free_slot e s)) r) = io_Length (reqs s r)"
proof -
  have "io_Length (reqs (snd (poll_until n (\<lambda>t. t) stop (\<lambda>t. poll_yield (NVMeIO_Harvest e t)) s)) r) =
      io_Length (reqs s r)" for n stop s
    by (induction n arbitrary: s) (simp_all add: Let_def NVMeIO_Harvest_def harvest_drain_length)
  then show ?thesis by (simp add: wait_for_free_slot_def)
qed

lemma path_code: "fst (submit_bounce e req i w d n s) \<noteq> Inl (-1)" "fst (submit_direct e req i w d n s) \<noteq> Inl (-1)"
  by (auto simp: submit_bounce_def submit_direct_def Let_def split: prod.splits prp2.splits option.splits)

lemma SubmitNoRing_full: "NVMeIO_SubmitNoRing e req w s = (-1, s') \<Longrightarrow> s' = s"
  using path_code [of e req _ w _ _]
  by (auto simp: NVMeIO_SubmitNoRing_def submit_check_def Let_def
      split: option.splits sum.splits prod.splits if_splits) (metis fst_conv)+

lemma rw_chunk_nonempty:
  assumes "rw_chunk e req w oo oa od chunk d s = (True, s')"
  shows "chunk \<noteq> 0"
proof -
  have sub: "io_Length (reqs t req) \<noteq> 0" if "NVMeIO_Submit e req w t = (0, t')" for t t'
    using that SubmitNoRing_length [of e req w t] by (auto simp: NVMeIO_Submit_def split: prod.splits if_splits)
  have full: "t' = t" if "NVMeIO_Submit e req w t = (-1, t')" for t t'
    using that SubmitNoRing_full [of e req w t] by (auto simp: NVMeIO_Submit_def split: prod.splits if_splits)
  have retry: "io_Length (reqs t req) \<noteq> 0" if r: "submit_retry e (NVMeIO_Submit e req w) t = (0, t')" for t t'
  proof -
    obtain rc t1 where s1: "NVMeIO_Submit e req w t = (rc, t1)" by fastforce
    let ?t2 = "upd_stats (\<lambda>t. t\<lparr>st_unitbusy_hits := st_unitbusy_hits t + 1\<rparr>) t1"
    obtain ok t3 where w: "wait_for_free_slot e ?t2 = (ok, t3)" by fastforce
    show ?thesis
    proof (cases "rc = -1")
      case True
      then have "NVMeIO_Submit e req w t3 = (0, t')" using r s1 w by (simp add: submit_retry_def split: if_splits)
      then have "io_Length (reqs t3 req) \<noteq> 0" by (rule sub)
      moreover have "t1 = t" using full [of t t1] s1 True by simp
      ultimately show ?thesis using wait_length [of e ?t2 req] w by simp
    next
      case False
      then show ?thesis using r s1 sub by (simp add: submit_retry_def)
    qed
  qed
  define s1 where "s1 = upd_req req (\<lambda>r. r\<lparr>
       io_Offset := ucast ((push_bit 32 (ucast oa) OR ucast oo :: u64) + ucast d AND 0xFFFFFFFF),
       io_Actual := ucast (drop_bit 32 ((push_bit 32 (ucast oa) OR ucast oo :: u64) + ucast d)),
       io_Data := od + d, io_Length := chunk\<rparr>) s"
  obtain rc t where r: "submit_retry e (NVMeIO_Submit e req w) s1 = (rc, t)" by fastforce
  then have "rc = 0" using assms by (auto simp: rw_chunk_def Let_def s1_def split: if_splits)
  with r retry have "io_Length (reqs s1 req) \<noteq> 0" by blast
  then show ?thesis by (simp add: s1_def)
qed

function chunk_loop :: "env \<Rightarrow> u32 \<Rightarrow> bool \<Rightarrow> u32 \<Rightarrow> u32 \<Rightarrow> u32 \<Rightarrow> u32 \<Rightarrow> u32 \<Rightarrow> u32 \<Rightarrow> drv \<Rightarrow> drv" where
  "chunk_loop e req is_write orig_offset orig_actual orig_data total_len max_chunk off s =
     (if off < total_len then
        let chunk = chunk_size total_len max_chunk off;
            r = rw_chunk e req is_write orig_offset orig_actual orig_data chunk off s
        in if fst r
           then chunk_loop e req is_write orig_offset orig_actual orig_data total_len max_chunk (off + chunk) (snd r)
           else snd r
      else s)"
  by pat_completeness auto

lemma chunk_advance:
  assumes "off < tot" and "chunk_size tot mx off \<noteq> 0"
  shows "unat (off + chunk_size tot mx off) = unat off + unat (chunk_size tot mx off)"
    and "unat off + unat (chunk_size tot mx off) \<le> unat tot" and "0 < unat (chunk_size tot mx off)"
proof -
  have s: "unat (tot - off) = unat tot - unat off" "unat off < unat tot"
    using assms(1) by (simp_all add: unat_sub word_le_nat_alt word_less_nat_alt less_imp_le)
  have "chunk_size tot mx off \<le> tot - off"
    by (simp add: chunk_size_def Let_def less_imp_le)
  then show le: "unat off + unat (chunk_size tot mx off) \<le> unat tot"
    using s by (simp add: word_le_nat_alt)
  then have "unat off + unat (chunk_size tot mx off) < 2 ^ LENGTH(32)"
    using u32_bound [of tot] by (simp del: u32_bound)
  then show "unat (off + chunk_size tot mx off) = unat off + unat (chunk_size tot mx off)"
    by (rule unat_plus_small)
  show "0 < unat (chunk_size tot mx off)" using assms(2) by (simp add: unat_gt_0)
qed

termination chunk_loop
proof (relation "measure (\<lambda>(e, req, w, oo, oa, od, tot, mx, off, s). unat tot - unat off)", simp, goal_cases)
  case (1 e req w oo oa od tot mx off s chunk r)
  then have "chunk_size tot mx off \<noteq> 0"
    using rw_chunk_nonempty [of e req w oo oa od "chunk_size tot mx off" off s "snd r"] by (metis prod.collapse)
  from chunk_advance [OF 1(1) this] 1 show ?case by simp
qed

declare chunk_loop.simps [simp del]

definition dispatch_rw_chunked :: "env \<Rightarrow> u32 \<Rightarrow> bool \<Rightarrow> drv \<Rightarrow> drv" where
  "dispatch_rw_chunked e req is_write s =
     (let r0 = reqs s req;
          s1 = upd_stats (\<lambda>t. t\<lparr>st_mdts_splits := st_mdts_splits t + 1\<rparr>) s;
          s2 = set_error req IO_OK s1;
          s3 = chunk_loop e req is_write (io_Offset r0) (io_Actual r0) (io_Data r0) (io_Length r0)
                 (max_transfer_bytes (ctrl_st s)) 0 s2;
          s4 = upd_req req (\<lambda>r. r\<lparr>io_Offset := io_Offset r0,
                 io_Actual := (if io_Error r = IO_OK then io_Length r0 else 0),
                 io_Data := io_Data r0, io_Length := io_Length r0\<rparr>) s3
      in ReplyMsg req s4)"

definition dispatch_rw :: "env \<Rightarrow> u32 \<Rightarrow> bool \<Rightarrow> drv \<Rightarrow> drv" where
  "dispatch_rw e req is_write s =
     (if io_Length (reqs s req) \<le> max_transfer_bytes (ctrl_st s) then dispatch_rw_fast e req is_write s
      else dispatch_rw_chunked e req is_write s)"

section \<open>The contract of a submission\<close>

text \<open>
  What the unit task relies on when it submits \<open>req\<close>. Code 0: the ledger grew by the
  request, which now occupies one more slot and will be replied by a harvest. Any other
  code: nothing is left behind. No other request and no controller field is touched.
\<close>

definition taken :: "u32 \<Rightarrow> drv \<Rightarrow> drv \<Rightarrow> bool" where
  "taken req s s' \<longleftrightarrow> unit_ok (unit_st s') \<and> balanced s s' {#Tok_Req req#} \<and>
     queue_depth (unit_st s') = queue_depth (unit_st s) \<and> static_of (unit_st s') = static_of (unit_st s) \<and>
     (\<exists>slot<NVME_MAX_INFLIGHT. inf_ioreq (slot_of s' slot) = req \<and> \<not> inf_suppress_reply (slot_of s' slot) \<and>
        (\<forall>i<NVME_MAX_INFLIGHT. i \<noteq> slot \<longrightarrow>
           inf_ioreq (slot_of s' i) = 0 \<or> inf_ioreq (slot_of s' i) = inf_ioreq (slot_of s i))) \<and>
     (\<forall>r. r \<noteq> 0 \<and> r \<noteq> req \<and> not_inflight r s \<longrightarrow> reqs s' r = reqs s r)"

definition submit_post :: "u32 \<Rightarrow> int \<Rightarrow> drv \<Rightarrow> drv \<Rightarrow> bool" where
  "submit_post req rc s s' \<longleftrightarrow> (if rc = 0 then taken req s s' else sync_kept {req} s s')"

lemma taken_after:
  assumes a: "sync_kept {req} s t" and b: "taken req t u"
  shows "taken req s u"
proof -
  obtain i where i: "i < NVME_MAX_INFLIGHT" "inf_ioreq (slot_of u i) = req" "\<not> inf_suppress_reply (slot_of u i)"
      "\<And>j. j < NVME_MAX_INFLIGHT \<Longrightarrow> j \<noteq> i \<Longrightarrow> inf_ioreq (slot_of u j) = 0 \<or> inf_ioreq (slot_of u j) = inf_ioreq (slot_of t j)"
    using b by (auto simp: taken_def)
  have "inf_ioreq (slot_of u j) = 0 \<or> inf_ioreq (slot_of u j) = inf_ioreq (slot_of s j)"
    if "j < NVME_MAX_INFLIGHT" "j \<noteq> i" for j
    using i(4) [OF that] a that(1) unfolding sync_kept_def by metis
  moreover have "reqs u r = reqs s r" if "r \<noteq> 0 \<and> r \<noteq> req \<and> not_inflight r s" for r
    using a b that sync_kept_not_inflight [OF a, of r] by (simp add: taken_def sync_kept_def)
  ultimately show ?thesis
    using a b i(1-3) balanced_0trans [of s t u] by (auto simp: taken_def sync_kept_def)
qed

lemma submit_post_after: "sync_kept {req} s t \<Longrightarrow> submit_post req rc t u \<Longrightarrow> submit_post req rc s u"
  by (auto simp: submit_post_def intro: taken_after sync_kept_trans)

lemma sync_kept_same:
  assumes "unit_ok (unit_st s')" and "inflight (unit_st s') = inflight (unit_st s)" and "trace s' = trace s"
    and "queue_depth (unit_st s') = queue_depth (unit_st s)" and "static_of (unit_st s') = static_of (unit_st s)"
    and "\<And>r. r \<notin> R \<Longrightarrow> reqs s' r = reqs s r"
  shows "sync_kept R s s'"
  using assms by (simp add: sync_kept_def slot_of_def balanced_def)

lemma unit_ok_stats:
  "unit_ok u \<Longrightarrow> st_inflight_current st = st_inflight_current (stats u) \<Longrightarrow> unit_ok (u\<lparr>stats := st\<rparr>)"
  by (simp add: unit_ok_def)

lemma upd_stats_kept:
  "unit_ok (unit_st s) \<Longrightarrow> (\<And>t. st_inflight_current (f t) = st_inflight_current t) \<Longrightarrow> sync_kept R s (upd_stats f s)"
  by (rule sync_kept_same) (simp_all add: unit_ok_stats)

lemma upd_req_kept: "unit_ok (unit_st s) \<Longrightarrow> req \<in> R \<Longrightarrow> sync_kept R s (upd_req req f s)"
  by (rule sync_kept_same) auto

lemma set_error_kept: "unit_ok (unit_st s) \<Longrightarrow> req \<in> R \<Longrightarrow> sync_kept R s (set_error req err s)"
  unfolding set_error_def by (rule upd_req_kept)

interpretation wait_poll: polling "\<lambda>t. t" "\<lambda>t. poll_yield (NVMeIO_Harvest e t)" "io_kept s0" for e s0
  by unfold_locales (auto intro: Harvest_kept_from poll_yield_kept)

lemma wait_kept:
  assumes "unit_ok (unit_st s)"
  shows "sync_kept R s (snd (wait_for_free_slot e s))"
proof -
  have "io_kept (NVMeIO_RingSQ s) (snd (wait_for_free_slot e s))"
    unfolding wait_for_free_slot_def
    by (rule wait_poll.inv_poll) (simp add: io_kept_refl assms)
  then show ?thesis by (rule sync_kept_trans [OF RingSQ_sync [OF assms] io_kept_sync])
qed

text \<open>The interface, and the retry on top of it.\<close>

locale submitter =
  fixes submit :: "drv \<Rightarrow> int \<times> drv" and req :: u32 and usable :: bool
  assumes post: "usable \<Longrightarrow> unit_ok (unit_st s) \<Longrightarrow> submit s = (rc, s') \<Longrightarrow> submit_post req rc s s'"
begin

lemma retry_post:
  assumes u: "usable" and ok: "unit_ok (unit_st s)" and r: "submit_retry e submit s = (rc, s')"
  shows "submit_post req rc s s'"
proof -
  obtain c t where c: "submit s = (c, t)" by fastforce
  have p: "submit_post req c s t" by (rule post [OF u ok c])
  show ?thesis
  proof (cases "c = -1")
    case False
    then show ?thesis using r c p by (simp add: submit_retry_def)
  next
    case True
    then have k: "sync_kept {req} s t" using p by (simp add: submit_post_def)
    define t2 where "t2 = upd_stats (\<lambda>t. t\<lparr>st_unitbusy_hits := st_unitbusy_hits t + 1\<rparr>) t"
    obtain b t3 where w: "wait_for_free_slot e t2 = (b, t3)" by fastforce
    have k2: "sync_kept {req} t t2"
      unfolding t2_def by (rule upd_stats_kept) (use k in \<open>simp_all add: sync_kept_def\<close>)
    then have "unit_ok (unit_st t2)" by (simp add: sync_kept_def)
    then have k3: "sync_kept {req} t2 t3" using wait_kept [of t2 _ e] w by (metis snd_conv)
    have k13: "sync_kept {req} s t3" by (rule sync_kept_trans [OF sync_kept_trans [OF k k2] k3])
    then have ok3: "unit_ok (unit_st t3)" by (simp add: sync_kept_def)
    show ?thesis
    proof (cases b)
      case True
      then have "submit t3 = (rc, s')" using r c \<open>c = -1\<close> w by (simp add: submit_retry_def t2_def)
      from submit_post_after [OF k13 post [OF u ok3 this]] show ?thesis .
    next
      case False
      then show ?thesis using r c \<open>c = -1\<close> w k13 by (simp add: submit_retry_def t2_def submit_post_def)
    qed
  qed
qed

end

lemma SubmitNoRing_post:
  assumes ok: "unit_ok (unit_st s)" and req: "req \<noteq> 0" and fl: "dma_flags_clear e"
    and res: "NVMeIO_SubmitNoRing e req w s = (rc, s')"
  shows "submit_post req rc s s'"
proof -
  note led = SubmitNoRing_ledger [OF ok req fl res]
  have fr: "ctrl_st s' = ctrl_st s" "\<And>r. r \<noteq> req \<Longrightarrow> reqs s' r = reqs s r"
    using SubmitNoRing_frame [OF res] by simp_all
  show ?thesis
    using ok req fl res
  proof (cases rule: SubmitNoRing_cases)
    case full
    then show ?thesis by (simp add: submit_post_def sync_kept_refl ok)
  next
    case (rejected slot err)
    then show ?thesis by (simp add: submit_post_def upd_req_kept ok)
  next
    case (failed slot f evs)
    note free = find_free_slot_Some [OF ok failed(1)] and fields = io_frame_fields [OF failed(8)]
    have "inf_ioreq (slot_of s' i) = 0 \<or> inf_ioreq (slot_of s' i) = inf_ioreq (slot_of s i)" for i
      using failed(3,5) free by (cases "i = slot") (simp_all add: slot_of_def)
    with failed(2) led fr fields io_frame_static [OF failed(8)] show ?thesis by (auto simp: submit_post_def sync_kept_def)
  next
    case (submitted slot lba nlb prps f evs)
    note free = find_free_slot_Some [OF ok submitted(1)]
    have "slot_of s' i = (if i = slot then f else slot_of s i)" for i
      using submitted(11) free by (simp add: slot_of_def)
    with submitted led fr free show ?thesis
      by (auto simp: submit_post_def taken_def intro!: exI [of _ slot])
  qed
qed

interpretation sub_rw: submitter "NVMeIO_SubmitNoRing e req w" req "req \<noteq> 0 \<and> dma_flags_clear e" for e req w
  by unfold_locales (auto intro: SubmitNoRing_post)

lemma Submit_post:
  assumes "unit_ok (unit_st s)" and "req \<noteq> 0" and "dma_flags_clear e"
    and "NVMeIO_Submit e req w s = (rc, s')"
  shows "submit_post req rc s s'"
proof -
  obtain c t where c: "NVMeIO_SubmitNoRing e req w s = (c, t)" by fastforce
  have p: "submit_post req c s t" by (rule SubmitNoRing_post [OF assms(1-3) c])
  have "rc = c" "s' = (if c = 0 then NVMeIO_RingSQ t else t)"
    using assms(4) c by (auto simp: NVMeIO_Submit_def split: if_splits)
  with p show ?thesis by (auto simp: submit_post_def taken_def slot_of_def)
qed

interpretation sub_ring: submitter "NVMeIO_Submit e req w" req "req \<noteq> 0 \<and> dma_flags_clear e" for e req w
  by unfold_locales (auto intro: Submit_post)

section \<open>The ledger of a read or write\<close>

lemma chunk_timeout_kept:
  assumes ok: "unit_ok (unit_st s)" and i: "i < NVME_MAX_INFLIGHT" and occ: "inf_ioreq (slot_of s i) \<noteq> 0"
    and sup: "inf_suppress_reply (slot_of s i)" and R: "req \<in> R"
  shows "sync_kept R s (chunk_timeout i req s)"
proof -
  have len: "i < length (inflight (unit_st s))" using ok i by (simp add: unit_ok_def)
  have sok: "slot_ok (slot_of s i)" by (rule unit_ok_slot [OF ok i])
  let ?f = "slot_of s i" and ?g = "freed (slot_of s i)"
  define s1 where "s1 = (if \<not> inf_use_bounce ?f then release_dma i s else s)"
  have b: "inf_use_bounce ?f \<Longrightarrow> inf_dma_list ?f = 0" using sok by (simp add: slot_ok_def)
  have one: "trace s1 = trace s @ released ?f" "ctrl_st s1 = ctrl_st s" "reqs s1 = reqs s" "io_frame (unit_st s) (unit_st s1)"
      "inflight (unit_st s1) = (inflight (unit_st s))[i := ?f\<lparr>inf_dma_list := 0\<rparr>]"
    using b by (simp_all add: s1_def release_dma_simps released_def no_list_eq) (simp_all add: slot_of_def no_list_eq)
  note fields = io_frame_fields [OF one(4)]
  define s2 where "s2 = upd_slot i (\<lambda>f. f\<lparr>inf_suppress_reply := False, inf_ioreq := 0\<rparr>) s1"
  define s3 where "s3 = upd_stats (\<lambda>t. (gauge_down t)\<lparr>st_err_timeout := st_err_timeout t + 1\<rparr>) s2"
  have eq: "chunk_timeout i req s = set_error req IOERR_ABORTED s3"
    by (simp add: chunk_timeout_def Let_def s3_def s2_def s1_def)
  have three: "trace s3 = trace s @ released ?f" "ctrl_st s3 = ctrl_st s" "reqs s3 = reqs s"
      "inflight (unit_st s3) = (inflight (unit_st s))[i := ?g]"
    using one len by (simp_all add: s3_def s2_def freed_def)
  have "0 < st_inflight_current (stats (unit_st s))"
    using gauge_pos [OF ok i] occ by (simp add: slot_of_def)
  then have g: "st_inflight_current (stats (unit_st s3)) + 1 = st_inflight_current (stats (unit_st s))"
    by (simp add: s3_def s2_def gauge_down_def fields)
  have u: "queue_depth (unit_st s3) = queue_depth (unit_st s)" "io_sq_tail (unit_st s3) = io_sq_tail (unit_st s)"
      "io_cq_head (unit_st s3) = io_cq_head (unit_st s)" "static_of (unit_st s3) = static_of (unit_st s)"
    by (simp_all add: s3_def s2_def fields io_frame_static [OF one(4)])
  have ok3: "unit_ok (unit_st s3)"
    by (rule unit_ok_slot_update [OF ok i three(4)]) (use u g occ ok in \<open>auto simp: unit_ok_def slot_of_def\<close>)
  have bal: "balanced s s3 {#}"
    by (rule balanced_slot [OF len three(4,1)]) (use held_released [of ?f] sup in \<open>simp add: held_no_list\<close>)
  have "slot_of s3 j = (if j = i then ?g else slot_of s j)" for j
    using three(4) len by (simp add: slot_of_def)
  then have "sync_kept R s s3" using ok3 bal three u by (simp add: sync_kept_def)
  from sync_kept_trans [OF this set_error_kept [OF ok3 R]] show ?thesis by (simp add: eq)
qed

lemma find_req_slot_Some: "find_req_slot req s = Some i \<Longrightarrow> i < NVME_MAX_INFLIGHT \<and> inf_ioreq (slot_of s i) = req"
  by (auto simp: find_req_slot_def find_Some_iff)

lemma find_req_slot_None: "find_req_slot req s = None \<longleftrightarrow> not_inflight req s"
  by (auto simp: find_req_slot_def find_None_iff not_inflight_def)

text \<open>From a slot that holds the request unsuppressed: the wait gives its token back.\<close>

lemma rw_chunk_wait_kept:
  assumes t: "taken req s t" and n: "not_inflight req s" and req: "req \<noteq> 0" and f: "find_req_slot req t = Some i"
  shows "sync_kept {req} s (snd (rw_chunk_wait e req i t))"
proof -
  have i: "i < NVME_MAX_INFLIGHT" "inf_ioreq (slot_of t i) = req" using find_req_slot_Some [OF f] by simp_all
  obtain k where k: "k < NVME_MAX_INFLIGHT" "inf_ioreq (slot_of t k) = req" "\<not> inf_suppress_reply (slot_of t k)"
      "\<And>j. j < NVME_MAX_INFLIGHT \<Longrightarrow> j \<noteq> k \<Longrightarrow> inf_ioreq (slot_of t j) = 0 \<or> inf_ioreq (slot_of t j) = inf_ioreq (slot_of s j)"
    using t by (auto simp: taken_def)
  have "inf_ioreq (slot_of s i) \<noteq> req" using n i(1) by (simp add: not_inflight_def)
  then have "i = k" using k(4) [OF i(1)] i(2) req by metis
  with k have ns: "\<not> inf_suppress_reply (slot_of t i)" by simp
  have okt: "unit_ok (unit_st t)" using t by (simp add: taken_def)
  have len: "i < length (inflight (unit_st t))" using okt i(1) by (simp add: unit_ok_def)
  define t1 where "t1 = upd_slot i (\<lambda>f. f\<lparr>inf_suppress_reply := True\<rparr>) t"
  let ?f = "(slot_of t i)\<lparr>inf_suppress_reply := True\<rparr>"
  have in1: "inflight (unit_st t1) = (inflight (unit_st t))[i := ?f]" by (simp add: t1_def slot_of_def)
  have sok: "slot_ok ?f" using unit_ok_slot [OF okt i(1)] i(2) req by (simp add: slot_ok_def)
  have ok1: "unit_ok (unit_st t1)"
    by (rule unit_ok_slot_update [OF okt i(1) in1 sok]) (use okt i(2) in \<open>auto simp: t1_def unit_ok_def slot_of_def\<close>)
  have bal: "balanced s t1 {#}"
  proof -
    have "held ?f + {#Tok_Req req#} = held (slot_of t i)"
      using ns i(2) req by (simp add: held_def)
    moreover have "held_slots (inflight (unit_st t1)) + held (slot_of t i) = held_slots (inflight (unit_st t)) + held ?f"
      using held_slots_update [OF len, of ?f] in1 by (simp add: slot_of_def)
    ultimately have eq: "held_slots (inflight (unit_st t1)) + {#Tok_Req req#} = held_slots (inflight (unit_st t))"
    proof -
      have "h1 + T = h" if "f + T = old" "h1 + old = h + f" for h1 T h f old :: "token multiset"
      proof -
        have "(h1 + T) + f = h + f" unfolding that(2) [symmetric] that(1) [symmetric] by (simp add: ac_simps)
        then show ?thesis by simp
      qed
      then show "held ?f + {#Tok_Req req#} = held (slot_of t i) \<Longrightarrow>
        held_slots (inflight (unit_st t1)) + held (slot_of t i) = held_slots (inflight (unit_st t)) + held ?f \<Longrightarrow> ?thesis" .
    qed
    have "h1 + o' + i' = r" if "h1 + T = h" "h + o' + i' = r + T" for h1 T h o' i' r :: "token multiset"
    proof -
      have "(h1 + o' + i') + T = r + T" unfolding that(2) [symmetric] that(1) [symmetric] by (simp add: ac_simps)
      then show ?thesis by simp
    qed
    from this [OF eq, of "outs (trace t)" "ins (trace s)"] t show ?thesis
      by (simp add: taken_def balanced_def t1_def)
  qed
  have sl1: "slot_of t1 j = (if j = i then ?f else slot_of t j)" for j
    using in1 len by (simp add: slot_of_def)
  define u where "u = snd (poll_until POLL_BUDGET (NVMeIO_Harvest e) (\<lambda>t. inf_ioreq (slot_of t i) = 0) poll_yield t1)"
  have ku: "io_kept t1 u" unfolding u_def by (rule io_poll.inv_poll) (rule io_kept_refl [OF ok1])
  then have oku: "unit_ok (unit_st u)" and cu: "cleared t1 u" by (simp_all add: io_kept_def)
  have res: "snd (rw_chunk_wait e req i t) = (if inf_ioreq (slot_of u i) \<noteq> 0 then chunk_timeout i req u else u)"
    by (simp add: rw_chunk_wait_def Let_def t1_def u_def)
  have k2: "sync_kept {req} t1 (snd (rw_chunk_wait e req i t))"
  proof (cases "inf_ioreq (slot_of u i) = 0")
    case True
    then show ?thesis using res ku by (simp add: io_kept_sync)
  next
    case False
    then have "slot_of u i = ?f" using cleared_empty [OF cu i(1)] sl1 by simp
    then have "sync_kept {req} u (chunk_timeout i req u)"
      using False by (intro chunk_timeout_kept [OF oku i(1)]) simp_all
    with False res sync_kept_trans [OF io_kept_sync [OF ku]] show ?thesis by simp
  qed
  let ?v = "snd (rw_chunk_wait e req i t)"
  have free: "inf_ioreq (slot_of ?v i) = 0"
  proof (cases "inf_ioreq (slot_of u i) = 0")
    case False
    have "i < length (inflight (unit_st (release_dma i u)))" "i < length (inflight (unit_st u))"
      using oku i(1) by (simp_all add: unit_ok_def release_dma_simps)
    with False res show ?thesis by (simp add: chunk_timeout_def Let_def set_error_def) (simp add: slot_of_def)
  qed (use res in simp)
  have "inf_ioreq (slot_of ?v j) = 0 \<or> inf_ioreq (slot_of ?v j) = inf_ioreq (slot_of s j)"
    if j: "j < NVME_MAX_INFLIGHT" for j
  proof (cases "j = i")
    case False
    have "inf_ioreq (slot_of ?v j) = 0 \<or> inf_ioreq (slot_of ?v j) = inf_ioreq (slot_of t j)"
      using k2 j sl1 False by (auto simp: sync_kept_def)
    then show ?thesis using k(4) [OF j] False \<open>i = k\<close> by auto
  qed (use free in simp)
  moreover have "reqs ?v r = reqs s r" if r: "r \<noteq> 0" "r \<noteq> req" "not_inflight r s" for r
  proof -
    have "not_inflight r t1"
      unfolding not_inflight_def
    proof (intro allI impI)
      fix j assume j: "j < NVME_MAX_INFLIGHT"
      then show "inf_ioreq (slot_of t1 j) \<noteq> r"
        using k(2) k(4) [OF j] \<open>i = k\<close> r sl1 by (cases "j = i") (auto simp: not_inflight_def)
    qed
    then have "reqs ?v r = reqs t1 r" using k2 r by (simp add: sync_kept_def)
    also have "\<dots> = reqs s r" using t r by (simp add: t1_def taken_def)
    finally show ?thesis .
  qed
  ultimately show ?thesis
    using k2 t balanced_trans0 [OF bal, of ?v] by (simp add: sync_kept_def taken_def t1_def)
qed

lemma not_inflight_upd_req [simp]: "not_inflight r (upd_req p f s) = not_inflight r s"
  by (simp add: not_inflight_def slot_of_def)

lemma sync_kept_ok: "sync_kept R s t \<Longrightarrow> unit_ok (unit_st t)"
  by (simp add: sync_kept_def)

lemma rw_chunk_kept:
  assumes ok: "unit_ok (unit_st s)" and n: "not_inflight req s" and req: "req \<noteq> 0" and fl: "dma_flags_clear e"
  shows "sync_kept {req} s (snd (rw_chunk e req w oo oa od chunk off s))"
proof -
  define g where "g = (\<lambda>r. r\<lparr>io_Offset := ucast ((push_bit 32 (ucast oa) OR ucast oo :: u64) + ucast off AND 0xFFFFFFFF),
       io_Actual := ucast (drop_bit 32 ((push_bit 32 (ucast oa) OR ucast oo :: u64) + ucast off)),
       io_Data := od + off, io_Length := chunk\<rparr> :: IOStdReq)"
  define s1 where "s1 = upd_req req g s"
  have k1: "sync_kept {req} s s1" unfolding s1_def by (rule upd_req_kept [OF ok]) simp
  have n1: "not_inflight req s1" using n by (simp add: s1_def)
  obtain rc s2 where r: "submit_retry e (NVMeIO_Submit e req w) s1 = (rc, s2)" by fastforce
  have p: "submit_post req rc s1 s2"
    by (rule sub_ring.retry_post [OF _ sync_kept_ok [OF k1] r]) (simp add: req fl)
  have eq: "rw_chunk e req w oo oa od chunk off s =
      (if rc \<noteq> 0 then (False, if rc = -1 then set_error req IOERR_UNITBUSY s2 else s2)
       else (case find_req_slot req s2 of None \<Rightarrow> (False, set_error req IOERR_ABORTED s2)
               | Some slot \<Rightarrow> rw_chunk_wait e req slot s2))"
    using r by (simp add: rw_chunk_def Let_def s1_def g_def)
  have "sync_kept {req} s1 (snd (rw_chunk e req w oo oa od chunk off s))"
  proof (cases "rc = 0")
    case False
    then have k2: "sync_kept {req} s1 s2" using p by (simp add: submit_post_def)
    with sync_kept_trans [OF k2 set_error_kept [OF sync_kept_ok [OF k2]]] show ?thesis using False by (simp add: eq)
  next
    case True
    then have t: "taken req s1 s2" using p by (simp add: submit_post_def)
    show ?thesis
    proof (cases "find_req_slot req s2")
      case None
      then show ?thesis using t by (auto simp: find_req_slot_None not_inflight_def taken_def)
    next
      case (Some i)
      then show ?thesis using True rw_chunk_wait_kept [OF t n1 req Some] by (simp add: eq)
    qed
  qed
  from sync_kept_trans [OF k1 this] show ?thesis .
qed

lemma chunk_loop_kept:
  assumes "unit_ok (unit_st s)" and "not_inflight req s" and "req \<noteq> 0" and "dma_flags_clear e"
  shows "sync_kept {req} s (chunk_loop e req w oo oa od tlen mc off s)"
  using assms
proof (induction e req w oo oa od tlen mc off s rule: chunk_loop.induct)
  case (1 e req w oo oa od tlen mc off s)
  define r where "r = rw_chunk e req w oo oa od (chunk_size tlen mc off) off s"
  have k: "sync_kept {req} s (snd r)" unfolding r_def by (rule rw_chunk_kept [OF "1.prems"])
  have n: "not_inflight req (snd r)" using sync_kept_not_inflight [OF k "1.prems"(3,2)] .
  show ?case
  proof (cases "off < tlen \<and> fst r")
    case True
    with "1.IH" [OF _ refl refl] sync_kept_ok [OF k] n "1.prems" sync_kept_trans [OF k]
    show ?thesis by (subst chunk_loop.simps) (simp add: Let_def flip: r_def)
  next
    case False
    then show ?thesis using k sync_kept_refl [OF "1.prems"(1)]
      by (subst chunk_loop.simps) (auto simp: Let_def simp flip: r_def)
  qed
qed

text \<open>
  The end of a dispatch: the request is either in a slot that replies, or replied, never
  both and never neither. \<open>served\<close> says that exactly its token entered the ledger.
\<close>

definition served :: "u32 \<Rightarrow> drv \<Rightarrow> drv \<Rightarrow> bool" where
  "served req s s' \<longleftrightarrow> unit_ok (unit_st s') \<and> balanced s s' {#Tok_Req req#} \<and>
     static_of (unit_st s') = static_of (unit_st s) \<and>
     (\<forall>r. r \<noteq> 0 \<and> r \<noteq> req \<and> not_inflight r s \<longrightarrow> reqs s' r = reqs s r \<and> not_inflight r s')"

lemma served_reply:
  assumes "sync_kept {req} s t"
  shows "served req s (ReplyMsg req t)"
proof -
  have "balanced s (ReplyMsg req t) {#Tok_Req req#}"
    using assms by (simp add: sync_kept_def balanced_def)
  then show ?thesis
    using assms sync_kept_not_inflight [OF assms]
    by (auto simp: served_def sync_kept_def not_inflight_def slot_of_def)
qed

lemma served_taken:
  assumes "taken req s t"
  shows "served req s t"
proof -
  have "not_inflight r t" if "r \<noteq> 0" "r \<noteq> req" "not_inflight r s" for r
  proof -
    obtain k where k: "inf_ioreq (slot_of t k) = req"
        "\<And>j. j < NVME_MAX_INFLIGHT \<Longrightarrow> j \<noteq> k \<Longrightarrow> inf_ioreq (slot_of t j) = 0 \<or> inf_ioreq (slot_of t j) = inf_ioreq (slot_of s j)"
      using assms by (auto simp: taken_def)
    show ?thesis unfolding not_inflight_def
    proof (intro allI impI)
      fix j assume j: "j < NVME_MAX_INFLIGHT"
      show "inf_ioreq (slot_of t j) \<noteq> r"
        using k(1) k(2) [OF j] that j by (cases "j = k") (auto simp: not_inflight_def)
    qed
  qed
  then show ?thesis using assms by (simp add: served_def taken_def)
qed

lemma dispatch_rw_fast_served:
  assumes ok: "unit_ok (unit_st s)" and req: "req \<noteq> 0" and fl: "dma_flags_clear e"
  shows "served req s (dispatch_rw_fast e req w s)"
proof -
  obtain rc t where r: "submit_retry e (NVMeIO_SubmitNoRing e req w) s = (rc, t)" by fastforce
  have p: "submit_post req rc s t" by (rule sub_rw.retry_post [OF _ ok r]) (simp add: req fl)
  show ?thesis
  proof (cases "rc = 0")
    case True
    then show ?thesis using p r by (simp add: dispatch_rw_fast_def submit_post_def served_taken)
  next
    case False
    then have k: "sync_kept {req} s t" using p by (simp add: submit_post_def)
    have "sync_kept {req} s (set_error req IOERR_UNITBUSY t)"
      by (rule sync_kept_trans [OF k set_error_kept [OF sync_kept_ok [OF k]]]) simp
    with k False r show ?thesis by (simp add: dispatch_rw_fast_def served_reply)
  qed
qed

lemma dispatch_rw_chunked_served:
  assumes ok: "unit_ok (unit_st s)" and n: "not_inflight req s" and req: "req \<noteq> 0" and fl: "dma_flags_clear e"
  shows "served req s (dispatch_rw_chunked e req w s)"
proof -
  define s1 where "s1 = upd_stats (\<lambda>t. t\<lparr>st_mdts_splits := st_mdts_splits t + 1\<rparr>) s"
  define s2 where "s2 = set_error req IO_OK s1"
  define s3 where "s3 = chunk_loop e req w (io_Offset (reqs s req)) (io_Actual (reqs s req)) (io_Data (reqs s req))
     (io_Length (reqs s req)) (max_transfer_bytes (ctrl_st s)) 0 s2"
  have k1: "sync_kept {req} s s1" unfolding s1_def by (rule upd_stats_kept [OF ok]) simp
  have k2: "sync_kept {req} s1 s2" unfolding s2_def by (rule set_error_kept [OF sync_kept_ok [OF k1]]) simp
  note k12 = sync_kept_trans [OF k1 k2]
  have k3: "sync_kept {req} s2 s3" unfolding s3_def
    by (rule chunk_loop_kept [OF sync_kept_ok [OF k2] sync_kept_not_inflight [OF k12 req n] req fl])
  define f where "f = (\<lambda>r. r\<lparr>io_Offset := io_Offset (reqs s req), io_Actual := (if io_Error r = IO_OK then io_Length (reqs s req) else 0),
     io_Data := io_Data (reqs s req), io_Length := io_Length (reqs s req)\<rparr> :: IOStdReq)"
  have k4: "sync_kept {req} s3 (upd_req req f s3)" by (rule upd_req_kept [OF sync_kept_ok [OF k3]]) simp
  have "served req s (ReplyMsg req (upd_req req f s3))"
    by (rule served_reply [OF sync_kept_trans [OF sync_kept_trans [OF k12 k3] k4]])
  then show ?thesis by (simp add: dispatch_rw_chunked_def Let_def s1_def s2_def s3_def f_def)
qed

lemma dispatch_rw_served:
  assumes "unit_ok (unit_st s)" and "not_inflight req s" and "req \<noteq> 0" and "dma_flags_clear e"
  shows "served req s (dispatch_rw e req w s)"
  using assms by (simp add: dispatch_rw_def dispatch_rw_fast_served dispatch_rw_chunked_served)

section \<open>The schedule of the chunks\<close>

text \<open>
  The reference for the split: piece \<open>k\<close> starts at \<open>k * m\<close> and has \<open>m\<close> bytes, the last one
  what is left. The loop runs exactly these pieces in order and stops at the first one that
  does not succeed.
\<close>

definition rw_plan :: "nat \<Rightarrow> nat \<Rightarrow> (nat \<times> nat) list" where
  "rw_plan n m = map (\<lambda>k. (k * m, min m (n - k * m))) [0..<(n + m - 1) div m]"

fun run_chunks :: "env \<Rightarrow> u32 \<Rightarrow> bool \<Rightarrow> u32 \<Rightarrow> u32 \<Rightarrow> u32 \<Rightarrow> (nat \<times> nat) list \<Rightarrow> drv \<Rightarrow> drv" where
  "run_chunks e req w oo oa od [] s = s"
| "run_chunks e req w oo oa od ((off, c) # ps) s =
     (let r = rw_chunk e req w oo oa od (of_nat c) (of_nat off) s in
      if fst r then run_chunks e req w oo oa od ps (snd r) else snd r)"

lemma plan_ranges:
  "0 < m \<Longrightarrow> concat (map (\<lambda>(off, c). [off..<off + c]) (map (\<lambda>k. (k * m, min m (n - k * m))) [0..<k])) =
     [0..<min n (k * m)]"
proof (induction k)
  case (Suc k)
  show ?case
  proof (cases "k * m \<le> n")
    case True
    then have e: "min n (k * m) = k * m" "k * m + min m (n - k * m) = min n (Suc k * m)"
      unfolding mult_Suc by linarith+
    have "[0..<k * m] @ [k * m..<k * m + min m (n - k * m)] = [0..<k * m + min m (n - k * m)]"
      by (rule upt_add_eq_append [symmetric, of 0, simplified])
    then have "[0..<min n (k * m)] @ [k * m..<k * m + min m (n - k * m)] = [0..<min n (Suc k * m)]"
      unfolding e .
    with Suc show ?thesis by simp
  next
    case False
    with Suc show ?thesis by (simp add: min_def)
  qed
qed simp

lemma plan_count: "0 < (m :: nat) \<Longrightarrow> n \<le> (n + m - 1) div m * m"
  using div_mult_mod_eq [of "n + m - 1" m] mod_less_divisor [of m "n + m - 1"] by linarith

lemma rw_plan_covers: "0 < m \<Longrightarrow> concat (map (\<lambda>(off, c). [off..<off + c]) (rw_plan n m)) = [0..<n]"
  using plan_ranges [of m n "(n + m - 1) div m"] plan_count [of m n]
  by (simp add: rw_plan_def min_absorb1)

lemma rw_plan_bound: "(off, c) \<in> set (rw_plan n m) \<Longrightarrow> c \<le> m"
  by (auto simp: rw_plan_def)

lemma rw_plan_aligned: "b dvd n \<Longrightarrow> b dvd m \<Longrightarrow> (off, c) \<in> set (rw_plan n m) \<Longrightarrow> b dvd off \<and> b dvd c"
  by (auto simp: rw_plan_def min_def)

lemma plan_step: "0 < (m :: nat) \<Longrightarrow> k < (n + m - 1) div m \<longleftrightarrow> k * m < n"
  using less_eq_div_iff_mult_less_eq [of m "Suc k" "n + m - 1"] by (auto simp: Suc_le_eq)

lemma chunk_loop_from:
  assumes "0 < unat mc" and "unat off = k * unat mc" and "k \<le> (unat tlen + unat mc - 1) div unat mc"
  shows "chunk_loop e req w oo oa od tlen mc off s =
    run_chunks e req w oo oa od (map (\<lambda>k. (k * unat mc, min (unat mc) (unat tlen - k * unat mc)))
      [k..<(unat tlen + unat mc - 1) div unat mc]) s"
  using assms
proof (induction "(unat tlen + unat mc - 1) div unat mc - k" arbitrary: k off s)
  case 0
  then have "\<not> k < (unat tlen + unat mc - 1) div unat mc" by simp
  then have "\<not> off < tlen" using plan_step [OF "0.prems"(1), of k "unat tlen"] "0.prems"(2) by (simp add: word_less_nat_alt)
  moreover have "k = (unat tlen + unat mc - 1) div unat mc" using 0 by simp
  ultimately show ?case by (subst chunk_loop.simps) simp
next
  case (Suc d)
  let ?N = "(unat tlen + unat mc - 1) div unat mc"
  have k: "k < ?N" using Suc.hyps(2) by simp
  then have lt: "k * unat mc < unat tlen" using plan_step [OF Suc.prems(1)] by blast
  have off: "off < tlen" using lt Suc.prems(2) by (simp add: word_less_nat_alt)
  have s: "unat (tlen - off) = unat tlen - k * unat mc"
    using off Suc.prems(2) by (simp add: unat_sub word_le_nat_alt word_less_nat_alt less_imp_le)
  have c: "unat (chunk_size tlen mc off) = min (unat mc) (unat tlen - k * unat mc)"
    using s by (simp add: chunk_size_def Let_def min_def word_less_nat_alt)
  then have cw: "of_nat (min (unat mc) (unat tlen - k * unat mc)) = chunk_size tlen mc off"
    by (metis of_nat_unat ucast_id)
  have ow: "of_nat (k * unat mc) = off" using Suc.prems(2) by (metis of_nat_unat ucast_id)
  have nz: "chunk_size tlen mc off \<noteq> 0" using c lt Suc.prems(1) by (auto simp: min_def split: if_splits)
  have rec: "chunk_loop e req w oo oa od tlen mc (off + chunk_size tlen mc off) t =
      run_chunks e req w oo oa od (map (\<lambda>k. (k * unat mc, min (unat mc) (unat tlen - k * unat mc))) [Suc k..<?N]) t" for t
  proof (cases "Suc k < ?N")
    case True
    then have "Suc k * unat mc < unat tlen" using plan_step [OF Suc.prems(1)] by blast
    then have "unat (off + chunk_size tlen mc off) = Suc k * unat mc"
      using chunk_advance(1) [OF off nz] c Suc.prems(2) by simp
    from Suc.hyps(1) [OF _ Suc.prems(1) this] Suc.hyps(2) k show ?thesis by simp
  next
    case False
    then have "unat tlen \<le> Suc k * unat mc" using plan_step [OF Suc.prems(1), of "Suc k" "unat tlen"] by linarith
    then have "unat (off + chunk_size tlen mc off) = unat tlen"
      using chunk_advance(1) [OF off nz] c lt Suc.prems(2) by simp
    then have "\<not> off + chunk_size tlen mc off < tlen" by (simp add: word_less_nat_alt)
    with False show ?thesis by (subst chunk_loop.simps) simp
  qed
  show ?case
    using off by (subst chunk_loop.simps) (simp only: upt_conv_Cons [OF k] list.map run_chunks.simps Let_def cw ow rec if_True)
qed

lemma chunk_loop_plan:
  assumes "0 < unat mc"
  shows "chunk_loop e req w oo oa od tlen mc 0 s = run_chunks e req w oo oa od (rw_plan (unat tlen) (unat mc)) s"
  using chunk_loop_from [OF assms, of 0 0] by (simp add: rw_plan_def)

end
