(* ===== verification/Nvme_Admin.thy ===== *)
theory Nvme_Admin
  imports Nvme_Dispatch
begin

text \<open>
  Admin commands (src/src/nvme/nvme_admin.c): the serial submission of one entry and the
  polling of its completion, and the Identify, Features, queue creation and health log
  commands built on it. Every look at the admin completion queue is a moment at which the
  device may act, logged as \<open>EvPoll\<close>.
\<close>

section \<open>The admin queue pair\<close>

definition ADMIN_POLL_ITERS :: nat where "ADMIN_POLL_ITERS = 5000000"

definition admin_status :: "drv \<Rightarrow> u16" where
  "admin_status s = cqe_status (acq_mem (ram s)) (unat (admin_cq_head (ctrl_st s)))"

definition admin_ready :: "drv \<Rightarrow> bool" where
  "admin_ready s \<longleftrightarrow> NVME_CQE_PHASE (admin_status s) = ucast (admin_cq_phase (ctrl_st s))"

definition admin_advance :: "drv \<Rightarrow> drv" where
  "admin_advance s =
     (let s1 = upd_ctrl (\<lambda>c. c\<lparr>admin_cq_head := ring_next (admin_cq_head c) NVME_ADMIN_QUEUE_DEPTH\<rparr>) s;
          s2 = (if admin_cq_head (ctrl_st s1) = 0
                then upd_ctrl (\<lambda>c. c\<lparr>admin_cq_phase := admin_cq_phase c XOR 1\<rparr>) s1 else s1)
      in nvme_w32 (iobase (ctrl_st s2) + NVME_CQ_HEAD_DB 0 (cap_dstrd (ctrl_st s2)))
           (ucast (admin_cq_head (ctrl_st s2))) s2)"

definition admin_look :: "env \<Rightarrow> drv \<Rightarrow> drv" where
  "admin_look e s = log_ev EvPoll (upd_ram (e_device e (trace s)) s)"

text \<open>The poll loop with its watchdog; \<open>n\<close> passes are left, \<open>i\<close> are done.\<close>

primrec admin_poll :: "env \<Rightarrow> nat \<Rightarrow> nat \<Rightarrow> drv \<Rightarrow> u16 \<times> drv" where
  "admin_poll e 0 i s = (0xFFFF, s)"
| "admin_poll e (Suc n) i s =
     (let s1 = admin_look e s in
      if admin_ready s1 then (NVME_CQE_STATUS (admin_status s1), admin_advance s1)
      else if i mod 0x100000 = 0 \<and> 0 < i then
        (case nvme_r32 e (iobase (ctrl_st s1) + NVME_REG_CSTS) s1 of (csts, s2) \<Rightarrow>
           if csts AND NVME_CSTS_CFS \<noteq> 0 then (0xFFFF, s2) else admin_poll e n (Suc i) s2)
      else admin_poll e n (Suc i) s1)"

definition admin_issue :: "nvme_sqe \<Rightarrow> drv \<Rightarrow> drv" where
  "admin_issue sqe s =
     (let s1 = nvme_w32 (iobase (ctrl_st s) + NVME_REG_INTMS) 1 s;
          cid = next_cmd_id (ctrl_st s1);
          s2 = upd_ctrl (\<lambda>c. c\<lparr>next_cmd_id := next_cmd_id c + 1\<rparr>) s1;
          q = sqe\<lparr>sq_cdw0 := (sq_cdw0 sqe AND 0xFFFF) OR push_bit 16 (ucast cid)\<rparr>;
          slot = admin_sq_tail (ctrl_st s2);
          s3 = upd_ram (\<lambda>m. m\<lparr>asq_mem := write_sqe (asq_mem m) (unat slot) q\<rparr>) s2;
          s4 = upd_ctrl (\<lambda>c. c\<lparr>admin_sq_tail := ring_next slot NVME_ADMIN_QUEUE_DEPTH\<rparr>) s3
      in nvme_w32 (iobase (ctrl_st s4) + NVME_SQ_TAIL_DB 0 (cap_dstrd (ctrl_st s4)))
           (ucast (admin_sq_tail (ctrl_st s4))) s4)"

definition NVMe_AdminCmd :: "env \<Rightarrow> nvme_sqe \<Rightarrow> drv \<Rightarrow> u16 \<times> drv" where
  "NVMe_AdminCmd e sqe s = admin_poll e ADMIN_POLL_ITERS 0 (admin_issue sqe s)"

text \<open>\<open>ObtainSemaphore\<close>, the command, \<open>ReleaseSemaphore\<close>.\<close>

definition locked_cmd :: "env \<Rightarrow> nvme_sqe \<Rightarrow> drv \<Rightarrow> u16 \<times> drv" where
  "locked_cmd e sqe s =
     (case NVMe_AdminCmd e sqe (log_ev EvObtain s) of (st, s1) \<Rightarrow> (st, log_ev EvRelease s1))"

section \<open>Features and queues\<close>

definition NVMe_SetFeature :: "env \<Rightarrow> u32 \<Rightarrow> u32 \<Rightarrow> u32 \<Rightarrow> drv \<Rightarrow> u16 \<times> drv" where
  "NVMe_SetFeature e fid cdw11 cdw12 s = locked_cmd e
     (sqe_zero\<lparr>sq_cdw0 := NVME_ADMIN_SET_FEATURES, sq_nsid := 0, sq_cdw10 := fid AND 0xFF,
        sq_cdw11 := cdw11, sq_cdw12 := cdw12\<rparr>) s"

text \<open>The value stored through \<open>out_value\<close> is the constant 0, the first component.\<close>

definition NVMe_GetFeature :: "env \<Rightarrow> u32 \<Rightarrow> u32 \<Rightarrow> drv \<Rightarrow> u32 \<times> u16 \<times> drv" where
  "NVMe_GetFeature e fid sel s = (0, locked_cmd e
     (sqe_zero\<lparr>sq_cdw0 := NVME_ADMIN_GET_FEATURES, sq_nsid := 0,
        sq_cdw10 := (fid AND 0xFF) OR push_bit 8 (sel AND 7)\<rparr>) s)"

definition NVME_CQ_FLAGS_PC :: u32 where "NVME_CQ_FLAGS_PC = 1"
definition NVME_SQ_FLAGS_PC :: u32 where "NVME_SQ_FLAGS_PC = 1"
definition NVME_SQ_PRIO_LOW :: u32 where "NVME_SQ_PRIO_LOW = push_bit 1 3"

definition create_cq_sqe :: "NVMeUnit \<Rightarrow> u32 \<Rightarrow> nvme_sqe" where
  "create_cq_sqe u cq_phys = sqe_zero\<lparr>sq_cdw0 := NVME_ADMIN_CREATE_CQ, sq_prp1_lo := cq_phys,
     sq_cdw10 := push_bit 16 (ucast (queue_depth u) - 1) OR ucast (queue_id u),
     sq_cdw11 := NVME_CQ_FLAGS_PC\<rparr>"

definition create_sq_sqe :: "NVMeUnit \<Rightarrow> u32 \<Rightarrow> nvme_sqe" where
  "create_sq_sqe u sq_phys = sqe_zero\<lparr>sq_cdw0 := NVME_ADMIN_CREATE_SQ, sq_prp1_lo := sq_phys,
     sq_cdw10 := push_bit 16 (ucast (queue_depth u) - 1) OR ucast (queue_id u),
     sq_cdw11 := NVME_SQ_FLAGS_PC OR NVME_SQ_PRIO_LOW OR push_bit 16 (ucast (queue_id u))\<rparr>"

definition NVMe_CreateIOCQ :: "env \<Rightarrow> u32 \<Rightarrow> drv \<Rightarrow> bool \<times> drv" where
  "NVMe_CreateIOCQ e cq_phys s =
     (case locked_cmd e (create_cq_sqe (unit_st s) cq_phys) s of (st, s1) \<Rightarrow> (st = NVME_STATUS_SUCCESS, s1))"

definition NVMe_CreateIOSQ :: "env \<Rightarrow> u32 \<Rightarrow> drv \<Rightarrow> bool \<times> drv" where
  "NVMe_CreateIOSQ e sq_phys s =
     (case locked_cmd e (create_sq_sqe (unit_st s) sq_phys) s of (st, s1) \<Rightarrow> (st = NVME_STATUS_SUCCESS, s1))"

section \<open>Identify\<close>

definition NVME_ID_CNS_NAMESPACE :: u32 where "NVME_ID_CNS_NAMESPACE = 0"
definition NVME_ID_CNS_CONTROLLER :: u32 where "NVME_ID_CNS_CONTROLLER = 1"
definition NVME_ID_CNS_NS_LIST :: u32 where "NVME_ID_CNS_NS_LIST = 2"

definition buf_bytes :: "buf \<Rightarrow> nat \<Rightarrow> nat \<Rightarrow> u8 list" where
  "buf_bytes b off n = map (\<lambda>i. b (off + i)) [0..<n]"

text \<open>
  The loop that turns trailing spaces into NULs, from the last character down, over a
  string of \<open>n\<close> characters and its final NUL.
\<close>

primrec strip_spaces :: "nat \<Rightarrow> u8 list \<Rightarrow> u8 list" where
  "strip_spaces 0 xs = xs"
| "strip_spaces (Suc i) xs = (if xs ! i = 32 then strip_spaces i (xs[i := 0]) else xs)"

definition id_string :: "buf \<Rightarrow> nat \<Rightarrow> nat \<Rightarrow> u8 list" where
  "id_string b off n = strip_spaces n (buf_bytes b off n @ [0])"

definition SANITY_CAP :: u32 where "SANITY_CAP = 2 * 1024 * 1024"

definition mdts_cap :: "u8 \<Rightarrow> u32 \<Rightarrow> u32" where
  "mdts_cap mdts pgsize =
     (if mdts > 0 then
        let mdts_bytes = push_bit (unat mdts) 1 * pgsize in
        if mdts_bytes < SANITY_CAP then mdts_bytes else SANITY_CAP
      else SANITY_CAP)"

definition parse_controller :: "buf \<Rightarrow> NVMeController \<Rightarrow> NVMeController" where
  "parse_controller b c = c\<lparr>
     model_str := id_string b 24 40, serial_str := id_string b 4 20, fw_rev_str := id_string b 64 8,
     max_transfer_bytes := mdts_cap (b 77) (page_size c),
     onc_dsm := drop_bit 2 (b 520) AND 1 \<noteq> 0,
     vwc_present := b 525 AND 1 \<noteq> 0,
     vwc_enabled := b 525 AND 1 \<noteq> 0\<rparr>"

definition identify_sqe :: "u32 \<Rightarrow> u32 \<Rightarrow> u32 \<Rightarrow> nvme_sqe" where
  "identify_sqe ns phys cns = sqe_zero\<lparr>sq_cdw0 := NVME_ADMIN_IDENTIFY, sq_nsid := ns,
     sq_prp1_lo := phys, sq_cdw10 := cns\<rparr>"

definition NVMe_IdentifyController :: "env \<Rightarrow> drv \<Rightarrow> bool \<times> drv" where
  "NVMe_IdentifyController e s =
     (case locked_cmd e (identify_sqe 0 (identify_phys (ctrl_st s)) NVME_ID_CNS_CONTROLLER) s of (st, s1) \<Rightarrow>
        if st \<noteq> NVME_STATUS_SUCCESS then (False, s1)
        else (True, upd_ctrl (parse_controller (id_mem (ram s1))) s1))"

text \<open>\<open>for (i = 0; i < 1024 && count < max; i++)\<close> up to the first zero identifier.\<close>

fun ns_scan :: "buf \<Rightarrow> nat \<Rightarrow> nat \<Rightarrow> nat \<Rightarrow> u32 list" where
  "ns_scan b i 0 k = []"
| "ns_scan b i (Suc left) k =
     (if k = 0 then [] else let ns = dma_r32 b (4 * i) in
      if ns = 0 then [] else ns # ns_scan b (Suc i) left (k - 1))"

definition NVMe_IdentifyNSList :: "env \<Rightarrow> nat \<Rightarrow> drv \<Rightarrow> u32 list \<times> drv" where
  "NVMe_IdentifyNSList e max_nsids s =
     (case locked_cmd e (identify_sqe 0 (identify_phys (ctrl_st s)) NVME_ID_CNS_NS_LIST) s of (st, s1) \<Rightarrow>
        if st \<noteq> NVME_STATUS_SUCCESS then ([], s1)
        else (ns_scan (id_mem (ram s1)) 0 1024 max_nsids, s1))"

definition parse_namespace :: "buf \<Rightarrow> NVMeUnit \<Rightarrow> NVMeUnit" where
  "parse_namespace b u =
     (let lo = dma_r32 b 0; hi = dma_r32 b 4;
          flbas_idx = b 26 AND 0xF;
          lbads = NVME_LBAF_LBADS (dma_r32 b (128 + unat flbas_idx * 4))
      in u\<lparr>total_blocks := push_bit 32 (ucast hi) OR ucast lo,
           block_size := push_bit (unat lbads) 1, block_shift := lbads\<rparr>)"

definition NVMe_IdentifyNamespace :: "env \<Rightarrow> drv \<Rightarrow> bool \<times> drv" where
  "NVMe_IdentifyNamespace e s =
     (case locked_cmd e (identify_sqe (nsid (unit_st s)) (identify_phys (ctrl_st s)) NVME_ID_CNS_NAMESPACE) s of
        (st, s1) \<Rightarrow> if st \<noteq> NVME_STATUS_SUCCESS then (False, s1)
          else (True, upd_unit (parse_namespace (id_mem (ram s1))) s1))"

section \<open>The health log\<close>

definition read_le64 :: "buf \<Rightarrow> nat \<Rightarrow> u64" where
  "read_le64 b i = push_bit 32 (ucast (dma_r32 b (i + 4))) OR ucast (dma_r32 b i)"

definition parse_smart :: "buf \<Rightarrow> u64 \<Rightarrow> NVMeSMARTCache" where
  "parse_smart b now = \<lparr>sc_valid = True, sc_last_refresh_tbr = now,
     sc_critical_warning = b 0, sc_temp_k = ucast (b 1) OR push_bit 8 (ucast (b 2)),
     sc_spare_pct = b 3, sc_spare_threshold = b 4, sc_life_used_pct = b 5,
     sc_data_read_units = read_le64 b 32, sc_data_written_units = read_le64 b 48,
     sc_host_reads = read_le64 b 64, sc_host_writes = read_le64 b 80,
     sc_power_cycles = read_le64 b 112, sc_power_on_hours = read_le64 b 128,
     sc_unsafe_shutdowns = read_le64 b 144, sc_media_errors = read_le64 b 160\<rparr>"

definition smart_sqe :: "u32 \<Rightarrow> nvme_sqe" where
  "smart_sqe phys = sqe_zero\<lparr>sq_cdw0 := NVME_ADMIN_GET_LOG_PAGE, sq_nsid := 0xFFFFFFFF,
     sq_prp1_lo := phys, sq_cdw10 := push_bit 16 (512 div 4 - 1) OR 2\<rparr>"

definition NVMe_RefreshSMART :: "env \<Rightarrow> drv \<Rightarrow> bool \<times> drv" where
  "NVMe_RefreshSMART e s =
     (let s1 = upd_ram (\<lambda>m. m\<lparr>id_mem := (\<lambda>i. if i < 512 then 0 else id_mem m i)\<rparr>) s in
      case locked_cmd e (smart_sqe (identify_phys (ctrl_st s))) s1 of (st, s2) \<Rightarrow>
        if st \<noteq> NVME_STATUS_SUCCESS then (False, s2)
        else (True, upd_ctrl (\<lambda>c. c\<lparr>smart_cache := parse_smart (id_mem (ram s2)) (e_tbr e (trace s2))\<rparr>) s2))"

definition NVME_SMART_REFRESH_SECS :: u64 where "NVME_SMART_REFRESH_SECS = 30"

text \<open>The staleness test in front of every use of the cache.\<close>

definition smart_stale :: "env \<Rightarrow> drv \<Rightarrow> bool" where
  "smart_stale e s =
     (let sc = smart_cache (ctrl_st s); now = e_tbr e (trace s);
          age = (if sc_last_refresh_tbr sc \<noteq> 0 \<and> sc_last_refresh_tbr sc \<le> now
                 then now - sc_last_refresh_tbr sc else NOT 0);
          window = ucast (e_eclock_freq e) * NVME_SMART_REFRESH_SECS
      in \<not> sc_valid sc \<or> age > window)"

definition smart_fresh :: "env \<Rightarrow> drv \<Rightarrow> drv" where
  "smart_fresh e s = (if smart_stale e s then snd (NVMe_RefreshSMART e s) else s)"

section \<open>What an admin command leaves alone\<close>

text \<open>The unit, the requests and the ledger are untouched, whatever the device does.\<close>

definition admin_kept :: "drv \<Rightarrow> drv \<Rightarrow> bool" where
  "admin_kept s s' \<longleftrightarrow> unit_st s' = unit_st s \<and> reqs s' = reqs s \<and> scsis s' = scsis s \<and>
     ins (trace s') = ins (trace s) \<and> outs (trace s') = outs (trace s)"

lemma admin_kept_refl [simp]: "admin_kept s s"
  by (simp add: admin_kept_def)

lemma admin_kept_trans [trans]: "admin_kept s t \<Longrightarrow> admin_kept t u \<Longrightarrow> admin_kept s u"
  by (simp add: admin_kept_def)

lemma admin_kept_sync: "unit_ok (unit_st s) \<Longrightarrow> admin_kept s s' \<Longrightarrow> sync_kept R s s'"
  by (auto simp: admin_kept_def sync_kept_def slot_of_def balanced_def)

lemma admin_kept_steps [simp]:
  "admin_kept s (nvme_w32 a v t) = admin_kept s t" "admin_kept s (upd_ctrl f t) = admin_kept s t"
  "admin_kept s (upd_ram g t) = admin_kept s t"
  by (simp_all add: admin_kept_def)

lemma admin_kept_log [simp]:
  "ins_ev ev = {#} \<Longrightarrow> outs_ev ev = {#} \<Longrightarrow> admin_kept s (log_ev ev t) = admin_kept s t"
  by (simp add: admin_kept_def)

lemma admin_advance_kept: "admin_kept s (admin_advance t) = admin_kept s t"
  by (simp add: admin_advance_def Let_def)

lemma admin_look_kept: "admin_kept s (admin_look e s)"
  by (simp add: admin_look_def)

lemma admin_poll_kept: "admin_kept s (snd (admin_poll e n i s))"
proof (induction n arbitrary: i s)
  case (Suc n)
  have l: "admin_kept s (log_ev (EvR32 a) (admin_look e s))" for a by (simp add: admin_look_kept)
  show ?case
    using admin_look_kept [of s e] l [THEN admin_kept_trans, OF Suc.IH] admin_look_kept [THEN admin_kept_trans, OF Suc.IH]
    by (simp add: Let_def nvme_r32_def admin_advance_kept)
qed simp

lemma admin_issue_kept: "admin_kept s (admin_issue sqe t) = admin_kept s t"
  by (simp add: admin_issue_def Let_def)

lemma AdminCmd_kept: "admin_kept s (snd (NVMe_AdminCmd e sqe s))"
  unfolding NVMe_AdminCmd_def
  by (rule admin_kept_trans [OF _ admin_poll_kept]) (simp add: admin_issue_kept)

lemma locked_cmd_kept: "admin_kept s (snd (locked_cmd e sqe s))"
proof -
  obtain st t where t: "NVMe_AdminCmd e sqe (log_ev EvObtain s) = (st, t)" by fastforce
  have "admin_kept s (log_ev EvObtain s)" by simp
  then have "admin_kept s t" using AdminCmd_kept [of "log_ev EvObtain s" e sqe] t by (metis admin_kept_trans snd_conv)
  then show ?thesis by (simp add: locked_cmd_def t)
qed

lemma SetFeature_kept: "admin_kept s (snd (NVMe_SetFeature e fid a b s))"
  by (simp add: NVMe_SetFeature_def locked_cmd_kept)

lemma RefreshSMART_kept: "admin_kept s (snd (NVMe_RefreshSMART e s))"
proof -
  define s1 where "s1 = upd_ram (\<lambda>m. m\<lparr>id_mem := (\<lambda>i. if i < 512 then 0 else id_mem m i)\<rparr>) s"
  obtain st t where t: "locked_cmd e (smart_sqe (identify_phys (ctrl_st s))) s1 = (st, t)" by fastforce
  have "admin_kept s s1" by (simp add: s1_def)
  moreover have "admin_kept s1 t" using locked_cmd_kept [of s1 e "smart_sqe (identify_phys (ctrl_st s))"] t by simp
  ultimately have "admin_kept s t" by (rule admin_kept_trans)
  then show ?thesis by (simp add: NVMe_RefreshSMART_def t flip: s1_def)
qed

lemma smart_fresh_kept: "admin_kept s (smart_fresh e s)"
  by (simp add: smart_fresh_def RefreshSMART_kept)

section \<open>The admin rings\<close>

lemma admin_issue_entry:
  "fetch_sqe (asq_mem (ram (admin_issue sqe s))) (unat (admin_sq_tail (ctrl_st s))) =
     sqe\<lparr>sq_cdw0 := (sq_cdw0 sqe AND 0xFFFF) OR push_bit 16 (ucast (next_cmd_id (ctrl_st s)))\<rparr>"
  "i \<noteq> unat (admin_sq_tail (ctrl_st s)) \<Longrightarrow>
     fetch_sqe (asq_mem (ram (admin_issue sqe s))) i = fetch_sqe (asq_mem (ram s)) i"
  "admin_sq_tail (ctrl_st (admin_issue sqe s)) = ring_next (admin_sq_tail (ctrl_st s)) NVME_ADMIN_QUEUE_DEPTH"
  "next_cmd_id (ctrl_st (admin_issue sqe s)) = next_cmd_id (ctrl_st s) + 1"
  "admin_cq_head (ctrl_st (admin_issue sqe s)) = admin_cq_head (ctrl_st s)"
  "admin_cq_phase (ctrl_st (admin_issue sqe s)) = admin_cq_phase (ctrl_st s)"
  by (simp_all add: admin_issue_def Let_def write_sqe_eq)

lemma admin_advance_ring:
  "admin_cq_head (ctrl_st (admin_advance s)) = ring_next (admin_cq_head (ctrl_st s)) NVME_ADMIN_QUEUE_DEPTH"
  "admin_cq_phase (ctrl_st (admin_advance s)) = (if ring_next (admin_cq_head (ctrl_st s)) NVME_ADMIN_QUEUE_DEPTH = 0
     then admin_cq_phase (ctrl_st s) XOR 1 else admin_cq_phase (ctrl_st s))"
  by (simp_all add: admin_advance_def Let_def)

text \<open>The completion queue interface again, now on the admin queue of 64 entries.\<close>

interpretation admin_cq: cq_ring "\<lambda>s. admin_cq_head (ctrl_st s)" "\<lambda>s. admin_cq_phase (ctrl_st s)"
    NVME_ADMIN_QUEUE_DEPTH admin_advance "\<lambda>s. True"
  by unfold_locales (simp_all add: admin_advance_ring NVME_ADMIN_QUEUE_DEPTH_def)

definition admin_at :: "nat \<Rightarrow> drv \<Rightarrow> bool" where
  "admin_at n s \<longleftrightarrow> unat (admin_cq_head (ctrl_st s)) = n mod NVME_ADMIN_QUEUE_DEPTH \<and>
     admin_cq_phase (ctrl_st s) = (if even (n div NVME_ADMIN_QUEUE_DEPTH) then 1 else 0)"

lemma admin_at_advance: "admin_at n s \<Longrightarrow> admin_at (Suc n) (admin_advance s)"
  using admin_cq.at_advance [of n s] by (simp add: admin_cq.at_def admin_at_def)

lemma status_15bit: "NVME_CQE_STATUS st \<noteq> 0xFFFF"
proof
  assume "NVME_CQE_STATUS st = 0xFFFF"
  then have "bit (NVME_CQE_STATUS st) 15 = bit (0xFFFF :: u16) 15" by simp
  moreover have "\<not> bit (0x7FFF :: u16) 15" "bit (0xFFFF :: u16) 15" by simp_all
  ultimately show False by (simp add: NVME_CQE_STATUS_def bit_and_iff)
qed

lemma admin_look_ring [simp]: "ctrl_st (admin_look e s) = ctrl_st s"
  by (simp add: admin_look_def)

text \<open>
  The result tells apart a completion, which advances the queue by one, from a timeout or
  a fatal controller, which leaves it where it was.
\<close>

lemma admin_poll_result:
  assumes "admin_poll e n i s = (st, s')"
  shows "if st = 0xFFFF then ctrl_st s' = ctrl_st s
         else \<exists>t. ctrl_st t = ctrl_st s \<and> admin_ready t \<and> st = NVME_CQE_STATUS (admin_status t) \<and> s' = admin_advance t"
  using assms
proof (induction n arbitrary: i s)
  case (Suc n)
  let ?t = "admin_look e s"
  have c: "ctrl_st (log_ev ev ?t) = ctrl_st s" for ev by simp
  show ?case
  proof (cases "admin_ready ?t")
    case True
    then show ?thesis using Suc.prems status_15bit by (auto simp: Let_def intro!: exI [of _ ?t])
  next
    case False
    with Suc.prems Suc.IH [of "Suc i" "log_ev (EvR32 (iobase (ctrl_st s) + NVME_REG_CSTS)) ?t"] Suc.IH [of "Suc i" ?t]
    show ?thesis by (auto simp: Let_def nvme_r32_def split: if_splits)
  qed
qed simp

section \<open>Identify data\<close>

lemma strip_spaces_eq:
  "length xs = n \<Longrightarrow> strip_spaces n (xs @ ys) =
     rev (dropWhile (\<lambda>c. c = 32) (rev xs)) @ replicate (n - length (dropWhile (\<lambda>c. c = 32) (rev xs))) 0 @ ys"
proof (induction n arbitrary: xs ys)
  case (Suc n)
  then obtain zs z where xs: "xs = zs @ [z]" and zs: "length zs = n"
    by (metis length_Suc_conv_rev)
  show ?case
  proof (cases "z = 32")
    case True
    have le: "length (dropWhile (\<lambda>c. c = 32) (rev zs)) \<le> n" using zs by (metis length_dropWhile_le length_rev)
    have "strip_spaces (Suc n) (xs @ ys) = strip_spaces n (zs @ 0 # ys)"
      using True zs by (simp add: xs nth_append list_update_append)
    also have "\<dots> = rev (dropWhile (\<lambda>c. c = 32) (rev zs)) @
        replicate (n - length (dropWhile (\<lambda>c. c = 32) (rev zs))) 0 @ 0 # ys"
      by (rule Suc.IH [OF zs])
    also have "\<dots> = rev (dropWhile (\<lambda>c. c = 32) (rev xs)) @
        replicate (Suc n - length (dropWhile (\<lambda>c. c = 32) (rev xs))) 0 @ ys"
      using True le by (simp add: xs Suc_diff_le replicate_app_Cons_same)
    finally show ?thesis .
  next
    case False
    then show ?thesis using zs by (simp add: xs nth_append)
  qed
qed simp

lemma id_string_eq:
  "id_string b off n =
     (let s = rev (dropWhile (\<lambda>c. c = 32) (rev (buf_bytes b off n))) in s @ replicate (Suc n - length s) 0)"
proof -
  let ?d = "dropWhile (\<lambda>c. c = 32) (rev (buf_bytes b off n))"
  have l: "length (buf_bytes b off n) = n" by (simp add: buf_bytes_def)
  have "length ?d \<le> n" using length_dropWhile_le [of _ "rev (buf_bytes b off n)"] l by simp
  then show ?thesis
    unfolding id_string_def strip_spaces_eq [OF l] Let_def
    by (simp add: Suc_diff_le replicate_append_same [symmetric])
qed

lemma mdts_cap_le: "mdts_cap m ps \<le> SANITY_CAP"
  by (simp add: mdts_cap_def Let_def less_imp_le)

lemma unat_push_one: "m < 32 \<Longrightarrow> unat (push_bit m 1 :: u32) = 2 ^ m"
proof -
  assume m: "m < 32"
  have "push_bit m 1 = (of_nat (2 ^ m) :: u32)" by simp
  moreover have "(2 :: nat) ^ m < 2 ^ LENGTH(32)" using m by (intro power_strict_increasing) auto
  ultimately show ?thesis by (simp only: unat_of_nat_small)
qed

lemma ns_scan_eq:
  "ns_scan b i left k = take k (takeWhile (\<lambda>x. x \<noteq> 0) (map (\<lambda>j. dma_r32 b (4 * j)) [i..<i + left]))"
proof (induction b i left k rule: ns_scan.induct)
  case (2 b i left k)
  then show ?case by (cases k) (simp_all add: Let_def upt_conv_Cons del: upt_Suc)
qed simp

end
