(* ===== verification/Nvme_Scsi.thy ===== *)
theory Nvme_Scsi
  imports Nvme_Admin
begin

text \<open>
  The SCSI commands of \<open>HD_SCSICMD\<close> (src/src/scsi_cmds/ and \<open>handle_scsi_cmd\<close> of
  src/src/unit_task.c). The command block is the record at the address \<open>io_Data\<close>; the
  command bytes, the data and the sense buffer are bytes of CPU memory at the addresses it
  holds. A response that the code builds in a local array is a list of bytes.
\<close>

section \<open>Memory and outcomes\<close>

definition wmem :: "u32 \<Rightarrow> u8 list \<Rightarrow> drv \<Rightarrow> drv" where
  "wmem a xs = upd_ram (\<lambda>m. m\<lparr>mem := mem_write (mem m) a xs\<rparr>)"

definition rmem :: "drv \<Rightarrow> u32 \<Rightarrow> nat \<Rightarrow> u8" where
  "rmem s a i = mem (ram s) (a + of_nat i)"

definition NVME_SSK_MEDIUM_ERROR :: u8 where "NVME_SSK_MEDIUM_ERROR = 3"
definition NVME_SSK_ILLEGAL_REQUEST :: u8 where "NVME_SSK_ILLEGAL_REQUEST = 5"

definition sense_bytes :: "u8 \<Rightarrow> u8 \<Rightarrow> u8 \<Rightarrow> u8 list" where
  "sense_bytes key asc ascq = (replicate 18 0)[0 := 0x70, 2 := key, 7 := 10, 12 := asc, 13 := ascq]"

definition NVMe_SCSI_FillSense :: "u32 \<Rightarrow> u8 \<Rightarrow> u8 \<Rightarrow> u8 \<Rightarrow> drv \<Rightarrow> drv" where
  "NVMe_SCSI_FillSense sp key asc ascq s =
     (let c = scsis s sp in
      if scsi_SenseData c \<noteq> 0 \<and> 18 \<le> scsi_SenseLength c
      then upd_scsi sp (\<lambda>c. c\<lparr>scsi_SenseActual := 18\<rparr>) (wmem (scsi_SenseData c) (sense_bytes key asc ascq) s)
      else s)"

text \<open>The two ways out of a handler: CHECK CONDITION with sense data, and GOOD.\<close>

definition check_condition :: "u32 \<Rightarrow> u32 \<Rightarrow> u8 \<Rightarrow> u8 \<Rightarrow> u8 \<Rightarrow> drv \<Rightarrow> drv" where
  "check_condition req sp key asc ascq s =
     upd_req req (\<lambda>r. r\<lparr>io_Error := HFERR_BadStatus\<rparr>)
       (NVMe_SCSI_FillSense sp key asc ascq (upd_scsi sp (\<lambda>c. c\<lparr>scsi_Status := 2\<rparr>) s))"

definition scsi_good :: "u32 \<Rightarrow> u32 \<Rightarrow> u32 \<Rightarrow> drv \<Rightarrow> drv" where
  "scsi_good req sp n s =
     upd_req req (\<lambda>r. r\<lparr>io_Actual := n, io_Error := IO_OK\<rparr>)
       (upd_scsi sp (\<lambda>c. c\<lparr>scsi_Status := 0, scsi_Actual := n\<rparr>) s)"

definition set_actual :: "u32 \<Rightarrow> u32 \<Rightarrow> drv \<Rightarrow> drv" where
  "set_actual sp n = upd_scsi sp (\<lambda>c. c\<lparr>scsi_Actual := n\<rparr>)"

text \<open>\<open>copy = alloc < sizeof(resp) ? alloc : sizeof(resp); memcpy(buf, resp, copy)\<close>\<close>

definition reply_bytes :: "u32 \<Rightarrow> u32 \<Rightarrow> u8 list \<Rightarrow> drv \<Rightarrow> u32 \<times> drv" where
  "reply_bytes buf alloc resp s =
     (let n = (if alloc < of_nat (length resp) then alloc else of_nat (length resp))
      in (n, wmem buf (take (unat n) resp) s))"

section \<open>LOG SENSE\<close>

definition emit_supported_pages :: "u32 \<Rightarrow> u32 \<Rightarrow> drv \<Rightarrow> u32 \<times> drv" where
  "emit_supported_pages buf alloc = reply_bytes buf alloc [0x00, 0x00, 0x00, 2, 0x00, 0x2F]"

definition ie_page :: "NVMeSMARTCache \<Rightarrow> u8 list" where
  "ie_page v =
     (let t = int (unat (sc_temp_k v)) - 273;
          t1 = (if t < 0 then 0 else t);
          t2 = (if t1 > 255 then 255 else t1);
          temp_c = (if sc_valid v then word_of_int t2 else 0);
          warn = (sc_valid v \<and> sc_critical_warning v \<noteq> 0);
          ie_asc = (if warn then 0x5D else 0);
          ie_ascq = (if warn then 0x10 else 0)
      in [0x2F, 0x00, 0x00, 8, 0x00, 0x00, 0x03, 0x04, ie_asc, ie_ascq, temp_c, 0x00])"

definition emit_ie_page :: "env \<Rightarrow> u32 \<Rightarrow> u32 \<Rightarrow> drv \<Rightarrow> u32 \<times> drv" where
  "emit_ie_page e buf alloc s =
     (let s1 = smart_fresh e s in reply_bytes buf alloc (ie_page (smart_cache (ctrl_st s1))) s1)"

definition NVMe_SCSI_HandleLogSense :: "env \<Rightarrow> u32 \<Rightarrow> drv \<Rightarrow> drv" where
  "NVMe_SCSI_HandleLogSense e req s =
     (let sp = io_Data (reqs s req); c = scsis s sp;
          page = rmem s (scsi_Command c) 2 AND 0x3F;
          buf = scsi_Data c; alloc = scsi_Length c;
          bad = check_condition req sp NVME_SSK_ILLEGAL_REQUEST 0x24 0x00 (set_actual sp 0 s);
          done = (\<lambda>(n, t). scsi_good req sp n t)
      in if buf = 0 \<or> alloc = 0 then bad
         else if page = 0x00 then done (emit_supported_pages buf alloc s)
         else if page = 0x2F then done (emit_ie_page e buf alloc s)
         else bad)"

section \<open>MODE SENSE and MODE SELECT\<close>

definition caching_page :: "bool \<Rightarrow> u8 list" where
  "caching_page wce = (replicate 20 0)[0 := 0x08, 1 := 0x12, 2 := if wce then 0x04 else 0x00]"

text \<open>The length field of the header, written last over the cleared header.\<close>

definition mode_header :: "bool \<Rightarrow> u32 \<Rightarrow> u8 list" where
  "mode_header is10 total_bytes =
     (if is10 then [ucast (drop_bit 8 (total_bytes - 2)), ucast (total_bytes - 2)]
      else [ucast ((total_bytes - 1) AND 0xFF)])"

definition NVMe_SCSI_HandleModeSense :: "env \<Rightarrow> u32 \<Rightarrow> drv \<Rightarrow> drv" where
  "NVMe_SCSI_HandleModeSense e req s =
     (let sp = io_Data (reqs s req); c = scsis s sp; cdb = rmem s (scsi_Command c);
          is10 = (cdb 0 = 0x5A);
          page_code = cdb 2 AND 0x3F;
          alloc_len = (if is10 then push_bit 8 (ucast (cdb 7)) OR ucast (cdb 8) else ucast (cdb 4)) :: u32
      in if scsi_Data c = 0 \<or> scsi_Length c < alloc_len
         then upd_req req (\<lambda>r. r\<lparr>io_Error := HFERR_BadStatus\<rparr>) (upd_scsi sp (\<lambda>c. c\<lparr>scsi_Status := 2\<rparr>) s)
         else
      let out = scsi_Data c; header_len = (if is10 then 8 else 4) :: u32 in
      if alloc_len < header_len
      then upd_req req (\<lambda>r. r\<lparr>io_Actual := alloc_len, io_Error := IO_OK\<rparr>)
             (set_actual sp alloc_len (wmem out (replicate (unat alloc_len) 0) s))
      else
      let s1 = wmem out (replicate (unat header_len) 0) s;
          body_room = (if alloc_len > header_len then alloc_len - header_len else 0);
          wce = vwc_enabled (ctrl_st s1)
      in if page_code = 0x08 \<or> page_code = 0x3F
         then let (body_used, s2) =
                (if body_room \<ge> 20 then (20, wmem (out + header_len) (caching_page wce) s1)
                 else (body_room, upd_ram (\<lambda>m. m\<lparr>mem := e_CopyMem_out e (\<lambda>i. if i < 20 then caching_page wce ! i else 0)
                                    (mem m) (out + header_len) body_room\<rparr>) s1));
                  total_bytes = header_len + body_used
              in scsi_good req sp total_bytes (wmem out (mode_header is10 total_bytes) s2)
         else check_condition req sp NVME_SSK_ILLEGAL_REQUEST 0x24 0x00 s1)"

text \<open>
  The walk over the mode pages: \<open>None\<close> if a page runs past the list, otherwise the write
  cache setting and whether a caching page was seen. The list length comes from one or two
  command bytes, so it is a 16-bit value widened to \<open>ULONG\<close>.
\<close>

function mode_walk :: "(u32 \<Rightarrow> u8) \<Rightarrow> u16 \<Rightarrow> u32 \<Rightarrow> bool \<times> bool \<Rightarrow> (bool \<times> bool) option" where
  "mode_walk inp param_len off acc =
     (if off + 2 \<le> ucast param_len then
        let pc = inp off AND 0x3F; plen = ucast (inp (off + 1)) :: u32 in
        if off + 2 + plen > ucast param_len then None
        else mode_walk inp param_len (off + (2 + plen))
               (if pc = 0x08 \<and> plen \<ge> 1 then (inp (off + 2) AND 0x04 \<noteq> 0, True) else acc)
      else Some acc)"
  by pat_completeness auto

lemma mode_walk_decreases:
  fixes off plen :: u32
  assumes "off + 2 + ucast (p :: u8) \<le> ucast (param_len :: u16)" and "off + 2 \<le> ucast param_len"
  shows "(if 65535 < unat (off + (2 + ucast p)) then 70000 else unat param_len - unat (off + (2 + ucast p)))
     < (if 65535 < unat off then 70000 else unat param_len - unat off)"
proof -
  have pl: "unat param_len < 65536" by (rule u16_bound)
  have b: "unat (off + (2 + ucast p)) \<le> unat param_len"
    using assms(1) by (simp add: word_le_nat_alt add.assoc)
  show ?thesis
  proof (cases "65535 < unat off")
    case True
    have "unat (off + (2 + ucast p)) \<le> 65535" using b pl by linarith
    moreover have "unat param_len - unat (off + (2 + ucast p)) < 70000" using pl by linarith
    ultimately show ?thesis using True by simp
  next
    case False
    have p: "unat (2 + ucast p :: u32) = 2 + unat p"
    proof -
      have "unat p < 256" using unsigned_less [of p] by simp
      then show ?thesis using unat_plus_small [of "2 :: u32" "ucast p"] by simp
    qed
    have "unat p < 256" using unsigned_less [of p] by simp
    then have "unat (off + (2 + ucast p)) = unat off + (2 + unat p)"
      using unat_plus_small [of off "2 + ucast p"] p False by simp
    moreover from this b pl have "\<not> 65535 < unat (off + (2 + ucast p))" by linarith
    moreover have "unat param_len - (unat off + (2 + unat p)) < unat param_len - unat off"
      using calculation(1) b by linarith
    ultimately show ?thesis using False by simp
  qed
qed

termination mode_walk
  by (relation "measure (\<lambda>(inp, pl, off, acc). if 65535 < unat off then 70000 else unat pl - unat off)", simp)
    (simp only: in_measure case_prod_conv, rule mode_walk_decreases, simp_all add: not_less)

declare mode_walk.simps [simp del]

definition NVMe_SCSI_HandleModeSelect :: "env \<Rightarrow> u32 \<Rightarrow> drv \<Rightarrow> drv" where
  "NVMe_SCSI_HandleModeSelect e req s =
     (let sp = io_Data (reqs s req); c = scsis s sp; cdb = rmem s (scsi_Command c);
          is10 = (cdb 0 = 0x55);
          len16 = (if is10 then push_bit 8 (ucast (cdb 7)) OR ucast (cdb 8) else ucast (cdb 4)) :: u16;
          param_len = ucast len16 :: u32;
          illegal = check_condition req sp NVME_SSK_ILLEGAL_REQUEST
      in if param_len = 0 then scsi_good req sp 0 s
         else if scsi_Data c = 0 \<or> scsi_Length c < param_len then illegal 0x1A 0x00 s
         else
      let inp = (\<lambda>i :: u32. mem (ram s) (scsi_Data c + i)); header_len = (if is10 then 8 else 4) :: u32 in
      if param_len < header_len then illegal 0x1A 0x00 s
      else
      let bd_len = (if is10 then push_bit 8 (ucast (inp 6)) OR ucast (inp 7) else ucast (inp 3)) :: u32 in
      if header_len + bd_len > param_len then illegal 0x26 0x00 s
      else
      case mode_walk inp len16 (header_len + bd_len) (vwc_enabled (ctrl_st s), False) of
        None \<Rightarrow> illegal 0x26 0x01 s
      | Some (wce_new, saw_caching) \<Rightarrow>
          if saw_caching \<and> vwc_present (ctrl_st s) \<and> wce_new \<noteq> vwc_enabled (ctrl_st s)
          then (case NVMe_SetFeature e NVME_FEATURE_VOLATILE_WRITE_CACHE (if wce_new then 1 else 0) 0 s of
                  (st, s1) \<Rightarrow>
                    if st \<noteq> NVME_STATUS_SUCCESS then check_condition req sp NVME_SSK_MEDIUM_ERROR 0x00 0x00 s1
                    else scsi_good req sp param_len (upd_ctrl (\<lambda>c. c\<lparr>vwc_enabled := wce_new\<rparr>) s1))
          else scsi_good req sp param_len s)"

section \<open>UNMAP\<close>

definition be64_read :: "(nat \<Rightarrow> u8) \<Rightarrow> nat \<Rightarrow> u64" where
  "be64_read p i = push_bit 56 (ucast (p i)) OR push_bit 48 (ucast (p (i + 1)))
     OR push_bit 40 (ucast (p (i + 2))) OR push_bit 32 (ucast (p (i + 3)))
     OR push_bit 24 (ucast (p (i + 4))) OR push_bit 16 (ucast (p (i + 5)))
     OR push_bit 8 (ucast (p (i + 6))) OR ucast (p (i + 7))"

definition be32_read :: "(nat \<Rightarrow> u8) \<Rightarrow> nat \<Rightarrow> u32" where
  "be32_read p i = push_bit 24 (ucast (p i)) OR push_bit 16 (ucast (p (i + 1)))
     OR push_bit 8 (ucast (p (i + 2))) OR ucast (p (i + 3))"

definition be16_read :: "(nat \<Rightarrow> u8) \<Rightarrow> nat \<Rightarrow> u16" where
  "be16_read p i = push_bit 8 (ucast (p i)) OR ucast (p (i + 1))"

text \<open>The translation loop: descriptor \<open>i\<close> of the list becomes range \<open>i\<close> of the page.\<close>

definition put_range :: "(nat \<Rightarrow> u8) \<Rightarrow> nat \<Rightarrow> nat \<Rightarrow> buf \<Rightarrow> buf" where
  "put_range p src dst b =
     (let slba = be64_read p src; blocks = be32_read p (src + 8) in
      dma_w32 (dma_w32 (dma_w32 (dma_w32 b dst 0) (dst + 4) blocks)
        (dst + 8) (ucast (slba AND 0xFFFFFFFF))) (dst + 12) (ucast (drop_bit 32 slba)))"

primrec unmap_loop :: "(nat \<Rightarrow> u8) \<Rightarrow> nat \<Rightarrow> nat \<Rightarrow> nat \<Rightarrow> buf \<Rightarrow> buf" where
  "unmap_loop p 0 src dst b = b"
| "unmap_loop p (Suc n) src dst b = unmap_loop p n (src + 16) (dst + 16) (put_range p src dst b)"

definition dsm_sqe :: "NVMeUnit \<Rightarrow> u32 \<Rightarrow> nvme_sqe" where
  "dsm_sqe u n_desc = sqe_zero\<lparr>sq_cdw0 := NVME_CMD_DSM, sq_nsid := nsid u, sq_prp1_lo := dsm_phys u,
     sq_prp1_hi := 0, sq_cdw10 := (n_desc - 1) AND 0xFF, sq_cdw11 := NVME_DSM_ATTR_AD\<rparr>"

text \<open>The end shared by UNMAP and SYNCHRONIZE CACHE: the status of the synchronous command.\<close>

definition sync_outcome :: "u32 \<Rightarrow> u32 \<Rightarrow> u16 \<times> drv \<Rightarrow> drv" where
  "sync_outcome req sp r =
     (let s = snd r in
      if fst r = 0 then scsi_good req sp 0 s
      else upd_req req (\<lambda>q. q\<lparr>io_Actual := 0, io_Error := (if io_Error q = IO_OK then HFERR_BadStatus else io_Error q)\<rparr>)
             (NVMe_SCSI_FillSense sp NVME_SSK_MEDIUM_ERROR 0x00 0x00 (upd_scsi sp (\<lambda>c. c\<lparr>scsi_Status := 2\<rparr>) s)))"

definition NVMe_SCSI_HandleUnmap :: "env \<Rightarrow> u32 \<Rightarrow> drv \<Rightarrow> drv" where
  "NVMe_SCSI_HandleUnmap e req s =
     (let sp = io_Data (reqs s req); c = scsis s sp; u = unit_st s;
          illegal = check_condition req sp NVME_SSK_ILLEGAL_REQUEST
      in if \<not> onc_dsm (ctrl_st s) then illegal 0x20 0x00 s
         else if dsm_buf u = 0 \<or> dsm_phys u = 0 then illegal 0x20 0x00 s
         else
      let cdb = rmem s (scsi_Command c) in
      if cdb 1 AND 1 \<noteq> 0 then illegal 0x24 0x00 s
      else if be16_read cdb 7 = 0 then scsi_good req sp 0 s
      else if scsi_Data c = 0 \<or> scsi_Length c < 8 then illegal 0x1A 0x00 s
      else
      let param = rmem s (scsi_Data c);
          bd_len = ucast (be16_read param 2) :: u32;
          n_desc = bd_len div 16
      in if n_desc = 0 then scsi_good req sp 0 s
         else if n_desc > NVME_DSM_MAX_RANGES then illegal 0x26 0x00 s
         else if scsi_Length c < 8 + n_desc * 16 then illegal 0x1A 0x00 s
         else sync_outcome req sp (NVMeIO_SubmitAndWait e req (dsm_sqe u n_desc)
                (upd_ram (\<lambda>m. m\<lparr>dsm_mem := unmap_loop param (unat n_desc) 8 0 (dsm_mem m)\<rparr>) s)))"

section \<open>The handlers keep the ledger\<close>

text \<open>Effects on records and memory other than another request are invisible to \<open>sync_kept\<close>.\<close>

lemma sync_kept_effects [simp]:
  "sync_kept R s (upd_scsi p f t) = sync_kept R s t"
  "sync_kept R s (upd_ram g t) = sync_kept R s t"
  "sync_kept R s (upd_ctrl c t) = sync_kept R s t"
  by (simp_all add: sync_kept_def slot_of_def balanced_def)

lemma sync_kept_upd_req [simp]: "req \<in> R \<Longrightarrow> sync_kept R s (upd_req req f t) = sync_kept R s t"
  by (auto simp: sync_kept_def slot_of_def balanced_def)

lemma sync_kept_outcomes [simp]:
  "sync_kept R s (wmem addr xs t) = sync_kept R s t"
  "sync_kept R s (set_actual sp n t) = sync_kept R s t"
  "sync_kept R s (NVMe_SCSI_FillSense sp k a q t) = sync_kept R s t"
  "req \<in> R \<Longrightarrow> sync_kept R s (check_condition req sp k a q t) = sync_kept R s t"
  "req \<in> R \<Longrightarrow> sync_kept R s (scsi_good req sp n t) = sync_kept R s t"
  by (simp_all add: wmem_def set_actual_def NVMe_SCSI_FillSense_def check_condition_def scsi_good_def Let_def)

lemma reply_bytes_kept [simp]: "sync_kept R s (snd (reply_bytes buf n xs t)) = sync_kept R s t"
  by (simp add: reply_bytes_def Let_def)

lemma smart_fresh_sync: "unit_ok (unit_st s) \<Longrightarrow> sync_kept R s (smart_fresh e s)"
  by (simp add: admin_kept_sync smart_fresh_kept)

lemma LogSense_kept: "unit_ok (unit_st s) \<Longrightarrow> sync_kept {req} s (NVMe_SCSI_HandleLogSense e req s)"
  by (simp add: NVMe_SCSI_HandleLogSense_def emit_supported_pages_def emit_ie_page_def Let_def
      case_prod_unfold sync_kept_refl smart_fresh_sync)

lemma ModeSense_kept: "unit_ok (unit_st s) \<Longrightarrow> sync_kept {req} s (NVMe_SCSI_HandleModeSense e req s)"
  by (simp add: NVMe_SCSI_HandleModeSense_def Let_def sync_kept_refl)

lemma ModeSelect_kept:
  assumes "unit_ok (unit_st s)"
  shows "sync_kept {req} s (NVMe_SCSI_HandleModeSelect e req s)"
proof -
  have k: "sync_kept {req} s (snd (NVMe_SetFeature e fid a b s))" for fid a b
    by (rule admin_kept_sync [OF assms SetFeature_kept])
  show ?thesis
    unfolding NVMe_SCSI_HandleModeSelect_def Let_def case_prod_unfold
    by (simp add: assms sync_kept_refl k split: option.split)
qed

lemma sync_outcome_kept [simp]: "sync_kept {req} s (sync_outcome req sp r) = sync_kept {req} s (snd r)"
  by (simp add: sync_outcome_def Let_def)

lemma Unmap_kept:
  assumes ok: "unit_ok (unit_st s)" and req: "req \<noteq> 0"
  shows "sync_kept {req} s (NVMe_SCSI_HandleUnmap e req s)"
proof -
  have "sync_kept {req} s (snd (NVMeIO_SubmitAndWait e req q (upd_ram f s)))" for q f
  proof (rule sync_kept_trans)
    show "sync_kept {req} s (upd_ram f s)" by (simp add: ok sync_kept_refl)
    show "sync_kept {req} (upd_ram f s) (snd (NVMeIO_SubmitAndWait e req q (upd_ram f s)))"
      by (rule SubmitAndWait_kept(1) [OF _ req refl]) (simp add: ok)
  qed
  then show ?thesis by (simp add: NVMe_SCSI_HandleUnmap_def Let_def ok sync_kept_refl)
qed

section \<open>The translation of UNMAP descriptors\<close>

lemma unmap_loop_outside: "k < dst \<or> dst + 16 * n \<le> k \<Longrightarrow> unmap_loop p n src dst b k = b k"
  by (induction n arbitrary: src dst b) (auto simp: put_range_def Let_def dma_w32_other)

lemma unmap_loop_dword_before:
  "k + 4 \<le> dst \<Longrightarrow> dma_r32 (unmap_loop p n src dst b) k = dma_r32 b k"
  by (simp add: dma_r32_def unmap_loop_outside)

lemma put_range_read:
  "dma_r32 (put_range p src dst b) dst = 0"
  "dma_r32 (put_range p src dst b) (dst + 4) = be32_read p (src + 8)"
  "read_le64 (put_range p src dst b) (dst + 8) = be64_read p src"
proof -
  have and_mask: "ucast (x AND 0xFFFFFFFF) = (ucast x :: u32)" for x :: u64
  proof -
    have "(0xFFFFFFFF :: u64) = mask 32" by (simp add: mask_eq_exp_minus_1)
    then have m: "(0xFFFFFFFF :: u64) = mask 32" .
    show ?thesis unfolding m by (rule bit_word_eqI) (auto simp: bit_simps)
  qed
  show "dma_r32 (put_range p src dst b) dst = 0"
    "dma_r32 (put_range p src dst b) (dst + 4) = be32_read p (src + 8)"
    by (simp_all add: put_range_def Let_def dma_r32_w32_other)
  show "read_le64 (put_range p src dst b) (dst + 8) = be64_read p src"
    unfolding read_le64_def put_range_def Let_def and_mask
    by (simp add: dma_r32_w32_other add.assoc dwords_join64)
qed

text \<open>Range \<open>i\<close> of the page is descriptor \<open>i\<close> of the parameter list.\<close>

lemma unmap_loop_range:
  "i < n \<Longrightarrow> dma_r32 (unmap_loop p n src dst b) (dst + 16 * i) = 0 \<and>
     dma_r32 (unmap_loop p n src dst b) (dst + 16 * i + 4) = be32_read p (src + 16 * i + 8) \<and>
     read_le64 (unmap_loop p n src dst b) (dst + 16 * i + 8) = be64_read p (src + 16 * i)"
proof (induction n arbitrary: src dst b i)
  case (Suc n)
  show ?case
  proof (cases i)
    case 0
    then show ?thesis
      using put_range_read [of p src dst b] by (simp add: unmap_loop_dword_before read_le64_def)
  next
    case (Suc j)
    with Suc.IH [of j "src + 16" "dst + 16" "put_range p src dst b"] Suc.prems show ?thesis
      by (simp add: ac_simps)
  qed
qed simp

end
