(* ===== verification/Nvme_Scsi_Cmd.thy ===== *)
theory Nvme_Scsi_Cmd
  imports Nvme_Scsi
begin

text \<open>
  ATA PASS-THROUGH (src/src/scsi_cmds/scsi_ata_passthrough.c) and the switch of
  \<open>handle_scsi_cmd\<close> (src/src/unit_task.c) with the commands it answers itself.
\<close>

section \<open>ATA PASS-THROUGH\<close>

record ATASmartAttr =
  at_id :: u8
  at_flags_lo :: u8
  at_flags_hi :: u8
  at_current :: u8
  at_worst :: u8
  at_raw :: "u8 list"
  at_reserved :: u8

definition set_raw48 :: "u64 \<Rightarrow> u8 list" where
  "set_raw48 v0 =
     (let v = (if v0 > 0x0000FFFFFFFFFFFF then 0x0000FFFFFFFFFFFF else v0) in
      [ucast (v AND 0xFF), ucast (drop_bit 8 v AND 0xFF), ucast (drop_bit 16 v AND 0xFF),
       ucast (drop_bit 24 v AND 0xFF), ucast (drop_bit 32 v AND 0xFF), ucast (drop_bit 40 v AND 0xFF)])"

definition clamp_normalised :: "int \<Rightarrow> u8" where
  "clamp_normalised v = (if v < 1 then 1 else if v > 253 then 253 else word_of_int v)"

text \<open>An attribute with its flags stored by \<open>set_le16\<close> over both flag bytes.\<close>

definition smart_attr :: "u8 \<Rightarrow> u16 \<Rightarrow> u8 \<Rightarrow> u8 list \<Rightarrow> ATASmartAttr" where
  "smart_attr i flags cur raw = \<lparr>at_id = i, at_flags_lo = ucast (flags AND 0xFF),
     at_flags_hi = ucast (drop_bit 8 flags AND 0xFF), at_current = cur, at_worst = cur,
     at_raw = raw, at_reserved = 0\<rparr>"

definition temp_celsius :: "NVMeSMARTCache \<Rightarrow> int" where
  "temp_celsius v = (let t = int (unat (sc_temp_k v)) - 273 in if t < 0 then 0 else t)"

definition live_attrs :: "NVMeSMARTCache \<Rightarrow> ATASmartAttr list" where
  "live_attrs v =
     (let temp_c = temp_celsius v; t = word_of_int temp_c in
      [smart_attr 9 0x0002 100 (set_raw48 (sc_power_on_hours v)),
       smart_attr 12 0x0002 100 (set_raw48 (sc_power_cycles v)),
       smart_attr 192 0x0012 100 (set_raw48 (sc_unsafe_shutdowns v)),
       smart_attr 194 0x0002 (clamp_normalised (100 - temp_c div 2)) [t, 0, t, 0, t, 0],
       smart_attr 196 0x0003 (if sc_media_errors v = 0 then 100 else 50) (set_raw48 (sc_media_errors v)),
       smart_attr 231 0x0003 (clamp_normalised (if sc_spare_pct v \<noteq> 0 then int (unat (sc_spare_pct v)) else 100))
         [sc_spare_pct v, sc_spare_threshold v, 0, 0, 0, 0],
       smart_attr 233 0x0003 (clamp_normalised (100 - int (unat (sc_life_used_pct v))))
         [sc_life_used_pct v, 0, 0, 0, 0, 0]])"

definition canned_attrs :: "ATASmartAttr list" where
  "canned_attrs =
     [smart_attr 9 0x0003 100 [1, 0, 0, 0, 0, 0], smart_attr 12 0x0003 100 [1, 0, 0, 0, 0, 0],
      smart_attr 194 0x0002 120 [30, 0, 30, 0, 30, 0], smart_attr 197 0x0000 100 [0, 0, 0, 0, 0, 0],
      smart_attr 198 0x0000 100 [0, 0, 0, 0, 0, 0]]"

definition build_attrs_from_nvme :: "env \<Rightarrow> drv \<Rightarrow> ATASmartAttr list \<times> drv" where
  "build_attrs_from_nvme e s =
     (let s1 = smart_fresh e s; v = smart_cache (ctrl_st s1) in
      (if sc_valid v then live_attrs v else canned_attrs, s1))"

definition attr_bytes :: "ATASmartAttr \<Rightarrow> u8 list" where
  "attr_bytes a = [at_id a, at_flags_lo a, at_flags_hi a, at_current a, at_worst a] @ at_raw a @ [at_reserved a]"

definition threshold_bytes :: "ATASmartAttr \<Rightarrow> u8 list" where
  "threshold_bytes a = [at_id a, 10]"

text \<open>\<open>for (i = 0; i < n_attrs && off + 12 <= 362; i++, off += 12)\<close>\<close>

primrec put_attrs :: "(ATASmartAttr \<Rightarrow> u8 list) \<Rightarrow> u32 \<Rightarrow> ATASmartAttr list \<Rightarrow> nat \<Rightarrow> drv \<Rightarrow> drv" where
  "put_attrs enc buf [] off s = s"
| "put_attrs enc buf (a # as) off s =
     (if off + 12 \<le> 362 then put_attrs enc buf as (off + 12) (wmem (buf + of_nat off) (enc a) s) else s)"

definition NVMe_SCSI_HandleATAPassthrough :: "env \<Rightarrow> u32 \<Rightarrow> drv \<Rightarrow> drv" where
  "NVMe_SCSI_HandleATAPassthrough e req s =
     (let sp = io_Data (reqs s req); c = scsis s sp; cdb = rmem s (scsi_Command c);
          ata_cmd = (if cdb 0 = 0x85 then cdb 14 else cdb 9);
          ata_feat = (if cdb 0 = 0x85 then cdb 4 else cdb 3);
          illegal = (\<lambda>asc. check_condition req sp NVME_SSK_ILLEGAL_REQUEST asc 0x00 (set_actual sp 0 s))
      in if ata_cmd \<noteq> 0xB0 then illegal 0x20
         else if ata_feat \<noteq> 0xD0 \<and> ata_feat \<noteq> 0xD1 then illegal 0x24
         else if scsi_Data c = 0 \<or> scsi_Length c < 512 then illegal 0x24
         else
      let buf = scsi_Data c;
          s1 = wmem buf [0x06, 0x00] (wmem buf (replicate 512 0) s);
          (attrs, s2) = build_attrs_from_nvme e s1;
          s3 = (if ata_feat = 0xD0 then wmem (buf + 510) [0xC0] (put_attrs attr_bytes buf attrs 2 s2)
                else put_attrs threshold_bytes buf attrs 2 s2)
      in scsi_good req sp 512 s3)"

section \<open>Text fields\<close>

text \<open>\<open>scsi_pad_copy\<close> from a string that ends at its first NUL.\<close>

fun scsi_pad_copy :: "nat \<Rightarrow> u8 list \<Rightarrow> u8 list" where
  "scsi_pad_copy 0 src = []"
| "scsi_pad_copy (Suc n) [] = 32 # scsi_pad_copy n []"
| "scsi_pad_copy (Suc n) (c # cs) = (if c = 0 then 32 # scsi_pad_copy n [] else c # scsi_pad_copy n cs)"

text \<open>The digits as \<open>fmt_ulong\<close> collects them in \<open>tmp\<close>, last digit first.\<close>

function dec_digits :: "u32 \<Rightarrow> u8 list" where
  "dec_digits v = (48 + ucast (v mod 10)) # (if v div 10 = 0 then [] else dec_digits (v div 10))"
  by pat_completeness auto

lemma div10_less: "v div 10 \<noteq> 0 \<Longrightarrow> unat (v div 10 :: u32) < unat v"
proof -
  assume "v div 10 \<noteq> 0"
  then have "unat (v div 10) \<noteq> 0" by (metis unat_0 unsigned_eq_0_iff)
  then have "unat v div 10 \<noteq> 0" by (simp add: unat_div)
  then have "0 < unat v" by (cases "unat v") auto
  then show "unat (v div 10) < unat v" by (simp add: unat_div)
qed

termination dec_digits
  by (relation "measure unat") (simp_all add: div10_less)

declare dec_digits.simps [simp del]

definition fmt_ulong :: "u32 \<Rightarrow> u8 list" where
  "fmt_ulong v = rev (dec_digits v)"

definition str_NVMe :: "u8 list" where "str_NVMe = [78, 86, 77, 101]"
definition str_NVME :: "u8 list" where "str_NVME = [78, 86, 77, 69]"
definition str_NVMe_Disk :: "u8 list" where "str_NVMe_Disk = [78, 86, 77, 101, 32, 68, 105, 115, 107]"
definition str_1_0 :: "u8 list" where "str_1_0 = [49, 46, 48]"

section \<open>INQUIRY\<close>

definition vpd_serial :: "u8 list \<Rightarrow> u32 \<Rightarrow> u8 list" where
  "vpd_serial serial ns =
     (let sn = (if serial ! 0 \<noteq> 0 then serial else str_NVME);
          txt = take 20 (takeWhile (\<lambda>ch. ch \<noteq> 0) sn) @ [45, 78, 83] @ fmt_ulong ns
      in [0x00, 0x80, 0x00, of_nat (length txt)] @ txt)"

definition vpd_device_id :: "u8 list \<Rightarrow> u32 \<Rightarrow> u8 list" where
  "vpd_device_id model ns =
     (let ident = scsi_pad_copy 8 (str_NVMe @ [32, 32, 32, 32]) @ scsi_pad_copy 16 model @ [78, 83] @ fmt_ulong ns
      in [0x00, 0x83, 0x00, of_nat (4 + length ident), 0x02, 0x01, 0x00, of_nat (length ident)] @ ident)"

definition std_inquiry :: "NVMeController \<Rightarrow> u8 list" where
  "std_inquiry c =
     [0x00, 0x00, 0x05, 0x02, 31, 0, 0, 0] @ scsi_pad_copy 8 str_NVMe @
     scsi_pad_copy 16 (if model_str c ! 0 \<noteq> 0 then model_str c else str_NVMe_Disk) @
     scsi_pad_copy 4 (if fw_rev_str c ! 0 \<noteq> 0 then fw_rev_str c else str_1_0)"

definition inquiry_reply :: "u32 \<Rightarrow> u32 \<Rightarrow> u32 \<Rightarrow> u32 \<Rightarrow> u8 list \<Rightarrow> drv \<Rightarrow> drv" where
  "inquiry_reply req sp buf alloc resp s =
     (case reply_bytes buf alloc resp s of (n, t) \<Rightarrow>
        upd_req req (\<lambda>r. r\<lparr>io_Actual := n, io_Error := IO_OK\<rparr>) (set_actual sp n t))"

definition handle_inquiry :: "u32 \<Rightarrow> u32 \<Rightarrow> drv \<Rightarrow> drv" where
  "handle_inquiry req sp s =
     (let c = scsis s sp; cdb = rmem s (scsi_Command c);
          evpd = cdb 1 AND 1; page = cdb 2; buf = scsi_Data c; alloc_len = scsi_Length c;
          bad = check_condition req sp NVME_SSK_ILLEGAL_REQUEST 0x24 0x00 s
      in if buf = 0 \<or> alloc_len = 0 then bad
         else if evpd \<noteq> 0 then
           (if page = 0x00 then inquiry_reply req sp buf alloc_len [0x00, 0x00, 0x00, 3, 0x00, 0x80, 0x83] s
            else if page = 0x80 then inquiry_reply req sp buf alloc_len (vpd_serial (serial_str (ctrl_st s)) (nsid (unit_st s))) s
            else if page = 0x83 then inquiry_reply req sp buf alloc_len (vpd_device_id (model_str (ctrl_st s)) (nsid (unit_st s))) s
            else bad)
         else inquiry_reply req sp buf alloc_len (std_inquiry (ctrl_st s)) s)"

section \<open>READ CAPACITY\<close>

definition be32_bytes :: "u32 \<Rightarrow> u8 list" where
  "be32_bytes v = [ucast (drop_bit 24 v), ucast (drop_bit 16 v), ucast (drop_bit 8 v), ucast v]"

definition be64_bytes :: "u64 \<Rightarrow> u8 list" where
  "be64_bytes v = [ucast (drop_bit 56 v), ucast (drop_bit 48 v), ucast (drop_bit 40 v), ucast (drop_bit 32 v),
     ucast (drop_bit 24 v), ucast (drop_bit 16 v), ucast (drop_bit 8 v), ucast v]"

definition capacity10 :: "NVMeUnit \<Rightarrow> u8 list" where
  "capacity10 u =
     (let last_lba = (if total_blocks u > 0xFFFFFFFF then 0xFFFFFFFF else ucast (total_blocks u - 1)) :: u32
      in be32_bytes last_lba @ be32_bytes (block_size u))"

definition capacity16 :: "NVMeUnit \<Rightarrow> u8 list" where
  "capacity16 u =
     (let last_lba = (if total_blocks u > 0 then total_blocks u - 1 else 0)
      in be64_bytes last_lba @ be32_bytes (block_size u) @ replicate 20 0)"

definition handle_capacity10 :: "u32 \<Rightarrow> u32 \<Rightarrow> drv \<Rightarrow> drv" where
  "handle_capacity10 req sp s =
     (let c = scsis s sp in
      if scsi_Data c = 0 \<or> scsi_Length c < 8
      then upd_req req (\<lambda>r. r\<lparr>io_Error := HFERR_BadStatus\<rparr>) (upd_scsi sp (\<lambda>c. c\<lparr>scsi_Status := 2\<rparr>) s)
      else upd_req req (\<lambda>r. r\<lparr>io_Actual := 8, io_Error := IO_OK\<rparr>)
             (set_actual sp 8 (wmem (scsi_Data c) (capacity10 (unit_st s)) s)))"

definition handle_capacity16 :: "u32 \<Rightarrow> u32 \<Rightarrow> drv \<Rightarrow> drv" where
  "handle_capacity16 req sp s =
     (let c = scsis s sp in
      if rmem s (scsi_Command c) 1 AND 0x1F \<noteq> 0x10
      then check_condition req sp NVME_SSK_ILLEGAL_REQUEST 0x20 0x00 s
      else if scsi_Data c = 0 \<or> scsi_Length c < 32
      then upd_req req (\<lambda>r. r\<lparr>io_Error := HFERR_BadStatus\<rparr>) (upd_scsi sp (\<lambda>c. c\<lparr>scsi_Status := 2\<rparr>) s)
      else upd_req req (\<lambda>r. r\<lparr>io_Actual := 32, io_Error := IO_OK\<rparr>)
             (set_actual sp 32 (wmem (scsi_Data c) (capacity16 (unit_st s)) s)))"

definition sync_cache_sqe :: "NVMeUnit \<Rightarrow> nvme_sqe" where
  "sync_cache_sqe u = sqe_zero\<lparr>sq_cdw0 := NVME_CMD_FLUSH, sq_nsid := nsid u\<rparr>"

section \<open>The switch\<close>

definition scsi_switch :: "env \<Rightarrow> u32 \<Rightarrow> u32 \<Rightarrow> u8 \<Rightarrow> drv \<Rightarrow> drv" where
  "scsi_switch e req sp opcode s =
     (if opcode = 0x00 then
        upd_req req (\<lambda>r. r\<lparr>io_Error := IO_OK\<rparr>) (upd_scsi sp (\<lambda>c. c\<lparr>scsi_Status := 0, scsi_Actual := 0\<rparr>) s)
      else if opcode = 0x12 then handle_inquiry req sp s
      else if opcode = 0x4D then NVMe_SCSI_HandleLogSense e req s
      else if opcode = 0x85 \<or> opcode = 0xA1 then NVMe_SCSI_HandleATAPassthrough e req s
      else if opcode = 0x42 then NVMe_SCSI_HandleUnmap e req s
      else if opcode = 0x1A \<or> opcode = 0x5A then NVMe_SCSI_HandleModeSense e req s
      else if opcode = 0x15 \<or> opcode = 0x55 then NVMe_SCSI_HandleModeSelect e req s
      else if opcode = 0x25 then handle_capacity10 req sp s
      else if opcode = 0x9E then handle_capacity16 req sp s
      else if opcode = 0x35 then
        sync_outcome req sp (NVMeIO_SubmitAndWait e req (sync_cache_sqe (unit_st s)) s)
      else check_condition req sp NVME_SSK_ILLEGAL_REQUEST 0x20 0x00 s)"

definition handle_scsi_cmd :: "env \<Rightarrow> u32 \<Rightarrow> drv \<Rightarrow> drv" where
  "handle_scsi_cmd e req s =
     (let r = reqs s req in
      if io_Data r = 0 \<or> io_Length r < k_sizeof_SCSICmd e
      then upd_req req (\<lambda>r. r\<lparr>io_Error := IOERR_BADLENGTH\<rparr>) s
      else
      let sp = io_Data r; c = scsis s sp in
      if scsi_Command c = 0 \<or> scsi_CmdLength c = 0
      then upd_req req (\<lambda>r. r\<lparr>io_Error := HFERR_BadStatus\<rparr>) s
      else
      let s1 = upd_scsi sp (\<lambda>c. c\<lparr>scsi_Status := 0, scsi_CmdActual := scsi_CmdLength c, scsi_SenseActual := 0\<rparr>) s
      in scsi_switch e req sp (rmem s1 (scsi_Command c) 0) s1)"

section \<open>The switch keeps the ledger\<close>

lemma put_attrs_kept [simp]: "sync_kept R s (put_attrs enc buf as off t) = sync_kept R s t"
  by (induction as arbitrary: off t) simp_all

lemma ATA_kept: "unit_ok (unit_st s) \<Longrightarrow> sync_kept {req} s (NVMe_SCSI_HandleATAPassthrough e req s)"
proof -
  assume ok: "unit_ok (unit_st s)"
  define s1 where "s1 = wmem (scsi_Data (scsis s (io_Data (reqs s req)))) [0x06, 0x00]
     (wmem (scsi_Data (scsis s (io_Data (reqs s req)))) (replicate 512 0) s)"
  have k1: "sync_kept {req} s s1" by (simp add: s1_def sync_kept_refl ok)
  then have "sync_kept {req} s (snd (build_attrs_from_nvme e s1))"
    using smart_fresh_sync [OF sync_kept_ok [OF k1]] sync_kept_trans [OF k1]
    by (simp add: build_attrs_from_nvme_def Let_def)
  then show ?thesis
    unfolding NVMe_SCSI_HandleATAPassthrough_def Let_def case_prod_unfold
    by (simp add: ok sync_kept_refl flip: s1_def)
qed

lemma inquiry_reply_kept [simp]: "sync_kept {req} s (inquiry_reply req sp buf n xs t) = sync_kept {req} s t"
  by (simp add: inquiry_reply_def case_prod_unfold)

lemma scsi_switch_kept:
  assumes "unit_ok (unit_st s)" and "req \<noteq> 0"
  shows "sync_kept {req} s (scsi_switch e req sp opc s)"
  using assms SubmitAndWait_kept(1) [OF assms refl]
  by (simp add: scsi_switch_def handle_inquiry_def handle_capacity10_def handle_capacity16_def Let_def sync_kept_refl
      LogSense_kept ATA_kept Unmap_kept ModeSense_kept ModeSelect_kept)

lemma handle_scsi_cmd_kept:
  assumes ok: "unit_ok (unit_st s)" and req: "req \<noteq> 0"
  shows "sync_kept {req} s (handle_scsi_cmd e req s)"
proof -
  have "sync_kept {req} s (scsi_switch e req sp opc (upd_scsi p f s))" for sp opc p f
    by (rule sync_kept_trans [OF _ scsi_switch_kept [OF _ req]]) (simp_all add: ok sync_kept_refl)
  then show ?thesis by (simp add: handle_scsi_cmd_def Let_def ok sync_kept_refl)
qed

end
