(* ===== verification/Nvme_Unit_Task.thy ===== *)
theory Nvme_Unit_Task
  imports Nvme_Scsi_Cmd
begin

text \<open>
  The unit task (src/src/unit_task.c): \<open>dispatch_ioreq\<close>, the answer to every command of
  the message port, and the pieces of the event loop, which Nvme_System composes into a
  step relation.
\<close>

section \<open>Flush\<close>

definition dispatch_flush :: "env \<Rightarrow> u32 \<Rightarrow> drv \<Rightarrow> drv" where
  "dispatch_flush e req s =
     (case submit_retry e (NVMeIO_Flush e req) s of (rc, s1) \<Rightarrow>
        if rc = 0 then s1
        else ReplyMsg req (if rc = -1 then set_error req IOERR_UNITBUSY s1 else s1))"

section \<open>Geometry\<close>

text \<open>The invented geometry: 4 heads of 16 sectors, and as many cylinders as fit in 32 bits.\<close>

definition total32 :: "u64 \<Rightarrow> u32" where
  "total32 blocks = (if blocks > 0xFFFFFFFF then 0xFFFFFFFF else ucast blocks)"

definition cylinders_of :: "u64 \<Rightarrow> u32" where
  "cylinders_of blocks = (let c = total32 blocks div (4 * 16) in if c = 0 then 1 else c)"

definition dispatch_geometry :: "env \<Rightarrow> u32 \<Rightarrow> drv \<Rightarrow> drv" where
  "dispatch_geometry e req s =
     (let r = reqs s req; dg = io_Data r; u = unit_st s in
      if dg \<noteq> 0 \<and> io_Length r \<ge> k_sizeof_DriveGeometry e then
        upd_req req (\<lambda>r. r\<lparr>io_Actual := k_sizeof_DriveGeometry e, io_Error := IO_OK\<rparr>)
          (s\<lparr>geoms := (geoms s)(dg := \<lparr>dg_SectorSize = block_size u,
             dg_TotalSectors = total32 (total_blocks u), dg_Cylinders = cylinders_of (total_blocks u),
             dg_CylSectors = 4 * 16, dg_Heads = 4, dg_TrackSectors = 16,
             dg_BufMemType = k_MEMF_PUBLIC e, dg_DeviceType = k_DG_DIRECT_ACCESS e, dg_Flags = 0\<rparr>)\<rparr>)
      else set_error req IOERR_BADLENGTH s)"

definition dispatch_geometry64 :: "env \<Rightarrow> u32 \<Rightarrow> drv \<Rightarrow> drv" where
  "dispatch_geometry64 e req s =
     (let r = reqs s req; dg = io_Data r; u = unit_st s in
      if dg \<noteq> 0 \<and> io_Length r \<ge> k_sizeof_DriveGeometry64 e then
        upd_req req (\<lambda>r. r\<lparr>io_Actual := k_sizeof_DriveGeometry64 e, io_Error := IO_OK\<rparr>)
          (s\<lparr>geoms64 := (geoms64 s)(dg := \<lparr>dg64_SectorSize = block_size u,
             dg64_TotalSectors = total_blocks u, dg64_DeviceType = k_DG_DIRECT_ACCESS e, dg64_Flags = 0\<rparr>)\<rparr>)
      else set_error req IOERR_BADLENGTH s)"

section \<open>The switch\<close>

definition read_cmds :: "iocmd list" where
  "read_cmds = [CMD_READ, TD_READ64, NSCMD_TD_READ64, NSCMD_ETD_READ64, ETD_READ]"

definition write_cmds :: "iocmd list" where
  "write_cmds = [CMD_WRITE, TD_WRITE64, NSCMD_TD_WRITE64, NSCMD_ETD_WRITE64, ETD_WRITE,
     TD_FORMAT, ETD_FORMAT, TD_FORMAT64, NSCMD_TD_FORMAT64, NSCMD_ETD_FORMAT64]"

definition flush_cmds :: "iocmd list" where
  "flush_cmds = [CMD_UPDATE, CMD_FLUSH, ETD_UPDATE]"

definition dispatch_ioreq :: "env \<Rightarrow> u32 \<Rightarrow> drv \<Rightarrow> drv" where
  "dispatch_ioreq e req s =
     (let cmd = io_Command (reqs s req) in
      if cmd \<in> set read_cmds then dispatch_rw e req False s
      else if cmd \<in> set write_cmds then dispatch_rw e req True s
      else if cmd \<in> set flush_cmds then dispatch_flush e req s
      else if cmd = TD_GETGEOMETRY then ReplyMsg req (dispatch_geometry e req s)
      else if cmd = NSCMD_TD_GETGEOMETRY64 then ReplyMsg req (dispatch_geometry64 e req s)
      else if cmd = NSCMD_ETD_SEEK64 then ReplyMsg req (set_error req IO_OK s)
      else if cmd = HD_SCSICMD then ReplyMsg req (handle_scsi_cmd e req s)
      else ReplyMsg req (set_error req IOERR_NOCMD s))"

section \<open>The event loop\<close>

definition has_inflight :: "drv \<Rightarrow> bool" where
  "has_inflight s \<longleftrightarrow> list_ex (\<lambda>i. inf_ioreq (slot_of s i) \<noteq> 0) [0..<NVME_MAX_INFLIGHT]"

definition unmask_irq :: "drv \<Rightarrow> drv" where
  "unmask_irq s =
     (if irq_installed (ctrl_st s) then nvme_w32 (iobase (ctrl_st s) + NVME_REG_INTMC) 1 s else s)"

text \<open>A pass of the yield-poll: no signal, I/O in flight.\<close>

definition task_yield :: "env \<Rightarrow> drv \<Rightarrow> drv" where
  "task_yield e s = unmask_irq (NVMeIO_Harvest e (Forbid_Permit s))"

definition GetMsg :: "drv \<Rightarrow> u32 option \<times> drv" where
  "GetMsg s = (case port_msgs (unit_st s) of
     [] \<Rightarrow> (None, s) | m # ms \<Rightarrow> (Some m, upd_unit (\<lambda>u. u\<lparr>port_msgs := ms\<rparr>) s))"

text \<open>The end of a drain that started with the tail at \<open>tail_before\<close>.\<close>

definition ring_if_moved :: "u16 \<Rightarrow> drv \<Rightarrow> drv" where
  "ring_if_moved tail_before s = (if io_sq_tail (unit_st s) \<noteq> tail_before then NVMeIO_RingSQ s else s)"

definition drain_end :: "env \<Rightarrow> u16 \<Rightarrow> drv \<Rightarrow> drv" where
  "drain_end e tail_before s = unmask_irq (NVMeIO_Harvest e (ring_if_moved tail_before s))"

text \<open>A burst: the messages \<open>ms\<close> taken one after the other.\<close>

primrec dispatch_all :: "env \<Rightarrow> u32 list \<Rightarrow> drv \<Rightarrow> drv" where
  "dispatch_all e [] s = s"
| "dispatch_all e (m # ms) s = dispatch_all e ms (dispatch_ioreq e m s)"

text \<open>One message of the port that is answered with \<open>IOERR_ABORTED\<close> when the task exits.\<close>

definition exit_abort :: "u32 \<Rightarrow> drv \<Rightarrow> drv" where
  "exit_abort req s = ReplyMsg req (set_error req IOERR_ABORTED s)"

section \<open>Every dispatch answers once\<close>

lemma Flush_post:
  assumes ok: "unit_ok (unit_st s)" and req: "req \<noteq> 0" and res: "NVMeIO_Flush e req s = (rc, s')"
  shows "submit_post req rc s s'"
  using ok req res
proof (cases rule: Flush_cases)
  case full
  then show ?thesis by (simp add: submit_post_def sync_kept_refl ok)
next
  case (issued slot t)
  note free = find_free_slot_Some [OF ok issued(1)]
  have "slot_of t i = (if i = slot then nodata_slot e (trace s) slot req False (slot_of s slot) else slot_of s i)" for i
    using issued(7) free by (simp add: slot_of_def)
  then show ?thesis
    using issued free static_ofD(1) [OF issued(9)]
    by (auto simp: submit_post_def taken_def slot_of_def intro!: exI [of _ slot])
qed

interpretation sub_flush: submitter "NVMeIO_Flush e req" req "req \<noteq> 0" for e req
  by unfold_locales (rule Flush_post)

lemma submit_served:
  assumes p: "submit_post req rc s t"
  shows "served req s (if rc = 0 then t else ReplyMsg req (if rc = -1 then set_error req IOERR_UNITBUSY t else t))"
proof (cases "rc = 0")
  case True
  then show ?thesis using p by (simp add: submit_post_def served_taken)
next
  case False
  then have k: "sync_kept {req} s t" using p by (simp add: submit_post_def)
  have "sync_kept {req} s (set_error req IOERR_UNITBUSY t)"
    by (rule sync_kept_trans [OF k set_error_kept [OF sync_kept_ok [OF k]]]) simp
  with k False show ?thesis by (simp add: served_reply)
qed

lemma dispatch_flush_served:
  assumes ok: "unit_ok (unit_st s)" and req: "req \<noteq> 0"
  shows "served req s (dispatch_flush e req s)"
proof -
  obtain rc t where r: "submit_retry e (NVMeIO_Flush e req) s = (rc, t)" by fastforce
  have "submit_post req rc s t" by (rule sub_flush.retry_post [OF req ok r])
  from submit_served [OF this] show ?thesis by (simp add: dispatch_flush_def r)
qed

lemma sync_kept_geoms [simp]:
  "sync_kept R s (t\<lparr>geoms := g\<rparr>) = sync_kept R s t" "sync_kept R s (t\<lparr>geoms64 := h\<rparr>) = sync_kept R s t"
  by (simp_all add: sync_kept_def slot_of_def balanced_def)

lemma set_error_simp [simp]: "req \<in> R \<Longrightarrow> sync_kept R s (set_error req err t) = sync_kept R s t"
  by (simp add: set_error_def)

lemma geometry_kept:
  assumes "unit_ok (unit_st s)"
  shows "sync_kept {req} s (dispatch_geometry e req s)" and "sync_kept {req} s (dispatch_geometry64 e req s)"
  using assms by (simp_all add: dispatch_geometry_def dispatch_geometry64_def Let_def sync_kept_refl)

lemma dispatch_ioreq_served:
  assumes "unit_ok (unit_st s)" and "not_inflight req s" and "req \<noteq> 0" and "dma_flags_clear e"
  shows "served req s (dispatch_ioreq e req s)"
  using assms
  by (simp add: dispatch_ioreq_def Let_def dispatch_rw_served dispatch_flush_served served_reply geometry_kept
      handle_scsi_cmd_kept sync_kept_refl)

text \<open>A burst of distinct idle requests: all their tokens, once each.\<close>

lemma dispatch_all_balanced:
  assumes "unit_ok (unit_st s)" and "dma_flags_clear e" and "distinct ms"
    and "\<And>m. m \<in> set ms \<Longrightarrow> m \<noteq> 0 \<and> not_inflight m s"
  shows "unit_ok (unit_st (dispatch_all e ms s)) \<and> balanced s (dispatch_all e ms s) (mset (map Tok_Req ms)) \<and>
     static_of (unit_st (dispatch_all e ms s)) = static_of (unit_st s)"
  using assms
proof (induction ms arbitrary: s)
  case (Cons m ms)
  have v: "served m s (dispatch_ioreq e m s)"
    using Cons.prems by (intro dispatch_ioreq_served) simp_all
  have n: "x \<noteq> 0 \<and> not_inflight x (dispatch_ioreq e m s)" if "x \<in> set ms" for x
    using v Cons.prems(3) Cons.prems(4) [of x] that by (auto simp: served_def)
  show ?case
    using Cons.IH [of "dispatch_ioreq e m s", OF _ Cons.prems(2) _ n] v Cons.prems(3)
      balanced_trans [of s "dispatch_ioreq e m s" "{#Tok_Req m#}"]
    by (simp add: served_def)
qed simp

section \<open>The loop steps keep the ledger\<close>

lemma unmask_irq_simps [simp]:
  "unit_st (unmask_irq s) = unit_st s" "reqs (unmask_irq s) = reqs s" "slot_of (unmask_irq s) i = slot_of s i"
  "balanced t (unmask_irq s) R = balanced t s R"
  by (simp_all add: unmask_irq_def slot_of_def balanced_def)

lemma sync_kept_unmask [simp]: "sync_kept R s (unmask_irq t) = sync_kept R s t"
  by (simp add: sync_kept_def)

lemma sync_kept_yield [simp]: "sync_kept R s (Forbid_Permit t) = sync_kept R s t"
  by (simp add: sync_kept_def slot_of_def balanced_def)

lemma Harvest_sync:
  assumes "sync_kept R s t"
  shows "sync_kept R s (NVMeIO_Harvest e t)"
  by (rule sync_kept_trans [OF assms io_kept_sync [OF Harvest_kept [OF sync_kept_ok [OF assms]]]])

lemma task_yield_kept: "unit_ok (unit_st s) \<Longrightarrow> sync_kept R s (task_yield e s)"
  by (simp add: task_yield_def Harvest_sync sync_kept_refl)

lemma ring_if_moved_kept: "unit_ok (unit_st s) \<Longrightarrow> sync_kept R s (ring_if_moved t s)"
  by (simp add: ring_if_moved_def sync_kept_refl RingSQ_sync)

lemma drain_end_kept: "unit_ok (unit_st s) \<Longrightarrow> sync_kept R s (drain_end e t s)"
  by (simp add: drain_end_def Harvest_sync ring_if_moved_kept)

end
