(* ===== verification/Nvme_BeginIO.thy ===== *)
theory Nvme_BeginIO
  imports Nvme_Unit_Task
begin

text \<open>
  The entry points of the client: \<open>_manager_BeginIO\<close> and \<open>_manager_AbortIO\<close>
  (src/src/BeginIO.c), the statistics snapshot (src/src/nvme_stats.c) and the release of
  held requests in \<open>_manager_Close\<close> (src/src/Close.c). A request has one of the 46 command
  names; \<open>io_Unit = 0\<close> is a request without a unit.
\<close>

section \<open>The statistics snapshot\<close>

definition NVME_STATS_VERSION :: u32 where "NVME_STATS_VERSION = 1"

definition STATS_SIZE :: u32 where "STATS_SIZE = 296"

definition split64 :: "u64 \<Rightarrow> u32 list" where
  "split64 v = [ucast (drop_bit 32 v), ucast (v AND 0xFFFFFFFF)]"

text \<open>The words of \<open>struct NVMeStats\<close> up to the health part, in the order of the structure.\<close>

definition counter_words :: "NVMeUnitStats \<Rightarrow> u32 list" where
  "counter_words t =
     split64 (st_reads t) @ split64 (st_read_bytes t) @ split64 (st_writes t) @ split64 (st_write_bytes t) @
     split64 (st_flushes t) @
     [st_err_timeout t, st_err_status t, st_err_abort t, st_err_dma t,
      st_inflight_current t, st_inflight_peak t, st_unitbusy_hits t, st_mdts_splits t, st_bounce_hits t,
      st_direct_dma_hits t, st_prp_list_hits t] @
     split64 (st_total_io_ticks t) @ split64 (st_max_io_ticks t)"

definition smart_words :: "NVMeSMARTCache \<Rightarrow> u32 list" where
  "smart_words c =
     split64 (sc_data_read_units c) @ split64 (sc_data_written_units c) @ split64 (sc_host_reads c) @
     split64 (sc_host_writes c) @ split64 (sc_power_cycles c) @ split64 (sc_power_on_hours c) @
     split64 (sc_unsafe_shutdowns c) @ split64 (sc_media_errors c)"

definition words_bytes :: "u32 list \<Rightarrow> u8 list" where
  "words_bytes ws = concat (map be32_bytes ws)"

definition smart_bytes :: "NVMeSMARTCache \<Rightarrow> u8 list" where
  "smart_bytes c =
     (if sc_valid c then
        [1, sc_critical_warning c, ucast (drop_bit 8 (sc_temp_k c)), ucast (sc_temp_k c),
         sc_spare_pct c, sc_spare_threshold c, sc_life_used_pct c, 0] @ words_bytes (smart_words c)
      else replicate 72 0)"

text \<open>A \<open>char\<close> array of \<open>n\<close> elements, and the identification with its byte of padding.\<close>

definition char_array :: "nat \<Rightarrow> u8 list \<Rightarrow> u8 list" where
  "char_array n xs = take n (xs @ replicate n 0)"

definition identity_bytes :: "NVMeController \<Rightarrow> NVMeUnit \<Rightarrow> u8 list" where
  "identity_bytes c u =
     char_array 41 (model_str c) @ char_array 21 (serial_str c) @ char_array 9 (fw_rev_str c) @ [0] @
     words_bytes ([nsid u] @ split64 (total_blocks u) @ [block_size u, 0])"

definition nvme_build_snapshot :: "env \<Rightarrow> drv \<Rightarrow> u8 list \<times> drv" where
  "nvme_build_snapshot e s =
     (let c = ctrl_st s; u = unit_st s;
          s1 = Forbid_Permit s;
          s2 = smart_fresh e s1
      in (words_bytes ([NVME_STATS_VERSION, STATS_SIZE, ctrl_idx c, unit_num u] @ counter_words (stats u) @
            [e_eclock_freq e, isr_count s, isr_claimed s, isr_not_ours s]) @
          smart_bytes (smart_cache (ctrl_st s2)) @ identity_bytes c u, s2))"

definition NVMe_HandleGetStats :: "env \<Rightarrow> u32 \<Rightarrow> drv \<Rightarrow> drv" where
  "NVMe_HandleGetStats e req s =
     (let r = reqs s req in
      if io_Data r = 0 \<or> io_Length r < 4 * 2
      then upd_req req (\<lambda>r. r\<lparr>io_Error := IOERR_BADLENGTH, io_Actual := 0\<rparr>) s
      else (case nvme_build_snapshot e s of (full, s1) \<Rightarrow>
        let want = io_Length r; have = of_nat (length full); copy = (if want < have then want else have)
        in upd_req req (\<lambda>r. r\<lparr>io_Actual := copy, io_Error := IO_OK\<rparr>) (wmem (io_Data r) (take (unat copy) full) s1)))"

section \<open>BeginIO\<close>

definition nvme_supported_cmds :: "iocmd list" where
  "nvme_supported_cmds =
     [CMD_READ, CMD_WRITE, CMD_UPDATE, CMD_CLEAR, CMD_FLUSH, CMD_START, CMD_STOP,
      TD_MOTOR, TD_SEEK, TD_EJECT, TD_FORMAT, TD_GETGEOMETRY, TD_GETNUMTRACKS, TD_GETDRIVETYPE,
      TD_ADDCHANGEINT, TD_REMCHANGEINT, TD_REMOVE, TD_CHANGENUM, TD_CHANGESTATE, TD_PROTSTATUS,
      TD_READ64, TD_WRITE64, TD_SEEK64, TD_FORMAT64, HD_SCSICMD,
      ETD_READ, ETD_WRITE, ETD_UPDATE, ETD_CLEAR, ETD_MOTOR, ETD_SEEK, ETD_FORMAT,
      NSCMD_DEVICEQUERY, NSCMD_TD_READ64, NSCMD_TD_WRITE64, NSCMD_TD_SEEK64, NSCMD_TD_FORMAT64,
      NSCMD_TD_GETGEOMETRY64, NSCMD_ETD_READ64, NSCMD_ETD_WRITE64, NSCMD_ETD_SEEK64, NSCMD_ETD_FORMAT64,
      NSCMD_NVME_GETSTATS]"

definition is_quick :: "IOStdReq \<Rightarrow> bool" where
  "is_quick r \<longleftrightarrow> io_Flags r AND IOF_QUICK \<noteq> 0"

definition clear_quick :: "u32 \<Rightarrow> drv \<Rightarrow> drv" where
  "clear_quick req = upd_req req (\<lambda>r. r\<lparr>io_Flags := io_Flags r AND NOT IOF_QUICK\<rparr>)"

definition inline_reply :: "u32 \<Rightarrow> drv \<Rightarrow> drv" where
  "inline_reply req s = (if is_quick (reqs s req) then s else ReplyMsg req s)"

definition finish_inline :: "u32 \<Rightarrow> u32 \<Rightarrow> drv \<Rightarrow> drv" where
  "finish_inline req n s = inline_reply req (upd_req req (\<lambda>r. r\<lparr>io_Actual := n, io_Error := IO_OK\<rparr>) s)"

definition fail_inline :: "u32 \<Rightarrow> ioerr \<Rightarrow> drv \<Rightarrow> drv" where
  "fail_inline req err s = inline_reply req (set_error req err s)"

definition PutMsg :: "u32 \<Rightarrow> drv \<Rightarrow> drv" where
  "PutMsg req s = log_ev (EvPutMsg req) (upd_unit (\<lambda>u. u\<lparr>port_msgs := port_msgs u @ [req]\<rparr>) s)"

text \<open>The reply of a request that the unit holds, if it holds one.\<close>

definition release_held :: "u32 \<Rightarrow> ioerr \<Rightarrow> drv \<Rightarrow> drv" where
  "release_held old err s = (if old \<noteq> 0 then ReplyMsg old (set_error old err s) else s)"

definition hold_changeint :: "u32 \<Rightarrow> drv \<Rightarrow> drv" where
  "hold_changeint req s =
     (let s1 = release_held (changeint_req (unit_st s)) IOERR_ABORTED s
      in clear_quick req (upd_unit (\<lambda>u. u\<lparr>changeint_req := req\<rparr>) s1))"

definition hold_remove :: "u32 \<Rightarrow> drv \<Rightarrow> drv" where
  "hold_remove req s =
     (let s1 = release_held (remove_req (unit_st s)) IOERR_ABORTED s
      in clear_quick req (upd_unit (\<lambda>u. u\<lparr>remove_req := req\<rparr>) s1))"

definition drop_changeint :: "drv \<Rightarrow> drv" where
  "drop_changeint s =
     (if changeint_req (unit_st s) \<noteq> 0
      then upd_unit (\<lambda>u. u\<lparr>changeint_req := 0\<rparr>) (release_held (changeint_req (unit_st s)) IO_OK s) else s)"

definition drop_remove :: "drv \<Rightarrow> drv" where
  "drop_remove s =
     (if remove_req (unit_st s) \<noteq> 0
      then upd_unit (\<lambda>u. u\<lparr>remove_req := 0\<rparr>) (release_held (remove_req (unit_st s)) IO_OK s) else s)"

definition num_tracks :: "bool \<Rightarrow> u64 \<Rightarrow> u32" where
  "num_tracks has_unit blocks = (if has_unit \<and> blocks > 0 then cylinders_of blocks else 32768)"

definition device_query :: "env \<Rightarrow> u32 \<Rightarrow> drv \<Rightarrow> drv" where
  "device_query e req s =
     (let r = reqs s req in
      if io_Data r \<noteq> 0 \<and> io_Length r \<ge> k_sizeof_NSDeviceQueryResult e then
        upd_req req (\<lambda>r. r\<lparr>io_Actual := k_sizeof_NSDeviceQueryResult e, io_Error := IO_OK\<rparr>)
          (s\<lparr>nsqs := (nsqs s)(io_Data r := \<lparr>DevQueryFormat = 0, SizeAvailable = k_sizeof_NSDeviceQueryResult e,
             DeviceType = k_NSDEVTYPE_TRACKDISK e, DeviceSubType = 0, SupportedCommands = nvme_supported_cmds\<rparr>)\<rparr>)
      else set_error req IOERR_BADLENGTH s)"

definition queued_cmds :: "iocmd list" where
  "queued_cmds = [CMD_READ, CMD_WRITE, CMD_UPDATE, CMD_FLUSH, ETD_READ, ETD_WRITE, ETD_UPDATE, TD_FORMAT, ETD_FORMAT,
     TD_FORMAT64, NSCMD_TD_FORMAT64, TD_GETGEOMETRY, TD_READ64, TD_WRITE64, NSCMD_TD_READ64, NSCMD_TD_WRITE64,
     NSCMD_ETD_READ64, NSCMD_ETD_WRITE64, NSCMD_ETD_SEEK64, NSCMD_ETD_FORMAT64, NSCMD_TD_GETGEOMETRY64, HD_SCSICMD]"

definition motor_cmds :: "iocmd list" where
  "motor_cmds = [CMD_START, CMD_STOP, TD_MOTOR, ETD_MOTOR]"

definition noop_cmds :: "iocmd list" where
  "noop_cmds = [TD_SEEK, TD_SEEK64, NSCMD_TD_SEEK64, ETD_SEEK, TD_EJECT, CMD_CLEAR, ETD_CLEAR]"

definition zero_cmds :: "iocmd list" where
  "zero_cmds = [TD_CHANGENUM, TD_CHANGESTATE, TD_PROTSTATUS]"

definition begin_switch :: "env \<Rightarrow> u32 \<Rightarrow> bool \<Rightarrow> iocmd \<Rightarrow> drv \<Rightarrow> drv" where
  "begin_switch e req has_unit cmd s =
     (if cmd = TD_ADDCHANGEINT then (if \<not> has_unit then fail_inline req IOERR_OPENFAIL s else hold_changeint req s)
      else if cmd = TD_REMOVE then (if \<not> has_unit then fail_inline req IOERR_OPENFAIL s else hold_remove req s)
      else if cmd = TD_REMCHANGEINT then
        inline_reply req (set_error req IO_OK (if has_unit then drop_changeint s else s))
      else if cmd \<in> set motor_cmds then finish_inline req 1 s
      else if cmd \<in> set noop_cmds then inline_reply req (set_error req IO_OK s)
      else if cmd \<in> set zero_cmds then finish_inline req 0 s
      else if cmd = TD_GETDRIVETYPE then finish_inline req (k_DRIVE_NEWSTYLE e) s
      else if cmd = TD_GETNUMTRACKS then finish_inline req (num_tracks has_unit (total_blocks (unit_st s))) s
      else if cmd = NSCMD_DEVICEQUERY then inline_reply req (device_query e req s)
      else if cmd \<in> set queued_cmds then
        (if \<not> has_unit \<or> io_port (unit_st s) = 0 then fail_inline req IOERR_OPENFAIL s
         else PutMsg req (clear_quick req s))
      else if cmd = NSCMD_NVME_GETSTATS then
        (if \<not> has_unit then fail_inline req IOERR_OPENFAIL s
         else inline_reply req (NVMe_HandleGetStats e req s))
      else fail_inline req IOERR_NOCMD s)"

definition manager_BeginIO :: "env \<Rightarrow> u32 \<Rightarrow> drv \<Rightarrow> drv" where
  "manager_BeginIO e req s =
     (let s1 = set_error req IO_OK s in
      begin_switch e req (io_Unit (reqs s1 req) \<noteq> 0) (io_Command (reqs s1 req)) s1)"

section \<open>AbortIO and the last Close\<close>

definition manager_AbortIO :: "u32 \<Rightarrow> drv \<Rightarrow> ioerr \<times> drv" where
  "manager_AbortIO req s =
     (if io_Unit (reqs s req) = 0 \<or> io_port (unit_st s) = 0 then (IOERR_NOCMD, s)
      else
      let found = req \<in> set (port_msgs (unit_st s));
          s1 = Forbid_Permit (if found then upd_unit (\<lambda>u. u\<lparr>port_msgs := remove1 req (port_msgs u)\<rparr>) s else s)
      in if found then (IO_OK, ReplyMsg req (set_error req IOERR_ABORTED s1)) else (IOERR_NOCMD, s1))"

definition close_release :: "drv \<Rightarrow> drv" where
  "close_release s = drop_remove (drop_changeint s)"

section \<open>The ledger with the requests that wait\<close>

text \<open>
  A request that was accepted and is in no slot waits in the port or is held. The contract
  of an entry point: what it accepts without a reply enters the ledger, a request left with
  \<open>IOF_QUICK\<close> set is complete and owed nothing.
\<close>

definition waiting :: "NVMeUnit \<Rightarrow> u32 list" where
  "waiting u = port_msgs u @ filter (\<lambda>r. r \<noteq> 0) [changeint_req u, remove_req u]"

definition conserved :: "drv \<Rightarrow> drv \<Rightarrow> token multiset \<Rightarrow> bool" where
  "conserved s s' R \<longleftrightarrow>
     held_slots (inflight (unit_st s')) + mset (map Tok_Req (waiting (unit_st s'))) + outs (trace s') + ins (trace s) =
     held_slots (inflight (unit_st s)) + mset (map Tok_Req (waiting (unit_st s))) + outs (trace s) + ins (trace s') + R"

lemma static_waiting:
  assumes "static_of u' = static_of u"
  shows "waiting u' = waiting u"
  by (simp add: waiting_def static_ofD [OF assms])

lemma conserved_refl [simp]: "conserved s s {#}"
  by (simp add: conserved_def)

lemma conserved_trans:
  assumes "conserved s t R" and "conserved t u Q"
  shows "conserved s u (R + Q)"
proof -
  have "(hu + ou + is :: token multiset) = hs + os + iu + (R + Q)"
    if "ht + ot + is = hs + os + it + R" "hu + ou + it = ht + ot + iu + Q" for hu ou iu ht ot it hs os "is"
  proof -
    have "(hu + ou + is) + (ht + ot + it) = (hs + os + iu + (R + Q)) + (ht + ot + it)"
      using arg_cong2 [OF that, of "(+)"] by (simp add: ac_simps)
    then show ?thesis by simp
  qed
  from this [OF assms [unfolded conserved_def]] show ?thesis by (simp add: conserved_def)
qed

lemma balanced_conserved:
  assumes "balanced s s' R" and "waiting (unit_st s') = waiting (unit_st s)"
  shows "conserved s s' R"
proof -
  have "h' + w + o' + i = h + w + o1 + i' + R" if "h' + o' + i = h + o1 + i' + R"
    for h' w o' i h o1 i' :: "token multiset"
    using arg_cong [OF that, of "\<lambda>x. x + w"] by (simp add: ac_simps)
  from this [OF assms(1) [unfolded balanced_def]] assms(2) show ?thesis by (simp add: conserved_def)
qed

lemma conserved_wait:
  assumes "inflight (unit_st s') = inflight (unit_st s)" and "ins (trace s') = ins (trace s)"
    and "mset (map Tok_Req (waiting (unit_st s'))) + outs (trace s') =
         mset (map Tok_Req (waiting (unit_st s))) + outs (trace s) + R"
  shows "conserved s s' R"
  using assms(1,2) arg_cong [OF assms(3), of "\<lambda>x. x + held_slots (inflight (unit_st s)) + ins (trace s)"]
  by (simp add: conserved_def ac_simps)

text \<open>What an entry point may change of the unit: the port and the held requests.\<close>

definition same_io :: "NVMeUnit \<Rightarrow> NVMeUnit \<Rightarrow> bool" where
  "same_io u u' \<longleftrightarrow> u' = u\<lparr>port_msgs := port_msgs u', changeint_req := changeint_req u', remove_req := remove_req u'\<rparr>"

lemma same_ioD:
  assumes "same_io u u'"
  shows "inflight u' = inflight u" "unit_ok u' = unit_ok u" "io_port u' = io_port u"
proof -
  have u: "u' = u\<lparr>port_msgs := port_msgs u', changeint_req := changeint_req u', remove_req := remove_req u'\<rparr>"
    using assms by (simp add: same_io_def)
  show "inflight u' = inflight u" "io_port u' = io_port u" by (subst u, simp)+
  show "unit_ok u' = unit_ok u" by (subst u, simp add: unit_ok_def)
qed

lemma same_io_refl [simp]: "same_io u u"
  by (simp add: same_io_def)

lemma same_io_trans: "same_io u v \<Longrightarrow> same_io v w \<Longrightarrow> same_io u w"
  by (cases u; cases v; cases w; simp add: same_io_def)

lemma same_io_upd [simp]:
  "same_io u (v\<lparr>port_msgs := a\<rparr>) = same_io u v" "same_io u (v\<lparr>changeint_req := b\<rparr>) = same_io u v"
  "same_io u (v\<lparr>remove_req := c\<rparr>) = same_io u v"
  by (cases u; cases v; simp add: same_io_def)+

definition begun :: "u32 \<Rightarrow> drv \<Rightarrow> token multiset" where
  "begun req s' = (if is_quick (reqs s' req) then {#} else {#Tok_Req req#})"

definition begin_post :: "u32 \<Rightarrow> drv \<Rightarrow> drv \<Rightarrow> bool" where
  "begin_post req s s' \<longleftrightarrow> same_io (unit_st s) (unit_st s') \<and> conserved s s' (begun req s') \<and>
     mset (waiting (unit_st s')) \<subseteq># mset (waiting (unit_st s)) + {#req#}"

text \<open>The neutral steps in front of a reply: a quarter of the ledger each, no request waiting is added.\<close>

definition quiet :: "drv \<Rightarrow> drv \<Rightarrow> bool" where
  "quiet s t \<longleftrightarrow> same_io (unit_st s) (unit_st t) \<and> conserved s t {#} \<and>
     mset (waiting (unit_st t)) \<subseteq># mset (waiting (unit_st s))"

lemma quiet_refl [simp]: "quiet s s"
  by (simp add: quiet_def)

lemma quiet_steps [simp]:
  "quiet s (upd_req p f t) = quiet s t" "quiet s (set_error p err t) = quiet s t" "quiet s (wmem a xs t) = quiet s t"
  "quiet s (t\<lparr>nsqs := q\<rparr>) = quiet s t"
  by (simp_all add: quiet_def conserved_def set_error_def wmem_def)

lemma quiet_admin: "quiet s t \<Longrightarrow> admin_kept t u \<Longrightarrow> quiet s u"
  by (simp add: quiet_def conserved_def admin_kept_def)

lemma quiet_yield [simp]: "quiet s (Forbid_Permit t) = quiet s t"
  by (simp add: quiet_def conserved_def)

lemma inline_reply_post:
  assumes "quiet s t"
  shows "begin_post req s (inline_reply req t)"
proof -
  have "conserved t (inline_reply req t) (begun req (inline_reply req t))"
    by (simp add: inline_reply_def begun_def conserved_def ac_simps)
  then have "conserved s (inline_reply req t) (begun req (inline_reply req t))"
    using assms conserved_trans [of s t "{#}"] by (auto simp: quiet_def)
  then show ?thesis
    using assms by (auto simp: begin_post_def quiet_def inline_reply_def intro: subset_mset.trans)
qed

lemma finish_inline_post [simp]: "begin_post req s (finish_inline req n s)"
  and fail_inline_post [simp]: "begin_post req s (fail_inline req err s)"
  by (simp_all add: finish_inline_def fail_inline_def inline_reply_post)

lemma drop_quiet: "quiet s (drop_changeint s)" "quiet s (drop_remove s)"
proof -
  have w: "mset (waiting (u\<lparr>changeint_req := 0\<rparr>)) \<subseteq># mset (waiting u)" "mset (waiting (u\<lparr>remove_req := 0\<rparr>)) \<subseteq># mset (waiting u)"
    for u by (auto simp: waiting_def)
  show "quiet s (drop_changeint s)" "quiet s (drop_remove s)"
    by (auto simp: quiet_def drop_changeint_def drop_remove_def release_held_def set_error_def w
        intro!: conserved_wait) (simp_all add: waiting_def ac_simps)
qed

lemma hold_post:
  assumes "req \<noteq> 0"
  shows "begin_post req s (hold_changeint req s)" and "begin_post req s (hold_remove req s)"
proof -
  have nq: "begun req (clear_quick req t) = {#Tok_Req req#}" for t
    by (simp add: begun_def clear_quick_def is_quick_def and.assoc)
  have w: "mset (waiting (u\<lparr>changeint_req := req\<rparr>)) \<subseteq># mset (waiting u) + {#req#}"
      "mset (waiting (u\<lparr>remove_req := req\<rparr>)) \<subseteq># mset (waiting u) + {#req#}" for u
    using assms by (auto simp: waiting_def)
  show "begin_post req s (hold_changeint req s)"
    unfolding begin_post_def hold_changeint_def Let_def nq
    using assms w by (auto simp: release_held_def set_error_def clear_quick_def intro!: conserved_wait)
      (auto simp: waiting_def ac_simps)
  show "begin_post req s (hold_remove req s)"
    unfolding begin_post_def hold_remove_def Let_def nq
    using assms w by (auto simp: release_held_def set_error_def clear_quick_def intro!: conserved_wait)
      (auto simp: waiting_def ac_simps)
qed

lemma PutMsg_post: "begin_post req s (PutMsg req (clear_quick req s))"
proof -
  have "begun req (PutMsg req (clear_quick req s)) = {#Tok_Req req#}"
    by (simp add: begun_def PutMsg_def clear_quick_def is_quick_def and.assoc)
  then show ?thesis
    by (auto simp: begin_post_def PutMsg_def clear_quick_def waiting_def ac_simps intro!: conserved_wait)
qed

lemma GetStats_quiet: "quiet s (NVMe_HandleGetStats e req s)"
proof -
  have "quiet s (snd (nvme_build_snapshot e s))"
    unfolding nvme_build_snapshot_def Let_def snd_conv by (rule quiet_admin [OF _ smart_fresh_kept]) simp
  then show ?thesis by (simp add: NVMe_HandleGetStats_def Let_def case_prod_unfold)
qed

lemma device_query_quiet: "quiet s (device_query e req s)"
  by (simp add: device_query_def Let_def)

lemma begin_switch_post:
  assumes "req \<noteq> 0"
  shows "begin_post req s (begin_switch e req has_unit cmd s)"
  by (simp add: begin_switch_def hold_post assms PutMsg_post inline_reply_post drop_quiet device_query_quiet GetStats_quiet)

lemma BeginIO_post:
  assumes "req \<noteq> 0"
  shows "begin_post req s (manager_BeginIO e req s)"
proof -
  have "begin_post req (set_error req IO_OK s) (manager_BeginIO e req s)"
    using begin_switch_post [OF assms, of "set_error req IO_OK s"] by (simp add: manager_BeginIO_def Let_def)
  then show ?thesis by (simp add: begin_post_def conserved_def set_error_def)
qed

lemma AbortIO_quiet: "quiet s (snd (manager_AbortIO req s))"
proof -
  have "quiet s (ReplyMsg req (set_error req err (Forbid_Permit (upd_unit (\<lambda>u. u\<lparr>port_msgs := remove1 req (port_msgs u)\<rparr>) s))))"
    if f: "req \<in> set (port_msgs (unit_st s))" for err
    using f multi_member_split [of req "mset (port_msgs (unit_st s))"]
    by (auto simp: quiet_def waiting_def set_error_def intro!: conserved_wait)
  then show ?thesis by (simp add: manager_AbortIO_def Let_def)
qed

lemma close_release_quiet: "quiet s (close_release s)"
proof -
  have t: "quiet s t \<Longrightarrow> quiet t u \<Longrightarrow> quiet s u" for s t u
    using conserved_trans [of s t "{#}" u "{#}"] by (auto simp: quiet_def intro: same_io_trans subset_mset.trans)
  show ?thesis unfolding close_release_def by (rule t [OF drop_quiet(1) drop_quiet(2)])
qed

end
