(* ===== verification/Nvme_System.thy ===== *)
theory Nvme_System
  imports Nvme_BeginIO
begin

text \<open>
  The driver as a transition system: any number of client tasks that call \<open>BeginIO\<close> and
  \<open>AbortIO\<close>, the device, and the unit task with its event loop (\<open>unit_task_entry\<close> of
  src/src/unit_task.c). A step of the unit task is one pass of the yield-poll, one wake-up,
  one message of the drain, or the end of a drain; clients and device act between the steps.
  The ghost \<open>accepted\<close> collects what \<open>BeginIO\<close> accepted and did not complete on the spot.
\<close>

section \<open>Configurations and steps\<close>

datatype task_pc = Top | Drain u16 | Exiting | Gone

record config =
  pc :: task_pc
  drv_st :: drv
  accepted :: "token multiset"

text \<open>The client's side of exec: a request in use belongs to the driver.\<close>

definition idle :: "u32 \<Rightarrow> drv \<Rightarrow> bool" where
  "idle r s \<longleftrightarrow> r \<noteq> 0 \<and> r \<notin> set (waiting (unit_st s)) \<and> not_inflight r s"

text \<open>
  The end of \<open>unit_task_entry\<close>: signal bit and port are freed, the unit forgets its task, and
  a parent that waits for the end is signalled.
\<close>

definition task_exit :: "drv \<Rightarrow> drv" where
  "task_exit s =
     (let u = unit_st s;
          s1 = log_ev (EvFreePort (io_port u)) (log_ev (EvFreeSignal (io_signal_mask u)) s);
          s2 = upd_unit (\<lambda>u. u\<lparr>io_port := 0, io_wait_task := 0, io_signal_mask := 0, unit_task := 0\<rparr>) s1
      in if shutdown_ack_task u \<noteq> 0 \<and> shutdown_ack_mask u \<noteq> 0
         then log_ev (EvSignal (shutdown_ack_task u) (shutdown_ack_mask u)) s2 else s2)"

inductive step :: "env \<Rightarrow> config \<Rightarrow> config \<Rightarrow> bool" for e where
  begin_io: "idle req (drv_st c) \<Longrightarrow> s' = manager_BeginIO e req (drv_st c) \<Longrightarrow>
     step e c (c\<lparr>drv_st := s', accepted := accepted c + begun req s'\<rparr>)"
| abort_io: "step e c (c\<lparr>drv_st := snd (manager_AbortIO req (drv_st c))\<rparr>)"
| client: "idle req (drv_st c) \<Longrightarrow> step e c (c\<lparr>drv_st := upd_req req f (drv_st c)\<rparr>)"
| device: "step e c (c\<lparr>drv_st := upd_ram g (drv_st c)\<rparr>)"
| last_close: "step e c (c\<lparr>drv_st := close_release (drv_st c)\<rparr>)"
| yield_poll: "pc c = Top \<Longrightarrow> has_inflight (drv_st c) \<Longrightarrow> step e c (c\<lparr>drv_st := task_yield e (drv_st c)\<rparr>)"
| wake: "pc c = Top \<Longrightarrow> step e c (c\<lparr>drv_st := unmask_irq (NVMeIO_Harvest e (drv_st c))\<rparr>)"
| wake_msg: "pc c = Top \<Longrightarrow> s' = NVMeIO_Harvest e (drv_st c) \<Longrightarrow>
     step e c (c\<lparr>pc := Drain (io_sq_tail (unit_st s')), drv_st := s'\<rparr>)"
| get_msg: "pc c = Drain t \<Longrightarrow> GetMsg (drv_st c) = (Some m, s') \<Longrightarrow> step e c (c\<lparr>drv_st := dispatch_ioreq e m s'\<rparr>)"
| drained: "pc c = Drain t \<Longrightarrow> GetMsg (drv_st c) = (None, s') \<Longrightarrow> step e c (c\<lparr>pc := Top, drv_st := drain_end e t s'\<rparr>)"
| shutdown: "pc c = Top \<Longrightarrow> step e c (c\<lparr>pc := Exiting\<rparr>)"
| exit_msg: "pc c = Exiting \<Longrightarrow> GetMsg (drv_st c) = (Some m, s') \<Longrightarrow> step e c (c\<lparr>drv_st := exit_abort m s'\<rparr>)"
| exit: "pc c = Exiting \<Longrightarrow> GetMsg (drv_st c) = (None, s') \<Longrightarrow> step e c (c\<lparr>pc := Gone, drv_st := task_exit s'\<rparr>)"

text \<open>The unit as \<open>UnitTask_Start\<close> leaves it: nothing queued, nothing held, no slot taken.\<close>

definition boot :: "drv \<Rightarrow> bool" where
  "boot s \<longleftrightarrow> unit_ok (unit_st s) \<and> (\<forall>f\<in>set (inflight (unit_st s)). inf_ioreq f = 0) \<and>
     waiting (unit_st s) = [] \<and> trace s = []"

inductive reach :: "env \<Rightarrow> drv \<Rightarrow> config \<Rightarrow> bool" for e s0 where
  start: "reach e s0 \<lparr>pc = Top, drv_st = s0, accepted = {#}\<rparr>"
| more: "reach e s0 c \<Longrightarrow> step e c c' \<Longrightarrow> reach e s0 c'"

section \<open>The invariant\<close>

definition wf :: "drv \<Rightarrow> bool" where
  "wf s \<longleftrightarrow> unit_ok (unit_st s) \<and> distinct (waiting (unit_st s)) \<and>
     (\<forall>r\<in>set (waiting (unit_st s)). r \<noteq> 0 \<and> not_inflight r s)"

definition ledger :: "config \<Rightarrow> bool" where
  "ledger c \<longleftrightarrow> held_slots (inflight (unit_st (drv_st c))) + mset (map Tok_Req (waiting (unit_st (drv_st c)))) +
     outs (trace (drv_st c)) = ins (trace (drv_st c)) + accepted c"

lemma ledger_step:
  assumes "ledger c" and "conserved (drv_st c) s' R"
  shows "ledger (c\<lparr>drv_st := s', accepted := accepted c + R\<rparr>)"
proof -
  have "h' + w' + o' = i' + (a + R)"
    if "h + w + o1 = i + a" "h' + w' + o' + i = h + w + o1 + i' + R"
    for h w o1 i a h' w' o' i' :: "token multiset"
  proof -
    have "(h' + w' + o') + i = (i' + (a + R)) + i" using that(2) unfolding that(1) by (simp add: ac_simps)
    then show ?thesis by simp
  qed
  from this [OF assms(1) [unfolded ledger_def] assms(2) [unfolded conserved_def]]
  show ?thesis by (simp add: ledger_def)
qed

lemma ledger_step0: "ledger c \<Longrightarrow> conserved (drv_st c) s' {#} \<Longrightarrow> ledger (c\<lparr>drv_st := s'\<rparr>)"
  using ledger_step [of c s' "{#}"] by (simp add: ledger_def)

lemma ledger_pc [simp]: "ledger (c\<lparr>pc := p, drv_st := s\<rparr>) = ledger (c\<lparr>drv_st := s\<rparr>)" "ledger (c\<lparr>pc := p\<rparr>) = ledger c"
  by (simp_all add: ledger_def)

text \<open>Distinctness passes to a smaller multiset.\<close>

lemma distinct_subset_mset:
  assumes "mset ys \<subseteq># mset xs" and "distinct xs"
  shows "distinct ys"
proof -
  have "count (mset ys) a \<le> 1" for a
    using mset_subset_eq_count [OF assms(1), of a] assms(2) distinct_count_atmost_1 [of xs] by (metis le_trans order_refl zero_le_one)
  then have "count (mset ys) a = (if a \<in> set ys then 1 else 0)" for a
    by (metis One_nat_def count_greater_zero_iff le_antisym not_gr_zero set_mset_mset Suc_leI)
  then show ?thesis by (simp add: distinct_count_atmost_1)
qed

lemma ins_no_req: "count (ins tr) (Tok_Req r) = 0"
proof (induction tr)
  case (Cons ev tr)
  then show ?case by (cases ev) simp_all
qed simp

text \<open>The three ways a step moves on.\<close>

lemma quiet_inv:
  assumes "quiet s t" and "wf s" and "\<And>r. not_inflight r t = not_inflight r s"
  shows "wf t" and "conserved s t {#}"
proof -
  have w: "mset (waiting (unit_st t)) \<subseteq># mset (waiting (unit_st s))" and u: "unit_ok (unit_st t)"
    using assms(1,2) same_ioD(2) [of "unit_st s" "unit_st t"] by (auto simp: quiet_def wf_def)
  then have "set (waiting (unit_st t)) \<subseteq> set (waiting (unit_st s))" using set_mset_mono by fastforce
  then show "wf t" using w u assms(2,3) distinct_subset_mset [OF w] by (auto simp: wf_def)
  show "conserved s t {#}" using assms(1) by (simp add: quiet_def)
qed

lemma quiet_not_inflight:
  assumes "quiet s t"
  shows "not_inflight r t = not_inflight r s"
proof -
  have "same_io (unit_st s) (unit_st t)" using assms by (simp add: quiet_def)
  then show ?thesis by (simp add: not_inflight_def slot_of_def same_ioD(1))
qed

lemma sync_inv:
  assumes "sync_kept R s t" and "wf s"
  shows "wf t" and "conserved s t {#}"
proof -
  have w: "waiting (unit_st t) = waiting (unit_st s)"
    by (rule static_waiting) (use assms(1) in \<open>simp add: sync_kept_def\<close>)
  show "wf t" using assms w sync_kept_not_inflight [OF assms(1)] by (auto simp: wf_def sync_kept_ok)
  show "conserved s t {#}" using assms(1) w by (intro balanced_conserved) (simp_all add: sync_kept_def)
qed

lemma begin_inv:
  assumes "begin_post req s t" and "wf s" and "idle req s"
  shows "wf t"
proof -
  have io: "same_io (unit_st s) (unit_st t)" and w: "mset (waiting (unit_st t)) \<subseteq># mset (req # waiting (unit_st s))"
    using assms(1) by (simp_all add: begin_post_def)
  have n: "not_inflight r t = not_inflight r s" for r
    using same_ioD(1) [OF io] by (simp add: not_inflight_def slot_of_def)
  have "set (waiting (unit_st t)) \<subseteq> insert req (set (waiting (unit_st s)))"
    using set_mset_mono [OF w] by simp
  moreover have "distinct (waiting (unit_st t))"
    by (rule distinct_subset_mset [OF w]) (use assms in \<open>simp add: wf_def idle_def\<close>)
  ultimately show ?thesis
    using assms(2,3) n same_ioD(2) [OF io] by (auto simp: wf_def idle_def)
qed

lemma GetMsg_Some:
  assumes "GetMsg s = (Some m, t)"
  shows "port_msgs (unit_st s) = m # port_msgs (unit_st t)" and "reqs t = reqs s"
    and "mset (waiting (unit_st s)) = mset (waiting (unit_st t)) + {#m#}"
    and "inflight (unit_st t) = inflight (unit_st s)" and "trace t = trace s" and "unit_ok (unit_st t) = unit_ok (unit_st s)"
  using assms by (auto simp: GetMsg_def waiting_def unit_ok_def split: list.splits)

lemma GetMsg_None: "GetMsg s = (None, t) \<Longrightarrow> t = s \<and> port_msgs (unit_st s) = []"
  by (auto simp: GetMsg_def split: list.splits)

lemma get_inv:
  assumes g: "GetMsg s = (Some m, t)" and wf: "wf s"
  shows "unit_ok (unit_st t)" and "m \<noteq> 0" and "not_inflight m t" and "wf t" and "m \<notin> set (waiting (unit_st t))"
proof -
  note G = GetMsg_Some [OF g]
  have n: "not_inflight r t = not_inflight r s" for r using G(4) by (simp add: not_inflight_def slot_of_def)
  have w: "set (waiting (unit_st s)) = insert m (set (waiting (unit_st t)))"
    using G(3) [THEN arg_cong, of set_mset] by simp
  have "distinct (m # waiting (unit_st t))"
    using wf G(3) distinct_subset_mset [of "m # waiting (unit_st t)" "waiting (unit_st s)"] by (simp add: wf_def)
  then show "unit_ok (unit_st t)" "m \<noteq> 0" "not_inflight m t" "wf t" "m \<notin> set (waiting (unit_st t))"
    using wf w n G(6) by (auto simp: wf_def)
qed

lemma get_conserved:
  assumes g: "GetMsg s = (Some m, t)" and b: "conserved t u {#Tok_Req m#}"
  shows "conserved s u {#}"
  using GetMsg_Some [OF g] b by (simp add: conserved_def ac_simps)

lemma served_inv:
  assumes v: "served m s t" and wf: "wf s" and m: "m \<notin> set (waiting (unit_st s))"
  shows "wf t" and "conserved s t {#Tok_Req m#}"
proof -
  have w: "waiting (unit_st t) = waiting (unit_st s)"
    by (rule static_waiting) (use v in \<open>simp add: served_def\<close>)
  show "wf t" using v wf w m by (auto simp: wf_def served_def)
  show "conserved s t {#Tok_Req m#}" using v w by (intro balanced_conserved) (simp_all add: served_def)
qed

lemma task_exit_kept: "wf (task_exit s) = wf s" "conserved s (task_exit s) {#}"
proof -
  let ?f = "\<lambda>u :: NVMeUnit. u\<lparr>io_port := 0, io_wait_task := 0, io_signal_mask := 0, unit_task := 0\<rparr>"
  have f: "unit_ok (?f u) = unit_ok u" "waiting (?f u) = waiting u" for u
    by (simp_all add: unit_ok_def waiting_def)
  have "unit_st (task_exit s) = ?f (unit_st s)" by (simp add: task_exit_def Let_def)
  moreover have "outs (trace (task_exit s)) = outs (trace s)" "ins (trace (task_exit s)) = ins (trace s)"
    by (simp_all add: task_exit_def Let_def)
  ultimately show "wf (task_exit s) = wf s" "conserved s (task_exit s) {#}"
    using f by (simp_all add: wf_def conserved_def not_inflight_def slot_of_def)
qed

text \<open>
  What a step keeps of the unit: its identity, queues, buffers and task. Only the slots, the ring
  indices, the statistics and the waiting requests change, and at the exit of the task its
  port, its signal bit and the task itself.
\<close>

definition home_of :: "NVMeUnit \<Rightarrow> NVMeUnit" where
  "home_of u = (static_of u)\<lparr>port_msgs := [], changeint_req := 0, remove_req := 0\<rparr>"

definition bare_of :: "NVMeUnit \<Rightarrow> NVMeUnit" where
  "bare_of u = (home_of u)\<lparr>io_port := 0, io_wait_task := 0, io_signal_mask := 0, unit_task := 0\<rparr>"

lemma static_home: "static_of u' = static_of u \<Longrightarrow> home_of u' = home_of u"
  by (simp add: home_of_def)

lemma same_io_home: "same_io u u' \<Longrightarrow> home_of u' = home_of u"
proof -
  assume "same_io u u'"
  then have "home_of u' = home_of (u\<lparr>port_msgs := port_msgs u', changeint_req := changeint_req u', remove_req := remove_req u'\<rparr>)"
    using same_io_def by metis
  then show ?thesis by (simp add: home_of_def static_of_def)
qed

definition stepped :: "config \<Rightarrow> config \<Rightarrow> bool" where
  "stepped c c' \<longleftrightarrow> wf (drv_st c') \<and> bare_of (unit_st (drv_st c')) = bare_of (unit_st (drv_st c)) \<and>
     (pc c' \<noteq> Gone \<or> pc c = Gone \<longrightarrow> home_of (unit_st (drv_st c')) = home_of (unit_st (drv_st c))) \<and>
     (\<exists>R. accepted c' = accepted c + R \<and> conserved (drv_st c) (drv_st c') R)"

lemma steppedI:
  assumes "wf (drv_st c')" and "home_of (unit_st (drv_st c')) = home_of (unit_st (drv_st c))"
    and "accepted c' = accepted c + R" and "conserved (drv_st c) (drv_st c') R"
  shows "stepped c c'"
  using assms by (auto simp: stepped_def bare_of_def)

lemma stepped_quiet:
  assumes q: "quiet (drv_st c) s'" and wf: "wf (drv_st c)"
  shows "stepped c (c\<lparr>drv_st := s'\<rparr>)"
proof -
  have "home_of (unit_st s') = home_of (unit_st (drv_st c))" by (rule same_io_home) (use q in \<open>simp add: quiet_def\<close>)
  then show ?thesis using quiet_inv [OF q wf quiet_not_inflight [OF q]] by (intro steppedI) simp_all
qed

lemma stepped_sync:
  assumes k: "sync_kept R (drv_st c) (drv_st c')" and wf: "wf (drv_st c)" and "accepted c' = accepted c"
  shows "stepped c c'"
proof -
  have "home_of (unit_st (drv_st c')) = home_of (unit_st (drv_st c))"
    by (rule static_home) (use k in \<open>simp add: sync_kept_def\<close>)
  then show ?thesis using sync_inv [OF k wf] assms(3) by (intro steppedI [where R = "{#}"]) simp_all
qed

lemma GetMsg_home: "GetMsg s = (Some m, t) \<Longrightarrow> home_of (unit_st t) = home_of (unit_st s)"
  by (auto simp: GetMsg_def home_of_def static_of_def split: list.splits)

lemma stepped_get:
  assumes g: "GetMsg (drv_st c) = (Some m, s')" and v: "served m s' t" and wf: "wf (drv_st c)"
  shows "stepped c (c\<lparr>drv_st := t\<rparr>)"
proof -
  note i = served_inv [OF v get_inv(4,5) [OF g wf]]
  have "home_of (unit_st t) = home_of (unit_st (drv_st c))"
    using v static_home GetMsg_home [OF g] by (metis served_def)
  then show ?thesis using i(1) get_conserved [OF g i(2)] by (intro steppedI) simp_all
qed

lemma step_post:
  assumes "step e c c'" and fl: "dma_flags_clear e" and wf: "wf (drv_st c)"
  shows "stepped c c'"
  using assms(1)
proof cases
  case (begin_io req s')
  have p: "begin_post req (drv_st c) s'" using BeginIO_post begin_io by (simp add: idle_def)
  have "home_of (unit_st s') = home_of (unit_st (drv_st c))" by (rule same_io_home) (use p in \<open>simp add: begin_post_def\<close>)
  then show ?thesis
    using begin_inv [OF p wf begin_io(2)] p begin_io by (intro steppedI [where R = "begun req s'"]) (simp_all add: begin_post_def)
next
  case (device g)
  show ?thesis by (rule stepped_sync [OF _ wf]) (use wf device in \<open>simp_all add: wf_def sync_kept_refl\<close>)
next
  case yield_poll
  show ?thesis by (rule stepped_sync [OF _ wf]) (use wf yield_poll in \<open>simp_all add: wf_def task_yield_kept\<close>)
next
  case wake
  show ?thesis by (rule stepped_sync [OF _ wf]) (use wf wake in \<open>simp_all add: wf_def Harvest_sync sync_kept_refl\<close>)
next
  case (wake_msg s')
  show ?thesis by (rule stepped_sync [OF _ wf]) (use wf wake_msg in \<open>simp_all add: wf_def Harvest_sync sync_kept_refl\<close>)
next
  case (get_msg t m s')
  note g = get_inv [OF get_msg(3) wf]
  show ?thesis
    unfolding get_msg(1) by (rule stepped_get [OF get_msg(3) dispatch_ioreq_served [OF g(1,3,2) fl] wf])
next
  case (drained t s')
  show ?thesis
    by (rule stepped_sync [OF _ wf]) (use wf drained GetMsg_None [OF drained(3)] in \<open>simp_all add: wf_def drain_end_kept\<close>)
next
  case shutdown
  show ?thesis by (rule steppedI [where R = "{#}"]) (use wf shutdown in simp_all)
next
  case (exit_msg m s')
  note g = get_inv [OF exit_msg(3) wf]
  have "served m s' (exit_abort m s')"
    unfolding exit_abort_def by (rule served_reply) (simp add: sync_kept_refl g(1))
  from stepped_get [OF exit_msg(3) this wf] show ?thesis unfolding exit_msg(1) .
next
  case (exit s')
  have "bare_of (unit_st (task_exit s')) = bare_of (unit_st s')"
    by (simp add: task_exit_def Let_def bare_of_def home_of_def static_of_def)
  then show ?thesis using task_exit_kept GetMsg_None [OF exit(3)] exit wf by (simp add: stepped_def)
qed (use stepped_quiet [OF _ wf] AbortIO_quiet close_release_quiet in simp_all)

lemma step_inv:
  assumes "step e c c'" and "dma_flags_clear e" and "wf (drv_st c)" and "ledger c"
  shows "wf (drv_st c') \<and> ledger c'"
proof -
  obtain R where R: "accepted c' = accepted c + R" "conserved (drv_st c) (drv_st c') R"
    using step_post [OF assms(1-3)] by (auto simp: stepped_def)
  have "ledger c'" using ledger_step [OF assms(4) R(2)] R(1) by (simp add: ledger_def)
  then show ?thesis using step_post [OF assms(1-3)] by (simp add: stepped_def)
qed

lemma boot_inv: "boot s \<Longrightarrow> wf s \<and> ledger \<lparr>pc = Top, drv_st = s, accepted = {#}\<rparr>"
proof -
  assume b: "boot s"
  have "held_slots fs = {#}" if "\<forall>f\<in>set fs. slot_ok f \<and> inf_ioreq f = 0" for fs
    using that by (induction fs) (simp_all add: held_slots_def)
  then show ?thesis using b by (simp add: boot_def wf_def ledger_def unit_ok_def)
qed

lemma reach_inv:
  assumes "reach e s0 c" and "boot s0" and "dma_flags_clear e"
  shows "wf (drv_st c)" and "ledger c"
proof -
  have "wf (drv_st c) \<and> ledger c"
    using assms(1)
  proof (induction rule: reach.induct)
    case start
    show ?case using boot_inv [OF assms(2)] by simp
  next
    case (more c c')
    then show ?case using step_inv [OF _ assms(3)] by blast
  qed
  then show "wf (drv_st c)" and "ledger c" by simp_all
qed

text \<open>What the ledger says of one request.\<close>

definition in_slots :: "u32 \<Rightarrow> drv \<Rightarrow> nat" where
  "in_slots r s = length (filter (\<lambda>f. inf_ioreq f = r \<and> \<not> inf_suppress_reply f) (inflight (unit_st s)))"

definition replies :: "u32 \<Rightarrow> drv \<Rightarrow> nat" where
  "replies r s = count_list (trace s) (EvReply r)"

lemma count_held: "r \<noteq> 0 \<Longrightarrow> count (held_slots fs) (Tok_Req r) =
    length (filter (\<lambda>f. inf_ioreq f = r \<and> \<not> inf_suppress_reply f) fs)"
  by (induction fs) (auto simp: held_slots_def held_def)

lemma count_outs: "count (outs tr) (Tok_Req r) = count_list tr (EvReply r)"
proof (induction tr)
  case (Cons ev tr)
  then show ?case by (cases ev) auto
qed simp

lemma count_waiting: "count (mset (map Tok_Req xs)) (Tok_Req r) = count_list xs r"
  by (induction xs) auto

lemma request_account:
  assumes "ledger c" and "r \<noteq> 0"
  shows "in_slots r (drv_st c) + count_list (waiting (unit_st (drv_st c))) r + replies r (drv_st c) =
     count (accepted c) (Tok_Req r)"
  using arg_cong [OF assms(1) [unfolded ledger_def], of "\<lambda>x. count x (Tok_Req r)"] assms(2)
  by (simp only: count_union count_held count_outs count_waiting ins_no_req in_slots_def replies_def add_0 not_False_eq_True)

text \<open>Only requests enter \<open>accepted\<close>.\<close>

lemma reach_accepted: "reach e s0 c \<Longrightarrow> \<forall>r. t \<noteq> Tok_Req r \<Longrightarrow> count (accepted c) t = 0"
proof (induction rule: reach.induct)
  case (more c c')
  from more.hyps(2) show ?case
    using more.IH [OF more.prems] more.prems by cases (auto simp: begun_def)
qed simp

section \<open>After the exit of the task\<close>

text \<open>The slots as they are when the task has gone; \<open>n\<close> is how often \<open>r\<close> was accepted.\<close>

definition gone_with :: "u32 \<Rightarrow> NVMeInflight list \<Rightarrow> nat \<Rightarrow> config \<Rightarrow> bool" where
  "gone_with r fs n c \<longleftrightarrow> pc c = Gone \<and> wf (drv_st c) \<and> ledger c \<and> inflight (unit_st (drv_st c)) = fs \<and>
     r \<notin> set (waiting (unit_st (drv_st c))) \<and> \<not> not_inflight r (drv_st c) \<and> count (accepted c) (Tok_Req r) = n"

lemma gone_quiet:
  assumes g: "gone_with r fs n c" and q: "quiet (drv_st c) s'"
  shows "gone_with r fs n (c\<lparr>drv_st := s'\<rparr>)"
proof -
  have w: "set (waiting (unit_st s')) \<subseteq> set (waiting (unit_st (drv_st c)))"
    using q set_mset_mono by (fastforce simp: quiet_def)
  have "inflight (unit_st s') = inflight (unit_st (drv_st c))" using q same_ioD(1) by (auto simp: quiet_def)
  then show ?thesis
    using g w quiet_not_inflight [OF q] quiet_inv [OF q _ quiet_not_inflight [OF q]] ledger_step0 [of c s']
    by (auto simp: gone_with_def)
qed

lemma gone_step:
  assumes "step e c c'" and g: "gone_with r fs n c" and fl: "dma_flags_clear e"
  shows "gone_with r fs n c'"
proof -
  have inv: "wf (drv_st c')" "ledger c'" using step_inv [OF assms(1) fl] g by (simp_all add: gone_with_def)
  show ?thesis
    using assms(1)
  proof cases
    case (begin_io req s')
    have p: "begin_post req (drv_st c) s'" using BeginIO_post begin_io by (simp add: idle_def)
    have ne: "req \<noteq> r" using begin_io(2) g by (auto simp: idle_def gone_with_def)
    have io: "same_io (unit_st (drv_st c)) (unit_st s')" using p by (simp add: begin_post_def)
    have "set (waiting (unit_st s')) \<subseteq> insert req (set (waiting (unit_st (drv_st c))))"
      using p set_mset_mono by (fastforce simp: begin_post_def)
    then show ?thesis
      using g inv ne same_ioD(1) [OF io] begin_io
      by (auto simp: gone_with_def begun_def not_inflight_def slot_of_def)
  next
    case (abort_io req)
    show ?thesis unfolding abort_io by (rule gone_quiet [OF g AbortIO_quiet])
  next
    case (client req f)
    show ?thesis unfolding client by (rule gone_quiet [OF g]) simp
  next
    case (device h)
    show ?thesis unfolding device by (rule gone_quiet [OF g]) (simp add: quiet_def conserved_def)
  next
    case last_close
    show ?thesis unfolding last_close by (rule gone_quiet [OF g close_release_quiet])
  qed (use g in \<open>simp_all add: gone_with_def\<close>)
qed

lemma gone_run:
  assumes "(step e)\<^sup>*\<^sup>* c c'" and "gone_with r fs n c" and "dma_flags_clear e"
  shows "gone_with r fs n c'"
  using assms by (induction rule: rtranclp_induct) (auto intro: gone_step)

end
