(* ===== verification/Nvme_Example.thy ===== *)
theory Nvme_Example
  imports Nvme_System
begin

text \<open>
  A concrete environment and driver state, at which the properties are instantiated: a
  namespace of 512 MiB with sectors of 512 bytes, pages of 4 KiB, an idle unit with sixteen
  free slots and a queue of 64 entries. The device never answers, StartDMA gives one
  fragment, and the request at \<open>demo_req\<close> reads sector 8.
\<close>

definition demo_env :: env where
  "demo_env = \<lparr>e_StartDMA = (\<lambda>tr a n f. 1),
     e_GetDMAList = (\<lambda>tr a n f k. \<lparr>PhysicalAddress = a, BlockLength = n\<rparr>),
     e_AllocDMAEntry = (\<lambda>tr n. 0x5000), e_CopyMem_in = (\<lambda>m a n b. b), e_CopyMem_out = (\<lambda>b m a n. m),
     e_tbr = (\<lambda>tr. 0), e_mmio = (\<lambda>tr a. 0), e_device = (\<lambda>tr m. m), e_eclock_freq = 1000,
     e_AllocVec = (\<lambda>tr n. 0x600000), e_AllocPort = (\<lambda>tr. 0x9000), e_AllocSignal = (\<lambda>tr. 20),
     e_CreateTask = (\<lambda>tr. 0xA000), e_MapInterrupt = 9, e_AddIntServer = (\<lambda>tr v. True), e_this_task = 0xB000,
     e_mounter = True, e_OpenLibrary = (\<lambda>tr n v. 0xD000), e_GetInterface = (\<lambda>tr l n. 0xE000), e_FindBridge = (\<lambda>tr. 0),
     e_FindClass = (\<lambda>tr c m k. if k = 0 then 0xC000 else 0), e_ReadConfig = (\<lambda>tr d r. 0), e_GetResourceRange = (\<lambda>tr d. 0xC800),
     e_range = (\<lambda>r. \<lparr>BaseAddress = 0xF0000000, Physical = 0xF0000000, range_Size = 0x4000, range_Flags = 1\<rparr>),
     e_GetMemoryAttrs = (\<lambda>tr a. 0), k_SysBase = 0x800, k_PCI_VENDOR_ID = 0, k_PCI_DEVICE_ID = 2, k_PCI_COMMAND = 4,
     k_PCI_BASE_ADDRESS_0 = 16, k_PCI_BASE_ADDRESS_1 = 20, k_PCI_COMMAND_MEMORY = 2, k_PCI_COMMAND_MASTER = 4,
     k_PCI_COMMAND_INT_DISABLE = 0x400, k_PCI_RANGE_MEMORY = 1, k_MEMATTRF_CACHEINHIBIT = 0x20, k_MEMATTRF_GUARDED = 0x8, k_sizeof_NVMeUnit = 4000,
     k_DMA_ReadFromRAM = 2, k_MEMF_PUBLIC = 1, k_DG_DIRECT_ACCESS = 0, k_DRIVE_NEWSTYLE = 0x4E535459,
     k_sizeof_SCSICmd = 30, k_sizeof_DriveGeometry = 32, k_sizeof_DriveGeometry64 = 32,
     k_sizeof_NSDeviceQueryResult = 16, k_NSDEVTYPE_TRACKDISK = 5\<rparr>"

definition free_slot :: NVMeInflight where
  "free_slot = \<lparr>inf_ioreq = 0, inf_cmd_id = 0, inf_is_write = False, inf_dma_buf = 0, inf_dma_phys = 0,
     inf_dma_size = 0, inf_dma_list = 0, inf_dma_entries = 0, inf_dma_flags = 0, inf_use_bounce = False,
     inf_bounce_user_buf = 0, inf_bounce_user_len = 0, inf_suppress_reply = False,
     inf_submit_ticks_hi = 0, inf_submit_ticks_lo = 0\<rparr>"

definition demo_unit :: NVMeUnit where
  "demo_unit = \<lparr>unit_num = 0, nsid = 1, unit_ctrl = 0, open_count = 1, block_size = 512, total_blocks = 0x100000, block_shift = 9,
     io_sq = 0x700000, io_cq = 0x710000, io_sq_phys = 0x700000, io_cq_phys = 0x710000,
     io_sq_tail = 0, io_cq_head = 0, io_cq_phase = 1, queue_depth = 64, queue_id = 1,
     unit_task = 0xA000, io_port = 0x9000, io_signal_mask = 0x100000, io_wait_task = 0xA000, task_shutdown = False,
     shutdown_ack_task = 0, shutdown_ack_mask = 0, port_msgs = [], inflight = replicate 16 free_slot,
     bounce_bufs = replicate 16 0x100000, bounce_phys = replicate 16 0x100000,
     prp_list_pages = replicate 16 0x200000, prp_list_phys = replicate 16 0x200000, dma_entry_pool = replicate 16 0,
     dma_entry_pool_capacity = 0, dsm_buf = 0x300000, dsm_phys = 0x300000,
     changeint_req = 0, remove_req = 0, stats = zero_stats\<rparr>"

definition demo_smart :: NVMeSMARTCache where
  "demo_smart = \<lparr>sc_valid = False, sc_last_refresh_tbr = 0, sc_critical_warning = 0, sc_temp_k = 0,
     sc_spare_pct = 0, sc_spare_threshold = 0, sc_life_used_pct = 0, sc_data_read_units = 0,
     sc_data_written_units = 0, sc_host_reads = 0, sc_host_writes = 0, sc_power_cycles = 0,
     sc_power_on_hours = 0, sc_unsafe_shutdowns = 0, sc_media_errors = 0\<rparr>"

definition demo_ctrl :: NVMeController where
  "demo_ctrl = \<lparr>iobase = 0xF0000000, cap_mqes = 64, cap_dstrd = 0, page_size = 4096,
     max_transfer_bytes = 0x20000, io_queue_depth = 64, admin_sq = 0x500000, admin_cq = 0x510000,
     admin_sq_phys = 0, admin_cq_phys = 0, admin_sq_dma = 0, admin_cq_dma = 0,
     admin_sq_tail = 0, admin_cq_head = 0, admin_cq_phase = 1, next_cmd_id = 1, identify_buf = 0x400000,
     identify_phys = 0x400000, identify_dma = 0, pciDevice = 0xC000, irq_vector = 0,
     irq_installed = False, polling_mode = True, model_str = replicate 41 0, serial_str = replicate 21 0,
     fw_rev_str = replicate 9 0, onc_dsm = True, vwc_present = True, vwc_enabled = True,
     smart_cache = demo_smart, ctrl_idx = 0, bar0 = 0xC800\<rparr>"

definition demo_req :: u32 where "demo_req = 0x1000"

definition demo_ioreq :: IOStdReq where
  "demo_ioreq = \<lparr>io_Unit = 0x8000, io_Command = CMD_READ, io_Flags = 0, io_Error = IO_OK, io_Actual = 0,
     io_Length = 0x200, io_Data = 0x20000000, io_Offset = 0x1000\<rparr>"

definition demo_scsi :: SCSICmd where
  "demo_scsi = \<lparr>scsi_Data = 0x30000000, scsi_Length = 512, scsi_Actual = 0, scsi_Command = 0x31000000,
     scsi_CmdLength = 16, scsi_CmdActual = 0, scsi_Status = 0, scsi_SenseData = 0, scsi_SenseLength = 0,
     scsi_SenseActual = 0\<rparr>"

definition demo_drv :: drv where
  "demo_drv = \<lparr>ram = \<lparr>mem = (\<lambda>_. 0), sq_mem = (\<lambda>_. 0), cq_mem = (\<lambda>_. 0), bounce_mem = (\<lambda>_ _. 0),
       prp_mem = (\<lambda>_ _. 0), dsm_mem = (\<lambda>_. 0), asq_mem = (\<lambda>_. 0), acq_mem = (\<lambda>_. 0), id_mem = (\<lambda>_. 0)\<rparr>,
     reqs = (\<lambda>_. demo_ioreq), scsis = (\<lambda>_. demo_scsi),
     geoms = (\<lambda>_. \<lparr>dg_SectorSize = 0, dg_TotalSectors = 0, dg_Cylinders = 0, dg_CylSectors = 0, dg_Heads = 0,
       dg_TrackSectors = 0, dg_BufMemType = 0, dg_DeviceType = 0, dg_Flags = 0\<rparr>),
     geoms64 = (\<lambda>_. \<lparr>dg64_SectorSize = 0, dg64_TotalSectors = 0, dg64_DeviceType = 0, dg64_Flags = 0\<rparr>),
     nsqs = (\<lambda>_. \<lparr>DevQueryFormat = 0, SizeAvailable = 0, DeviceType = 0, DeviceSubType = 0, SupportedCommands = []\<rparr>),
     isr_count = 0, isr_claimed = 0, isr_not_ours = 0, unit_st = demo_unit, ctrl_st = demo_ctrl, trace = []\<rparr>"

lemma demo_flags [simp]: "dma_flags_clear demo_env"
  by (simp add: dma_flags_clear_def demo_env_def POOL_MARK_def)

lemma demo_req_nonzero [simp]: "demo_req \<noteq> 0"
  by (simp add: demo_req_def)

lemma demo_ok [simp]: "unit_ok (unit_st demo_drv)"
  by (simp add: demo_drv_def demo_unit_def unit_ok_def NVME_MAX_INFLIGHT_def free_slot_def slot_ok_def occupied_def
      zero_stats_def)

lemma demo_slot: "i < NVME_MAX_INFLIGHT \<Longrightarrow> slot_of demo_drv i = free_slot"
  by (simp add: slot_of_def demo_drv_def demo_unit_def NVME_MAX_INFLIGHT_def)

lemma demo_idle [simp]: "r \<noteq> 0 \<Longrightarrow> not_inflight r demo_drv"
  by (simp add: not_inflight_def demo_slot free_slot_def)

lemma demo_free [simp]: "find_free_slot demo_drv = Some 0"
proof -
  have "replicate 16 free_slot = free_slot # replicate 15 free_slot" by (simp add: numeral_eq_Suc)
  then show ?thesis
    by (simp add: find_free_slot_def demo_drv_def demo_unit_def NVME_MAX_INFLIGHT_def free_slot_def)
qed

lemma demo_waiting [simp]: "waiting (unit_st demo_drv) = []"
  by (simp add: waiting_def demo_drv_def demo_unit_def)

lemma demo_boot [simp]: "boot demo_drv"
  by (simp add: boot_def) (simp add: demo_drv_def demo_unit_def free_slot_def)

lemma demo_client_idle [simp]: "r \<noteq> 0 \<Longrightarrow> idle r demo_drv"
  by (simp add: idle_def)

lemma demo_fields [simp]:
  "reqs demo_drv r = demo_ioreq" "ctrl_st demo_drv = demo_ctrl" "scsis demo_drv p = demo_scsi" "trace demo_drv = []"
  "page_size demo_ctrl = 4096" "io_Data demo_ioreq = 0x20000000" "io_Length demo_ioreq = 0x200"
  "io_Unit demo_ioreq = 0x8000" "io_Command demo_ioreq = CMD_READ" "io_Flags demo_ioreq = 0"
  "max_transfer_bytes demo_ctrl = 0x20000"
  by (simp_all add: demo_drv_def demo_ctrl_def demo_ioreq_def)

lemma demo_unit_fields [simp]:
  "block_size (unit_st demo_drv) = 512" "block_shift (unit_st demo_drv) = 9" "io_port (unit_st demo_drv) = 0x9000"
  "queue_depth (unit_st demo_drv) = 64" "io_sq_tail (unit_st demo_drv) = 0" "port_msgs (unit_st demo_drv) = []"
  by (simp_all add: demo_drv_def demo_unit_def)

lemma demo_submit_any: "fst (NVMeIO_SubmitNoRing e demo_req w demo_drv) = 0"
proof -
  have c: "submit_check (unit_st demo_drv) demo_ioreq = Inr (8, 1)"
    by (simp add: submit_check_def byte_offset_of_def offset_is_64_def Let_def) (simp add: demo_ioreq_def)
  have b: "should_use_bounce 0x200 0x20000000 4096"
    by (simp add: should_use_bounce_def nvme_defs)
  have p: "bounce_prp2 4096 512 x m = (m, PRP2_value 0)" for x m
    by (simp add: bounce_prp2_def)
  have "\<exists>prps t. submit_bounce e demo_req 0 w 0x20000000 512 (reserve_slot 0 demo_req w demo_drv) = (Inr prps, t)"
    by (simp add: submit_bounce_def Let_def p reserve_slot_def)
  with c b show ?thesis
    by (auto simp: NVMeIO_SubmitNoRing_def Let_def reserve_slot_def)
qed

lemma demo_submit: "fst (NVMeIO_SubmitNoRing demo_env demo_req w demo_drv) = 0"
  by (rule demo_submit_any)

end
