(* ===== verification/Nvme_Transfer_Props.thy ===== *)
theory Nvme_Transfer_Props
  imports Nvme_Example
begin

text \<open>
  Properties of the transfer path: what the controller is told (PRP entries, submission
  entries, doorbells), what a submission and a harvest do to the unit, and what a
  synchronous command promises. Each is stated over the model of the code and instantiated
  at the example state.
\<close>

section \<open>Shared facts\<close>

lemma unat_drop: "unat (drop_bit k (x :: 'a::len word)) = unat x div 2 ^ k"
  unfolding unat_drop_bit_eq by (rule drop_bit_eq_div)

lemma mask_zero: "x AND mask k = 0 \<longleftrightarrow> unat (x :: 'a::len word) mod 2 ^ k = 0"
  using and_mask_dvd_nat [of k x] by (simp add: dvd_eq_mod_eq_0)

lemma len_mask: "b = 2 ^ k \<Longrightarrow> x AND (b - 1) = 0 \<longleftrightarrow> unat (x :: u32) mod 2 ^ k = 0"
  by (simp only: mask_eq_exp_minus_1 [symmetric] mask_zero)

lemma off_mask:
  assumes "b = 2 ^ k" and "k < 32"
  shows "(ucast ((x :: u64) AND ucast (b - 1 :: u32)) :: u32) = 0 \<longleftrightarrow> unat x mod 2 ^ k = 0"
proof -
  have m: "b - 1 = mask k" using assms(1) by (simp add: mask_eq_exp_minus_1)
  have e: "x AND ucast (mask k :: u32) = x AND mask k"
    by (rule bit_word_eqI) (use assms(2) in \<open>auto simp: bit_simps\<close>)
  have "(ucast (x AND mask k) :: u32) = 0 \<longleftrightarrow> x AND mask k = 0"
  proof
    assume z: "(ucast (x AND mask k) :: u32) = 0"
    have b: "\<not> bit (x AND mask k) n" if "n < k" for n
      using that assms(2) z [THEN arg_cong, of "\<lambda>w. bit w n"] by (simp add: bit_simps)
    show "x AND mask k = 0"
      by (rule bit_word_eqI) (use b in \<open>auto simp: bit_simps\<close>)
  qed simp
  then have "(ucast (x AND ucast (mask k :: u32)) :: u32) = 0 \<longleftrightarrow> x AND mask k = 0"
    unfolding e .
  then show ?thesis unfolding m by (simp only: mask_zero)
qed

text \<open>The reference of the argument check, in block arithmetic.\<close>

lemma submit_check_blocks:
  assumes bs: "block_size u = 2 ^ k" and sh: "unat (block_shift u) = k" and k: "k < 32"
  shows "submit_check u r =
    (let off = unat (byte_offset_of r); len = unat (io_Length r) in
     if off mod 2 ^ k \<noteq> 0 then Inl (-5, IOERR_BADADDRESS)
     else if len mod 2 ^ k \<noteq> 0 \<or> len \<noteq> 0 \<and> io_Data r = 0 then Inl (-5, IOERR_BADLENGTH)
     else if len = 0 then Inl (-2, IO_OK)
     else if len div 2 ^ k > 65536 then Inl (-5, IOERR_BADLENGTH)
     else Inr (drop_bit k (byte_offset_of r), drop_bit k (io_Length r)))"
proof -
  have z: "io_Length r = 0 \<longleftrightarrow> unat (io_Length r) = 0" by (simp add: unsigned_eq_0_iff)
  have n: "drop_bit k (io_Length r) = 0 \<longleftrightarrow> unat (io_Length r) div 2 ^ k = 0"
    by (metis unat_drop unsigned_eq_0_iff)
  have g: "drop_bit k (io_Length r) > 0x10000 \<longleftrightarrow> unat (io_Length r) div 2 ^ k > 65536"
    by (simp add: word_less_nat_alt unat_drop)
  have d: "unat (io_Length r) mod 2 ^ k = 0 \<Longrightarrow> unat (io_Length r) div 2 ^ k = 0 \<longleftrightarrow> unat (io_Length r) = 0"
    by (metis div_mult_mod_eq add.right_neutral mult_zero_left div_0)
  show ?thesis
    unfolding submit_check_def Let_def sh off_mask [OF bs k] len_mask [OF bs] z
    using d by (auto simp: n g)
qed

lemma and_low32: "ucast ((x :: u64) AND 0xFFFFFFFF) = (ucast x :: u32)"
proof -
  have m: "(0xFFFFFFFF :: u64) = mask 32" by (simp add: mask_eq_exp_minus_1)
  show ?thesis unfolding m by (rule bit_word_eqI) (auto simp: bit_simps)
qed

lemma and_low16:
  assumes "unat (x :: u32) < 65536"
  shows "x AND 0xFFFF = x"
proof -
  have m: "(0xFFFF :: u32) = mask 16" by (simp add: mask_eq_exp_minus_1)
  have t: "unat (take_bit 16 x) = take_bit 16 (unat x)" by (rule unsigned_take_bit_eq)
  have "unat (x AND 0xFFFF) = unat x"
    unfolding m take_bit_eq_mask [symmetric] t using assms by (simp add: take_bit_nat_eq_self)
  then show ?thesis by (simp only: word_unat_eq_iff)
qed

lemma exact_div: "(n :: nat) mod b = 0 \<Longrightarrow> n div b * b = n"
  by auto

section \<open>What the controller is told\<close>

text \<open>
  C6. Direct path. For a page-size of 4 KiB to 128 MiB and a transfer of at most 2 MiB over a
  physically paged scatter-gather list, the PRP1, PRP2 and PRP list that the driver builds
  make the controller address, for every byte of the transfer, exactly the physical byte
  of the user buffer, and PRP2 is a list exactly when the transfer spans more than two pages.
\<close>

theorem direct_prp_addresses_buffer:
  assumes "unat pgsize = 2 ^ p" and "12 \<le> p" and "p \<le> 27" and "sg_paged (2 ^ p) ds"
    and "sg_length ds = unat len" and "unat len \<le> 2 ^ 21"
    and "direct_prp2 pgsize len (PhysicalAddress (hd ds)) ds b = (b', p2)"
  shows "prp2_form (2 ^ p) (unat len) (PhysicalAddress (hd ds)) p2 \<and>
    (\<forall>k < unat len. prp_locate (2 ^ p) (unat len) (PhysicalAddress (hd ds)) p2 b' k = sg_locate ds k)"
  using direct_prp2_refines [OF assms(1) _ assms(4) refl assms(5) _ _ assms(7)]
    direct_prp2_pages [OF assms(1-3,6)] assms(3) by simp

theorem direct_prp_addresses_buffer_witness:
  "prp2_form 4096 12288 0x10800 (snd (direct_prp2 4096 12288 0x10800
      [\<lparr>PhysicalAddress = 0x10800, BlockLength = 0x800\<rparr>, \<lparr>PhysicalAddress = 0x40000, BlockLength = 0x2800\<rparr>] (\<lambda>_. 0)))"
proof -
  let ?ds = "[\<lparr>PhysicalAddress = 0x10800, BlockLength = 0x800\<rparr>, \<lparr>PhysicalAddress = 0x40000, BlockLength = 0x2800\<rparr>] :: DMAEntry list"
  obtain b' p2 where r: "direct_prp2 4096 12288 (PhysicalAddress (hd ?ds)) ?ds (\<lambda>_. 0) = (b', p2)" by fastforce
  have "prp2_form (2 ^ 12) (unat (12288 :: u32)) (PhysicalAddress (hd ?ds)) p2"
    using direct_prp_addresses_buffer [of 4096 12 ?ds 12288 "\<lambda>_. 0" b' p2] r
    by (simp add: sg_length_def)
  with r show ?thesis by simp
qed

text \<open>
  C30. Bounce path. The PRP entries over the slot's own page-aligned bounce buffer address
  its bytes in order, for every transfer that the buffer of 64 KiB can hold.
\<close>

theorem bounce_prp_addresses_buffer:
  assumes "unat pgsize = 2 ^ p" and "12 \<le> p" and "p \<le> 27" and "unat prp1 mod 2 ^ p = 0"
    and "unat prp1 + unat len \<le> 2 ^ 32" and "unat len \<le> unat NVME_BOUNCE_SIZE"
    and "bounce_prp2 pgsize len prp1 b = (b', p2)"
  shows "prp2_form (2 ^ p) (unat len) prp1 p2 \<and>
         (\<forall>k < unat len. prp_locate (2 ^ p) (unat len) prp1 p2 b' k = unat prp1 + k)"
  using bounce_prp2_refines [OF assms(1-5) _ assms(7)] assms(6) by (simp add: NVME_BOUNCE_SIZE_def)

theorem bounce_prp_addresses_buffer_witness:
  "prp2_form 4096 65536 0x100000 (snd (bounce_prp2 4096 65536 0x100000 (\<lambda>_. 0)))"
proof -
  obtain b' p2 where r: "bounce_prp2 4096 65536 0x100000 (\<lambda>_. 0) = (b', p2)" by fastforce
  have "prp2_form (2 ^ 12) (unat (65536 :: u32)) 0x100000 p2"
    using bounce_prp_addresses_buffer [of 4096 12 "0x100000" 65536 "\<lambda>_. 0" b' p2] r
    by (simp add: NVME_BOUNCE_SIZE_def)
  with r show ?thesis by simp
qed

text \<open>
  C31. The PRP list builders never write outside the one page that is allocated for the
  list of a slot, whatever the scatter-gather list and the length.
\<close>

theorem prp_list_stays_in_page:
  assumes "unat pgsize \<le> k"
  shows "fst (direct_prp2 pgsize len prp1 ds b) k = b k \<and> fst (bounce_prp2 pgsize len prp1 b) k = b k"
  using assms by (simp add: direct_prp2_outside bounce_prp2_outside)

theorem prp_list_stays_in_page_witness:
  "fst (bounce_prp2 4096 0xFFFFFFFF 0x100000 (\<lambda>_. 7)) 4096 = (7 :: u8)"
  using prp_list_stays_in_page [of 4096 4096 "0xFFFFFFFF" "0x100000" "[]" "\<lambda>_. 7"] by simp

text \<open>
  C9. An accepted read or write puts into the submission queue, at the old tail and nowhere
  else, a command of the right direction for the unit's namespace whose identifier names
  the slot that holds the request, and whose first block and block count are exactly the
  byte range of the request; the tail moves on by one, modulo the depth.
\<close>

theorem submit_writes_command:
  assumes ok: "unit_ok (unit_st s)" and req: "req \<noteq> 0" and fl: "dma_flags_clear e"
    and bs: "block_size (unit_st s) = 2 ^ k" and sh: "unat (block_shift (unit_st s)) = k" and k: "k < 32"
    and res: "NVMeIO_SubmitNoRing e req w s = (0, s')"
  shows "\<exists>slot<NVME_MAX_INFLIGHT. find_free_slot s = Some slot \<and> inf_ioreq (slot_of s' slot) = req \<and>
     io_sq_tail (unit_st s') = ring_next (io_sq_tail (unit_st s)) (unat (queue_depth (unit_st s))) \<and>
     (\<forall>i. i \<noteq> unat (io_sq_tail (unit_st s)) \<longrightarrow> fetch_sqe (sq_mem (ram s')) i = fetch_sqe (sq_mem (ram s)) i) \<and>
     (let q = fetch_sqe (sq_mem (ram s')) (unat (io_sq_tail (unit_st s))) in
      sq_cdw0 q = (if w then NVME_CMD_WRITE else NVME_CMD_READ) OR push_bit 16 (of_nat (slot + 1)) \<and>
      sq_nsid q = nsid (unit_st s) \<and>
      unat (push_bit 32 (ucast (sq_cdw11 q)) OR ucast (sq_cdw10 q) :: u64) * 2 ^ k = unat (byte_offset_of (reqs s req)) \<and>
      (unat (sq_cdw12 q) + 1) * 2 ^ k = unat (io_Length (reqs s req)))"
  using ok req fl res
proof (cases rule: SubmitNoRing_cases)
  case (submitted slot lba nlb prps f evs)
  note free = find_free_slot_Some [OF ok submitted(1)]
  let ?r = "reqs s req" and ?q = "rw_sqe (unit_st s) w slot (fst prps) (snd prps) lba nlb"
  have c: "unat (byte_offset_of ?r) mod 2 ^ k = 0" "unat (io_Length ?r) mod 2 ^ k = 0" "unat (io_Length ?r) \<noteq> 0"
      "unat (io_Length ?r) div 2 ^ k \<le> 65536" "lba = drop_bit k (byte_offset_of ?r)" "nlb = drop_bit k (io_Length ?r)"
    using submitted(3) submit_check_blocks [OF bs sh k, of ?r] by (auto simp: Let_def split: if_splits)
  have n: "unat nlb = unat (io_Length ?r) div 2 ^ k" "unat lba * 2 ^ k = unat (byte_offset_of ?r)"
      "unat nlb * 2 ^ k = unat (io_Length ?r)"
    using c exact_div by (simp_all add: unat_drop)
  then have pos: "0 < unat nlb" using c(3) by (metis mult_0 not_gr_zero)
  then have m: "unat (nlb - 1) = unat nlb - 1" by (metis unat_minus_one unsigned_0 less_irrefl)
  then have nlb: "unat ((nlb - 1) AND 0xFFFF) + 1 = unat nlb"
    using pos n(1) c(4) by (simp add: and_low16)
  have cid: "(ucast (cid_of_slot slot) :: u32) = of_nat (slot + 1)"
  proof -
    have "unat (of_nat (slot + 1) :: u16) = slot + 1" "unat (of_nat (slot + 1) :: u32) = slot + 1"
      using free(1) by (intro unat_of_nat_small, simp add: NVME_MAX_INFLIGHT_def)+
    then show ?thesis by (simp only: word_unat_eq_iff cid_of_slot_def unat_ucast_u16)
  qed
  have lba: "push_bit 32 (ucast (sq_cdw11 ?q)) OR ucast (sq_cdw10 ?q) = lba"
    by (simp add: rw_sqe_def and_low32 dwords_join64)
  have at: "slot_of s' slot = f" using submitted(11) free by (simp add: slot_of_def)
  show ?thesis
    unfolding submitted(17) fetch_write_same Let_def
  proof (intro exI [of _ slot] conjI)
    show "unat (push_bit 32 (ucast (sq_cdw11 ?q)) OR ucast (sq_cdw10 ?q) :: u64) * 2 ^ k = unat (byte_offset_of ?r)"
      unfolding lba by (rule n(2))
    show "(unat (sq_cdw12 ?q) + 1) * 2 ^ k = unat (io_Length ?r)"
      using nlb n(3) by (simp add: rw_sqe_def)
  qed (use free submitted at cid in \<open>simp_all add: rw_sqe_def\<close>)
qed (use res in simp_all)

theorem submit_writes_command_witness:
  "\<exists>q. q = fetch_sqe (sq_mem (ram (snd (NVMeIO_SubmitNoRing demo_env demo_req True demo_drv)))) 0 \<and>
     sq_nsid q = nsid (unit_st demo_drv) \<and> (unat (sq_cdw12 q) + 1) * 2 ^ 9 = 512"
proof -
  obtain s' where r: "NVMeIO_SubmitNoRing demo_env demo_req True demo_drv = (0, s')"
    using demo_submit [of True] by (metis prod.collapse)
  from submit_writes_command [OF demo_ok demo_req_nonzero demo_flags _ _ _ this, of 9] show ?thesis
    by (auto simp: Let_def r)
qed

text \<open>
  C13. Every outcome of a submission keeps the invariant of the unit and the ledger: code 0
  means that the request and all pins taken for it now live in one slot that will reply, and
  any other code means that no slot, pin or entry array is left behind and that no idle
  request other than this one was touched.
\<close>

theorem submit_conserves:
  assumes "unit_ok (unit_st s)" and "req \<noteq> 0" and "dma_flags_clear e"
    and "NVMeIO_SubmitNoRing e req w s = (rc, s')"
  shows "unit_ok (unit_st s') \<and> balanced s s' (if rc = 0 then {#Tok_Req req#} else {#}) \<and> submit_post req rc s s'"
  using SubmitNoRing_ledger [OF assms] SubmitNoRing_post [OF assms] by simp

theorem submit_conserves_witness:
  "balanced demo_drv (snd (NVMeIO_SubmitNoRing demo_env demo_req False demo_drv)) {#Tok_Req demo_req#}"
proof -
  obtain s' where r: "NVMeIO_SubmitNoRing demo_env demo_req False demo_drv = (0, s')"
    using demo_submit [of False] by (metis prod.collapse)
  from submit_conserves [OF demo_ok demo_req_nonzero demo_flags this] show ?thesis by (simp add: r)
qed

lemma path_codes:
  "fst (submit_bounce e req i w d n s) = Inl rc \<Longrightarrow> rc = -4"
  "fst (submit_direct e req i w d n s) = Inl rc \<Longrightarrow> rc = -3 \<or> rc = -4"
  by (auto simp: submit_bounce_def submit_direct_def Let_def split: prod.splits prp2.splits if_splits option.splits)

lemma submit_codes:
  assumes "find_free_slot s = Some i" and "submit_check (unit_st s) (reqs s req) = Inr (lba, nlb)"
  shows "fst (NVMeIO_SubmitNoRing e req w s) \<in> {0, -3, -4}"
  using assms path_codes [of e req i w]
  by (auto simp: NVMeIO_SubmitNoRing_def Let_def split: prod.splits sum.splits) (metis fst_conv)+

text \<open>
  C22. The argument check in block arithmetic: with no free slot the answer is -1 and
  nothing changes; an offset or length that is not a multiple of the block size, data
  without a buffer, and more than 65536 blocks are refused with the error of the code, an
  empty transfer with -2 and no error. Every other request passes the check: it is
  submitted, or refused because the buffer could not be mapped (-3) or described (-4).
\<close>

theorem submit_rejects:
  assumes bs: "block_size (unit_st s) = 2 ^ k" and sh: "unat (block_shift (unit_st s)) = k" and k: "k < 32"
  shows "let r = reqs s req; off = unat (byte_offset_of r); len = unat (io_Length r);
         result = NVMeIO_SubmitNoRing e req w s;
         refused = (\<lambda>rc err. result = (rc, upd_req req (\<lambda>r. r\<lparr>io_Error := err, io_Actual := 0\<rparr>) s)) in
     if find_free_slot s = None then result = (-1, s)
     else if off mod 2 ^ k \<noteq> 0 then refused (-5) IOERR_BADADDRESS
     else if len mod 2 ^ k \<noteq> 0 \<or> len \<noteq> 0 \<and> io_Data r = 0 then refused (-5) IOERR_BADLENGTH
     else if len = 0 then refused (-2) IO_OK
     else if len div 2 ^ k > 65536 then refused (-5) IOERR_BADLENGTH
     else fst result \<in> {0, -3, -4}"
proof (cases "find_free_slot s")
  case None
  then show ?thesis by (simp add: NVMeIO_SubmitNoRing_def)
next
  case (Some i)
  have "NVMeIO_SubmitNoRing e req w s = (rc, upd_req req (\<lambda>r. r\<lparr>io_Error := err, io_Actual := 0\<rparr>) s)"
    if "submit_check (unit_st s) (reqs s req) = Inl (rc, err)" for rc err
    using that Some by (simp add: NVMeIO_SubmitNoRing_def)
  then show ?thesis
    using Some submit_codes [OF Some, of req _ _ e w] submit_check_blocks [OF bs sh k, of "reqs s req"]
    by (simp add: Let_def split: if_splits)
qed

theorem submit_rejects_witness:
  "NVMeIO_SubmitNoRing demo_env demo_req True (upd_req demo_req (\<lambda>r. r\<lparr>io_Offset := 0x1001\<rparr>) demo_drv) =
   (-5, upd_req demo_req (\<lambda>r. r\<lparr>io_Error := IOERR_BADADDRESS, io_Actual := 0\<rparr>)
     (upd_req demo_req (\<lambda>r. r\<lparr>io_Offset := 0x1001\<rparr>) demo_drv))"
proof -
  let ?s = "upd_req demo_req (\<lambda>r. r\<lparr>io_Offset := 0x1001\<rparr>) demo_drv"
  have f: "find_free_slot ?s = Some 0" using demo_free by (simp add: find_free_slot_def)
  have "unat (byte_offset_of (reqs ?s demo_req)) mod 2 ^ 9 \<noteq> 0"
    by (simp add: byte_offset_of_def offset_is_64_def)
  with f submit_rejects [of ?s 9 demo_req demo_env True] show ?thesis by (simp add: Let_def)
qed

lemma doorbell_nat:
  assumes "unat d \<le> 15" and "unat q \<le> 255"
  shows "unat (NVME_SQ_TAIL_DB q d) = 4096 + 2 * unat q * (4 * 2 ^ unat d)"
    and "unat (NVME_CQ_HEAD_DB q d) = 4096 + (2 * unat q + 1) * (4 * 2 ^ unat d)"
proof -
  have p: "(2 :: nat) ^ unat d \<le> 2 ^ 15" using assms(1) by (intro power_increasing) auto
  have e: "push_bit (unat d) 4 = (of_nat (4 * 2 ^ unat d) :: u32)" by (simp add: push_bit_eq_mult mult.commute)
  have b: "4 * 2 ^ unat d \<le> (131072 :: nat)" using p by simp
  have s: "unat (push_bit (unat d) 4 :: u32) = 4 * 2 ^ unat d"
    unfolding e by (rule unat_of_nat_small) (use b in simp)
  have q: "unat (2 * q) = 2 * unat q" "unat (2 * q + 1) = 2 * unat q + 1"
    using assms(2) by (simp_all add: unat_word_ariths)
  have m: "x * (4 * 2 ^ unat d) \<le> 511 * 131072" if "x \<le> 511" for x :: nat
    by (rule mult_le_mono [OF that b])
  have t: "unat (x * push_bit (unat d) 4) = unat x * (4 * 2 ^ unat d)" if "unat x \<le> 511" for x :: u32
    using m [OF that] s by (subst unat_times_small) (simp_all del: mult_le_mono)
  have f: "unat (NVME_DOORBELL_BASE + x * push_bit (unat d) 4) = 4096 + unat x * (4 * 2 ^ unat d)" if "unat x \<le> 511" for x :: u32
    using m [OF that] t [OF that] by (subst unat_plus_small) (simp_all add: NVME_DOORBELL_BASE_def)
  show "unat (NVME_SQ_TAIL_DB q d) = 4096 + 2 * unat q * (4 * 2 ^ unat d)"
    using f [of "2 * q"] q assms(2) by (simp add: NVME_SQ_TAIL_DB_def)
  show "unat (NVME_CQ_HEAD_DB q d) = 4096 + (2 * unat q + 1) * (4 * 2 ^ unat d)"
    using f [of "2 * q + 1"] q assms(2) by (simp add: NVME_CQ_HEAD_DB_def)
qed

text \<open>
  Doorbells: those of the driver's queues are pairwise different registers, for every
  stride the controller may announce and every queue identifier below 256.
\<close>

theorem doorbells_distinct:
  assumes "unat d \<le> 15" and "unat a \<le> 255" and "unat b \<le> 255"
  shows "(NVME_SQ_TAIL_DB a d = NVME_SQ_TAIL_DB b d \<longleftrightarrow> a = b) \<and>
     (NVME_CQ_HEAD_DB a d = NVME_CQ_HEAD_DB b d \<longleftrightarrow> a = b) \<and>
     NVME_SQ_TAIL_DB a d \<noteq> NVME_CQ_HEAD_DB b d"
proof -
  have c: "x * (4 * 2 ^ unat d) = y * (4 * 2 ^ unat d) \<longleftrightarrow> x = y" for x y :: nat by simp
  have o: "2 * x \<noteq> 2 * y + 1" for x y :: nat by arith
  have w: "unat a = unat b \<longleftrightarrow> a = b" by (simp add: word_unat_eq_iff)
  show ?thesis
    using doorbell_nat [OF assms(1,2)] doorbell_nat [OF assms(1,3)] c [of "2 * unat a" "2 * unat b"]
      c [of "2 * unat a + 1" "2 * unat b + 1"] c [of "2 * unat a" "2 * unat b + 1"] o [of "unat a" "unat b"] w
    by (simp only: word_unat_eq_iff add_left_cancel) simp
qed

theorem doorbells_distinct_witness: "NVME_SQ_TAIL_DB 1 0 \<noteq> NVME_CQ_HEAD_DB 0 0"
  using doorbells_distinct [of 0 1 0] by simp

section \<open>Completions\<close>

text \<open>
  C24. A harvest keeps the unit's invariant and its ledger whatever the device has written
  into the completion queue and anywhere else: every slot is as before or freed with its
  pins released, and a request that is in no slot keeps all its fields.
\<close>

theorem harvest_conserves:
  assumes "unit_ok (unit_st s)"
  shows "io_kept s (NVMeIO_Harvest e s)"
  by (rule Harvest_kept [OF assms])

theorem harvest_conserves_witness: "io_kept demo_drv (NVMeIO_Harvest demo_env demo_drv)"
  by (rule harvest_conserves [OF demo_ok])

text \<open>
  C12. A harvest consumes exactly the posted entries: when \<open>n\<close> entries of a queue of depth \<open>d\<close>
  have been consumed, it processes the longest run of posted entries from number \<open>n\<close> on, at
  most one round, and leaves head and phase at the first that is not posted.
\<close>

theorem harvest_drains_posted:
  assumes at: "cq_at d n s" and d: "0 < d"
  shows "\<exists>k\<le>d. (\<forall>j<k. posted (cq_mem (ram (upd_ram (e_device e (trace s)) s))) d (n + j)) \<and>
     \<not> posted (cq_mem (ram (upd_ram (e_device e (trace s)) s))) d (n + k) \<and>
     NVMeIO_Harvest e s = (harvest_entry e ^^ k) (upd_ram (e_device e (trace s)) s) \<and>
     cq_at d (n + k) (NVMeIO_Harvest e s)"
proof -
  have "cq_at d n (upd_ram (e_device e (trace s)) s)" using at by (simp add: cq_at_def)
  from drain_consumes [OF this d, of e] show ?thesis by (metis NVMeIO_Harvest_def)
qed

theorem harvest_drains_posted_witness:
  "\<exists>k\<le>64. cq_at 64 k (NVMeIO_Harvest demo_env demo_drv)"
proof -
  have "cq_at 64 0 demo_drv" by (simp add: cq_at_def demo_drv_def demo_unit_def)
  from harvest_drains_posted [OF this, of demo_env] show ?thesis by auto
qed

text \<open>
  C23. The completion of an occupied slot: the request's error is the mapped status, its
  \<open>io_Actual\<close> the full length on success and 0 otherwise, the slot becomes free, and the
  pins are released before the one reply, which is left out for a synchronous command.
\<close>

theorem completion_effect:
  assumes ok: "unit_ok (unit_st s)" and i: "slot < NVME_MAX_INFLIGHT" and occ: "inf_ioreq (slot_of s slot) = req" "req \<noteq> 0"
  shows "let s' = harvest_complete e slot status s in
     io_Error (reqs s' req) = NVMe_StatusToIOErr status \<and>
     io_Actual (reqs s' req) = (if NVMe_StatusToIOErr status = IO_OK then io_Length (reqs s req) else 0) \<and>
     (\<forall>r. r \<noteq> req \<longrightarrow> reqs s' r = reqs s r) \<and>
     inf_ioreq (slot_of s' slot) = 0 \<and>
     trace s' = trace s @ released (slot_of s slot) @ (if inf_suppress_reply (slot_of s slot) then [] else [EvReply req])"
proof -
  have l: "slot < length (inflight (unit_st s))" using ok i by (simp add: unit_ok_def)
  note h = harvest_complete_simps [OF unit_ok_slot [OF ok i] l, of e status]
  have sl: "slot_of (harvest_complete e slot status s) slot = freed (slot_of s slot)"
    using l by (simp add: slot_of_def [of "harvest_complete e slot status s"] h(2))
  show ?thesis unfolding Let_def sl h(1,4) using occ by (simp add: completed_def)
qed

theorem completion_effect_witness:
  "\<exists>s. unit_ok (unit_st s) \<and> io_Error (reqs (harvest_complete demo_env 0 0 s) demo_req) = IO_OK"
proof -
  obtain s' where r: "NVMeIO_SubmitNoRing demo_env demo_req False demo_drv = (0, s')"
    using demo_submit [of False] by (metis prod.collapse)
  have ok: "unit_ok (unit_st s')" by (rule SubmitNoRing_ledger(1) [OF demo_ok demo_req_nonzero demo_flags r])
  have "inf_ioreq (slot_of s' 0) = demo_req"
    using demo_ok demo_req_nonzero demo_flags r
  proof (cases rule: SubmitNoRing_cases)
    case (submitted slot lba nlb prps f evs)
    have "slot = 0" using submitted(1) by simp
    then show ?thesis using submitted(4,11) find_free_slot_Some [OF demo_ok demo_free] by (simp add: slot_of_def)
  qed simp_all
  from completion_effect [OF ok _ this demo_req_nonzero, of demo_env 0] ok show ?thesis
    by (auto simp: Let_def NVME_MAX_INFLIGHT_def NVMe_StatusToIOErr_def sct_of_def sc_of_def)
qed

text \<open>
  C25. A synchronous command gives back its slot and every token on every way out, the
  timeout included, for every device; and it reports 0 only if the controller completed the
  command with success.
\<close>

theorem sync_command_conserves:
  assumes "unit_ok (unit_st s)" and "req \<noteq> 0" and "NVMeIO_SubmitAndWait e req sqe s = (res, s')"
  shows "sync_kept {req} s s' \<and> scsis s' = scsis s \<and> (res = 0 \<longrightarrow> io_Error (reqs s' req) = IO_OK)"
  using SubmitAndWait_kept [OF assms(1,2), of s' e sqe] SubmitAndWait_result [of e req sqe s s'] assms(3) by auto

theorem sync_command_conserves_witness:
  "sync_kept {demo_req} demo_drv (snd (NVMeIO_SubmitAndWait demo_env demo_req sqe_zero demo_drv))"
  using sync_command_conserves [OF demo_ok demo_req_nonzero, of demo_env sqe_zero] by (metis prod.collapse)

text \<open>
  C39. The status mapping looks at the status code and its type only, bits 1 to 11: a
  completion is a success exactly when all of them are clear, whatever the phase bit, the
  retry delay and the flags above say, and two words that agree there map alike.
\<close>

theorem status_mapping:
  "(NVMe_StatusToIOErr w = IO_OK \<longleftrightarrow> (\<forall>n. 1 \<le> n \<and> n < 12 \<longrightarrow> \<not> bit w n)) \<and>
   (NVMe_StatusToIOErr w = IO_OK \<longleftrightarrow> NVMe_StatusDescribe w = ''Success'') \<and>
   ((\<forall>n. 1 \<le> n \<and> n < 12 \<longrightarrow> bit v n = bit w n) \<longrightarrow> NVMe_StatusToIOErr v = NVMe_StatusToIOErr w)"
  using sct_sc_cong [of v w] sc_sct_zero_iff [of w]
  by (auto simp: StatusToIOErr_OK_iff StatusDescribe_Success_iff NVMe_StatusToIOErr_def Let_def)

theorem status_mapping_witness: "NVMe_StatusToIOErr 0x4001 = NVMe_StatusToIOErr 0x0000"
proof -
  have "bit (0x4001 :: u16) n = bit (0 :: u16) n" if "1 \<le> n \<and> n < 12" for n
  proof -
    have "\<forall>i\<in>set [1..<12]. bit (0x4001 :: u16) i = bit (0 :: u16) i" by (simp add: upt_rec)
    then show ?thesis using that by simp
  qed
  then show ?thesis using status_mapping [of 0 "0x4001"] by blast
qed

end
