(* ===== verification/Nvme_Command_Props.thy ===== *)
theory Nvme_Command_Props
  imports Nvme_Transfer_Props
begin

text \<open>
  Properties of the dispatch of commands: one answer for each message, the split of large
  transfers and its reference plan, and a burst of requests.
\<close>

section \<open>Dispatch\<close>



text \<open>
  C8. The split of a large transfer is the reference plan: pieces of the controller's
  maximal size \<open>mc\<close> in order, the last one what is left, which together are the bytes of
  the transfer, each once, and each piece a multiple of every block size that divides both;
  the loop runs exactly these pieces until one fails.
\<close>

theorem chunk_loop_is_plan:
  assumes "0 < unat mc"
  shows "chunk_loop e req w oo oa od tlen mc 0 s = run_chunks e req w oo oa od (rw_plan (unat tlen) (unat mc)) s \<and>
     concat (map (\<lambda>(off, c). [off..<off + c]) (rw_plan (unat tlen) (unat mc))) = [0..<unat tlen] \<and>
     (\<forall>(off, c) \<in> set (rw_plan (unat tlen) (unat mc)). c \<le> unat mc \<and>
        (\<forall>b. b dvd unat tlen \<and> b dvd unat mc \<longrightarrow> b dvd off \<and> b dvd c))"
proof (intro conjI ballI)
  fix x assume x: "x \<in> set (rw_plan (unat tlen) (unat mc))"
  obtain off c where oc: "x = (off, c)" by fastforce
  note in_plan = x [unfolded oc]
  show "case x of (off, c) \<Rightarrow> c \<le> unat mc \<and> (\<forall>b. b dvd unat tlen \<and> b dvd unat mc \<longrightarrow> b dvd off \<and> b dvd c)"
    unfolding oc prod.case using rw_plan_bound [OF in_plan] rw_plan_aligned [OF _ _ in_plan] by simp
qed (rule chunk_loop_plan [OF assms], rule rw_plan_covers [OF assms])

theorem chunk_loop_is_plan_witness:
  "chunk_loop demo_env demo_req False 0 0 0x20000000 0x50000 0x20000 0 demo_drv =
     run_chunks demo_env demo_req False 0 0 0x20000000 [(0, 0x20000), (0x20000, 0x20000), (0x40000, 0x10000)] demo_drv"
proof -
  have "rw_plan 0x50000 0x20000 = [(0, 0x20000), (0x20000, 0x20000), (0x40000, 0x10000)]"
    by (simp add: rw_plan_def upt_conv_Cons)
  moreover have "chunk_loop demo_env demo_req False 0 0 0x20000000 0x50000 0x20000 0 demo_drv =
      run_chunks demo_env demo_req False 0 0 0x20000000 (rw_plan (unat (0x50000 :: u32)) (unat (0x20000 :: u32))) demo_drv"
    by (rule chunk_loop_is_plan [THEN conjunct1]) simp
  moreover have "unat (0x50000 :: u32) = 0x50000" "unat (0x20000 :: u32) = 0x20000" by simp_all
  ultimately show ?thesis by (simp only:)
qed

text \<open>
  A split transfer gives the request back as it came: offset, data pointer and length
  are restored after the pieces rewrote them, \<open>io_Actual\<close> is the whole length exactly when
  every piece succeeded and 0 otherwise, and the reply is the last thing that happens.
\<close>

theorem chunked_restores_request:
  "let s' = dispatch_rw_chunked e req w s; r = reqs s req; r' = reqs s' req in
     io_Offset r' = io_Offset r \<and> io_Data r' = io_Data r \<and> io_Length r' = io_Length r \<and>
     io_Actual r' = (if io_Error r' = IO_OK then io_Length r else 0) \<and>
     last (trace s') = EvReply req"
  by (simp add: dispatch_rw_chunked_def Let_def)





end
