(* ===== verification/Nvme_Service_Props.thy ===== *)
theory Nvme_Service_Props
  imports Nvme_Command_Props
begin

text \<open>
  Properties of the SCSI emulation: what UNMAP, MODE SENSE and MODE SELECT, READ CAPACITY,
  INQUIRY and the SMART tables put into memory.
\<close>

section \<open>Big-endian fields\<close>

lemma be32_read_bytes: "be32_read (\<lambda>i. be32_bytes v ! i) 0 = v"
proof -
  have "be32_read (\<lambda>i. be32_bytes v ! i) 0 =
      (push_bit 24 (ucast (ucast (drop_bit 24 v) :: u8)) OR push_bit 16 (ucast (ucast (drop_bit 16 v) :: u8))
       OR push_bit 8 (ucast (ucast (drop_bit 8 v) :: u8)) OR ucast (ucast v :: u8))"
    unfolding be32_read_def be32_bytes_def by simp
  then show ?thesis using bytes_join32 [of v] by (simp only: or.assoc or.commute or.left_commute)
qed

lemma ucast_push: "n \<le> 24 \<Longrightarrow> ucast (push_bit n (ucast (x :: u8)) :: u32) = (push_bit n (ucast x) :: u64)"
  by (rule bit_word_eqI) (auto simp: bit_simps dest: bit_imp_le_length)

lemma be64_read_split: "be64_read p i = push_bit 32 (ucast (be32_read p i)) OR ucast (be32_read p (i + 4))"
proof -
  have u: "ucast (be32_read p k) = (push_bit 24 (ucast (p k)) OR push_bit 16 (ucast (p (k + 1))) OR
      push_bit 8 (ucast (p (k + 2))) OR ucast (p (k + 3)) :: u64)" for k
  proof -
    have "ucast (ucast (p (k + 3)) :: u32) = (ucast (p (k + 3)) :: u64)"
      by (rule bit_word_eqI) (auto simp: bit_simps dest: bit_imp_le_length)
    moreover have "n \<le> 24" if "n = 24 \<or> n = 16 \<or> n = 8" for n :: nat using that by auto
    ultimately show ?thesis by (simp only: be32_read_def unsigned_or_eq ucast_push simp_thms refl)
  qed
  have a: "i + 4 + 1 = i + 5" "i + 4 + 2 = i + 6" "i + 4 + 3 = i + 7" by simp_all
  show ?thesis
    unfolding u a be64_read_def push_bit_or by (simp add: or.assoc)
qed

lemma be32_read_shift: "be32_read p (i + j) = be32_read (\<lambda>k. p (i + k)) j"
  by (simp add: be32_read_def add.assoc)

lemma be32_read_append:
  "be32_read (\<lambda>i. (be32_bytes v @ xs) ! i) 0 = v"
  "be32_read (\<lambda>i. (be32_bytes v @ xs) ! i) (4 + j) = be32_read (\<lambda>i. xs ! i) j"
proof -
  have l: "length (be32_bytes v) = 4" by (simp add: be32_bytes_def)
  show "be32_read (\<lambda>i. (be32_bytes v @ xs) ! i) 0 = v"
    using be32_read_bytes [of v] l by (simp add: be32_read_def nth_append)
  show "be32_read (\<lambda>i. (be32_bytes v @ xs) ! i) (4 + j) = be32_read (\<lambda>i. xs ! i) j"
    using l by (simp add: be32_read_def nth_append add.commute)
qed

lemma be32_read_words: "k < length ws \<Longrightarrow> be32_read (\<lambda>i. (words_bytes ws @ xs) ! i) (4 * k) = ws ! k"
proof (induction ws arbitrary: k)
  case (Cons w ws)
  have e: "words_bytes (w # ws) @ xs = be32_bytes w @ words_bytes ws @ xs" by (simp add: words_bytes_def)
  show ?case
  proof (cases k)
    case 0
    then show ?thesis unfolding e by (simp add: be32_read_append(1))
  next
    case (Suc j)
    then have "be32_read (\<lambda>i. (be32_bytes w @ words_bytes ws @ xs) ! i) (4 + 4 * j) = ws ! j"
      using Cons by (simp only: be32_read_append(2)) simp
    then show ?thesis unfolding e using Suc by simp
  qed
qed simp

lemma length_words: "length (words_bytes ws) = 4 * length ws"
  by (induction ws) (simp_all add: words_bytes_def be32_bytes_def)

lemma split64_join: "push_bit 32 (ucast (split64 v ! 0)) OR ucast (split64 v ! 1) = v"
  by (simp add: split64_def and_low32 dwords_join64)

section \<open>SCSI emulation\<close>

text \<open>
  C36. A SCSI command is synchronous: whatever the command bytes and the device, it leaves
  the unit's invariant, the slots and the ledger as they were and touches no idle request
  but its own; the caller's reply is then the only thing owed.
\<close>

theorem scsi_conserves:
  assumes "unit_ok (unit_st s)" and "req \<noteq> 0"
  shows "sync_kept {req} s (handle_scsi_cmd e req s)"
  by (rule handle_scsi_cmd_kept [OF assms])

theorem scsi_conserves_witness: "sync_kept {demo_req} demo_drv (handle_scsi_cmd demo_env demo_req demo_drv)"
  by (rule scsi_conserves [OF demo_ok demo_req_nonzero])

text \<open>
  C32. UNMAP: range \<open>i\<close> of the page given to the controller carries descriptor \<open>i\<close> of the
  parameter list (big-endian there, little-endian here) with zero attributes, and the
  translation of up to 256 descriptors never leaves the page of 4096 bytes.
\<close>

theorem unmap_translates:
  assumes "n \<le> unat NVME_DSM_MAX_RANGES"
  shows "(\<forall>i<n. dma_r32 (unmap_loop p n 8 0 b) (16 * i) = 0 \<and>
       dma_r32 (unmap_loop p n 8 0 b) (16 * i + 4) = be32_read p (8 + 16 * i + 8) \<and>
       read_le64 (unmap_loop p n 8 0 b) (16 * i + 8) = be64_read p (8 + 16 * i)) \<and>
     (\<forall>k\<ge>4096. unmap_loop p n 8 0 b k = b k)"
proof -
  have n: "16 * n \<le> 4096" using assms by (simp add: NVME_DSM_MAX_RANGES_def)
  have "unmap_loop p n 8 0 b k = b k" if "4096 \<le> k" for k
    using n that by (intro unmap_loop_outside) simp
  then show ?thesis using unmap_loop_range [of _ n p 8 0 b] by simp
qed

theorem unmap_translates_witness:
  "read_le64 (unmap_loop (\<lambda>i. if i = 15 then 42 else 0) 1 8 0 (\<lambda>_. 0)) 8 = 42"
  using unmap_translates [of 1 "\<lambda>i. if i = 15 then 42 else 0" "\<lambda>_. 0"]
  by (simp add: NVME_DSM_MAX_RANGES_def be64_read_def)

text \<open>
  Round trip of the write cache setting: the parameter walk of MODE SELECT reads from
  the caching page that MODE SENSE builds, behind a header of four or of eight bytes,
  exactly the setting that went in.
\<close>

theorem mode_round_trip:
  "mode_walk (\<lambda>i. ([h0, h1, h2, h3] @ caching_page wce) ! unat i) 24 4 (old, False) = Some (wce, True) \<and>
   mode_walk (\<lambda>i. ([h0, h1, h2, h3, h4, h5, h6, h7] @ caching_page wce) ! unat i) 28 8 (old, False) = Some (wce, True)"
  by (simp add: mode_walk.simps caching_page_def nth_append nth_list_update)

lemma dec_digits_value:
  "foldr (\<lambda>d n. 10 * n + (unat d - 48)) (dec_digits v) 0 = unat v \<and> (\<forall>d\<in>set (dec_digits v). 48 \<le> d \<and> d \<le> 57) \<and>
     10 ^ (length (dec_digits v) - 1) \<le> max 1 (unat v)"
proof (induction v rule: dec_digits.induct)
  case (1 v)
  have m: "unat v mod 10 < 10" by simp
  have t: "unat (v mod 10) = unat v mod 10" by (simp add: unat_mod)
  have "(48 :: u8) + ucast (v mod 10) = of_nat (48 + unat v mod 10)"
  proof -
    have "(ucast (v mod 10) :: u8) = of_nat (unat (v mod 10))" by (rule of_nat_unat [symmetric])
    then show ?thesis unfolding t by simp
  qed
  moreover have "unat (of_nat (48 + unat v mod 10) :: u8) = 48 + unat v mod 10"
    by (rule unat_of_nat_small) (use m in simp)
  ultimately have d: "unat ((48 :: u8) + ucast (v mod 10)) = 48 + unat v mod 10" by simp
  then have r: "48 \<le> (48 :: u8) + ucast (v mod 10)" "(48 :: u8) + ucast (v mod 10) \<le> 57"
    using m by (simp_all add: word_le_nat_alt)
  have u: "unat (v div 10) = unat v div 10" by (simp add: unat_div)
  show ?case
  proof (cases "v div 10 = 0")
    case True
    then have "unat v div 10 = 0" using u by (metis unat_0)
    then show ?thesis using True d r by (subst (1 2 3) dec_digits.simps) simp
  next
    case False
    have l: "length (dec_digits (v div 10)) \<noteq> 0" by (subst dec_digits.simps) simp
    have p: "0 < unat v div 10" using False u by (metis gr0I unsigned_eq_0_iff)
    have "10 * 10 ^ (length (dec_digits (v div 10)) - 1) \<le> unat v"
      using "1.IH" [OF False] u p by (auto simp: max_def split: if_splits)
    then have "10 ^ length (dec_digits (v div 10)) \<le> max 1 (unat v)"
      using l by (cases "length (dec_digits (v div 10))") auto
    then show ?thesis using "1.IH" [OF False] False d r u by (subst (1 2 3) dec_digits.simps) simp
  qed
qed

lemma fmt_length: "length (fmt_ulong v) \<le> 10"
proof (rule ccontr)
  assume "\<not> length (fmt_ulong v) \<le> 10"
  then have "(10 :: nat) ^ 10 \<le> 10 ^ (length (dec_digits v) - 1)" by (intro power_increasing) (auto simp: fmt_ulong_def)
  then have "(10 :: nat) ^ 10 \<le> max 1 (unat v)" using dec_digits_value [of v] by linarith
  then show False using u32_bound [of v] by (simp del: u32_bound)
qed

text \<open>
  The decimal printer: the digits are ASCII digits, at most ten of them, and read back
  as a number they give the value.
\<close>

theorem decimal_round_trip:
  "foldl (\<lambda>n d. 10 * n + (unat d - 48)) 0 (fmt_ulong v) = unat v \<and>
     (\<forall>d\<in>set (fmt_ulong v). 48 \<le> d \<and> d \<le> 57) \<and> 0 < length (fmt_ulong v) \<and> length (fmt_ulong v) \<le> 10"
proof -
  have "0 < length (dec_digits v)" by (subst dec_digits.simps) simp
  then show ?thesis using dec_digits_value [of v] fmt_length [of v] by (simp add: fmt_ulong_def foldl_conv_foldr)
qed

theorem decimal_round_trip_witness: "48 \<le> hd (fmt_ulong 4096)"
  using decimal_round_trip [of 4096] by (metis hd_in_set length_greater_0_conv)

text \<open>
  C35. READ CAPACITY reports the last block: the 16-byte form reads back, big-endian, as
  the number of blocks minus one in full and the 10-byte form as its clamp to 32 bits, both
  with the block size behind it, in 32 and 8 bytes.
\<close>

theorem capacity_reports_last_block:
  assumes "0 < total_blocks u"
  shows "be64_read (\<lambda>i. capacity16 u ! i) 0 = total_blocks u - 1 \<and> be32_read (\<lambda>i. capacity16 u ! i) 8 = block_size u \<and>
     length (capacity16 u) = 32 \<and>
     unat (be32_read (\<lambda>i. capacity10 u ! i) 0) = min (unat (total_blocks u) - 1) (2 ^ 32 - 1) \<and>
     be32_read (\<lambda>i. capacity10 u ! i) 4 = block_size u \<and> length (capacity10 u) = 8"
proof -
  let ?l = "total_blocks u - 1"
  have b: "be64_bytes ?l = be32_bytes (ucast (drop_bit 32 ?l)) @ be32_bytes (ucast ?l)"
  proof -
    have h: "(ucast (drop_bit n (ucast (drop_bit 32 ?l) :: u32)) :: u8) = ucast (drop_bit (n + 32) ?l)" if "n \<le> 24" for n
      by (rule bit_word_eqI) (use that in \<open>auto simp: bit_simps ac_simps\<close>)
    have l: "(ucast (drop_bit n (ucast ?l :: u32)) :: u8) = ucast (drop_bit n ?l)" if "n \<le> 24" for n
      by (rule bit_word_eqI) (use that in \<open>auto simp: bit_simps\<close>)
    show ?thesis using h [of 24] h [of 16] h [of 8] h [of 0] l [of 24] l [of 16] l [of 8] l [of 0]
      by (simp add: be64_bytes_def be32_bytes_def)
  qed
  have c: "capacity16 u = be32_bytes (ucast (drop_bit 32 ?l)) @ be32_bytes (ucast ?l) @ be32_bytes (block_size u) @ replicate 20 0"
    using assms b by (simp add: capacity16_def Let_def)
  have r: "be64_read (\<lambda>i. capacity16 u ! i) 0 = ?l" "be32_read (\<lambda>i. capacity16 u ! i) 8 = block_size u"
    using be32_read_append [of "ucast (drop_bit 32 ?l)" "be32_bytes (ucast ?l) @ be32_bytes (block_size u) @ replicate 20 0"]
      be32_read_append [of "ucast ?l" "be32_bytes (block_size u) @ replicate 20 0"]
      be32_read_append(1) [of "block_size u" "replicate 20 0"] be32_read_append(2) [of _ _ 0] be32_read_append(2) [of _ _ 4]
    unfolding be64_read_split by (simp_all add: c dwords_join64)
  let ?x = "if total_blocks u > 0xFFFFFFFF then 0xFFFFFFFF else ucast ?l :: u32"
  have t: "capacity10 u = be32_bytes ?x @ be32_bytes (block_size u)" by (simp add: capacity10_def Let_def)
  have m: "unat ?l = unat (total_blocks u) - 1" using assms by (metis unat_minus_one word_not_simps(1))
  have x: "unat ?x = min (unat (total_blocks u) - 1) (2 ^ 32 - 1)"
  proof (cases "total_blocks u > 0xFFFFFFFF")
    case False
    then have "unat ?l < 2 ^ 32" using m by (simp add: word_less_nat_alt not_less)
    then have "unat (ucast ?l :: u32) = unat ?l" by (simp add: unsigned_ucast_eq take_bit_nat_eq_self)
    then show ?thesis using False m by (simp add: word_less_nat_alt)
  qed (simp add: word_less_nat_alt)
  show ?thesis
    using r x be32_read_append(1) [of ?x "be32_bytes (block_size u)"] be32_read_append(2) [of ?x "be32_bytes (block_size u)" 0]
      be32_read_bytes [of "block_size u"]
    by (simp add: t c) (simp add: be32_bytes_def)
qed

theorem capacity_reports_last_block_witness:
  "be64_read (\<lambda>i. capacity16 (unit_st demo_drv) ! i) 0 = 0xFFFFF"
  using capacity_reports_last_block [of "unit_st demo_drv"] by (simp add: demo_drv_def demo_unit_def)

lemma length_pad [simp]: "length (scsi_pad_copy n xs) = n"
  by (induction n xs rule: scsi_pad_copy.induct) simp_all

text \<open>
  INQUIRY: the pages built from the controller's identification fit the local arrays
  of the code (40 and 56 bytes), their length bytes count what follows, and the standard
  page has its 36 bytes, whatever the identification strings and the namespace are.
\<close>

theorem inquiry_pages_fit:
  "length (vpd_serial serial ns) \<le> 40 \<and> unat (vpd_serial serial ns ! 3) = length (vpd_serial serial ns) - 4 \<and>
   length (vpd_device_id model ns) \<le> 56 \<and> unat (vpd_device_id model ns ! 3) = length (vpd_device_id model ns) - 4 \<and>
   unat (vpd_device_id model ns ! 7) = length (vpd_device_id model ns) - 8 \<and> length (std_inquiry c) = 36"
proof -
  have l: "length (fmt_ulong ns) \<le> 10" by (rule fmt_length)
  have a: "length (take 20 (xs :: u8 list)) \<le> 20" for xs by simp
  have u: "unat (of_nat n :: u8) = n" if "n \<le> 100" for n
    using that by (intro unat_of_nat_small) simp
  obtain tx where t: "vpd_serial serial ns = [0x00, 0x80, 0x00, of_nat (length tx)] @ tx" "length tx \<le> 33"
    using l a by (simp add: vpd_serial_def Let_def)
  obtain ident where i: "vpd_device_id model ns =
      [0x00, 0x83, 0x00, of_nat (4 + length ident), 0x02, 0x01, 0x00, of_nat (length ident)] @ ident" "length ident \<le> 36"
    using l that [of "scsi_pad_copy 8 (str_NVMe @ [32, 32, 32, 32]) @ scsi_pad_copy 16 model @ [78, 83] @ fmt_ulong ns"]
    by (simp add: vpd_device_id_def Let_def)
  show ?thesis
    using t(2) i(2) u [of "length tx"] u [of "4 + length ident"] u [of "length ident"]
    by (simp add: t(1) i(1) std_inquiry_def)
qed

lemma span_sub: "x \<in> span (a + of_nat i) n \<Longrightarrow> i + n \<le> m \<Longrightarrow> x \<in> span a m"
  by (force simp: span_def add.assoc simp flip: of_nat_add)

text \<open>
  ATA SMART data: the table writers, given attributes of up to 12 bytes, stay inside
  the sector of 512 bytes at the caller's buffer, however many attributes there are.
\<close>

theorem smart_table_confined:
  assumes "\<And>a. a \<in> set as \<Longrightarrow> length (enc a) \<le> 12" and "x \<notin> span buf 512"
  shows "mem (ram (put_attrs enc buf as off s)) x = mem (ram s) x"
  using assms(1)
proof (induction as arbitrary: off s)
  case (Cons a as)
  show ?case
  proof (cases "off + 12 \<le> 362")
    case True
    have "x \<notin> span (buf + of_nat off) (length (enc a))"
      using assms(2) span_sub [of x buf off "length (enc a)" 512] Cons.prems [of a] True by auto
    then have "mem (ram (wmem (buf + of_nat off) (enc a) s)) x = mem (ram s) x"
      by (simp add: wmem_def mem_write_other)
    then show ?thesis using Cons.IH [of "off + 12"] Cons.prems True by simp
  qed simp
qed simp

theorem smart_table_confined_witness:
  "mem (ram (put_attrs threshold_bytes 0x30000000 canned_attrs 2 demo_drv)) 0x30000200 = 0"
proof -
  have "(0x30000200 :: u32) \<notin> span 0x30000000 512"
  proof
    assume "(0x30000200 :: u32) \<in> span 0x30000000 512"
    then obtain j where j: "j < 512" "(0x30000200 :: u32) = 0x30000000 + of_nat j" by (auto simp: span_def)
    have "(0x30000200 :: u32) - 0x30000000 = of_nat j" unfolding j(2) by simp
    then have "unat (of_nat j :: u32) = 512" by (simp flip: \<open>_ - _ = of_nat j\<close>)
    moreover have "unat (of_nat j :: u32) = j" using j(1) by (intro unat_of_nat_small) simp
    ultimately show False using j(1) by simp
  qed
  from smart_table_confined [OF _ this, of canned_attrs threshold_bytes 2 demo_drv] show ?thesis
    by (simp add: threshold_bytes_def demo_drv_def)
qed

end
