(* ===== verification/Nvme_Client_Props.thy ===== *)
theory Nvme_Client_Props
  imports Nvme_Service_Props
begin

text \<open>
  Properties of the admin commands, of the statistics snapshot and of the entry points of
  the client.
\<close>

section \<open>Admin commands\<close>



lemma mdts_limit_fits:
  assumes "unat pgsize = 2 ^ p" and "unat mdts + p < 32"
  shows "unat (mdts_cap mdts pgsize) = (if mdts = 0 then 2 ^ 21 else min (2 ^ (unat mdts + p)) (2 ^ 21))"
proof -
  have m: "unat mdts < 32" using assms(2) by simp
  have "unat (push_bit (unat mdts) 1 :: u32) * unat pgsize = 2 ^ (unat mdts + p)"
    by (simp only: unat_push_one [OF m] assms(1) power_add)
  moreover have "(2 :: nat) ^ (unat mdts + p) < 2 ^ 32" using assms(2) by (intro power_strict_increasing) auto
  ultimately have b: "unat (push_bit (unat mdts) 1 * pgsize) = 2 ^ (unat mdts + p)"
    using unat_times_small [of "push_bit (unat mdts) 1" pgsize] by simp
  have "unat SANITY_CAP = 2 ^ 21" by (simp add: SANITY_CAP_def)
  then show ?thesis using b by (simp add: mdts_cap_def Let_def word_less_nat_alt word_gt_0 min_def unsigned_eq_0_iff)
qed

lemma mdts_limit_wraps:
  assumes "unat pgsize = 2 ^ p" and "32 \<le> unat mdts + p" and "unat mdts < 32" and "mdts \<noteq> 0"
  shows "mdts_cap mdts pgsize = 0"
proof -
  have "(2 :: nat) ^ 32 dvd 2 ^ (unat mdts + p)" using assms(2) by (rule le_imp_power_dvd)
  moreover have "unat (push_bit (unat mdts) 1 * pgsize :: u32) = 2 ^ (unat mdts + p) mod 2 ^ 32"
    by (simp only: unat_word_ariths unat_push_one [OF assms(3)] assms(1) power_add len_num1 len_num0 len_bit0) simp
  ultimately have "unat (push_bit (unat mdts) 1 * pgsize :: u32) = 0" by (simp only: dvd_imp_mod_0)
  then have "push_bit (unat mdts) 1 * pgsize = 0" by (simp add: unsigned_eq_0_iff)
  then show ?thesis using assms(4) by (simp add: mdts_cap_def SANITY_CAP_def word_gt_0)
qed

text \<open>
  C37. The transfer limit from MDTS. With pages of \<open>2 ^ p\<close> bytes it is the cap of 2 MiB for
  MDTS 0, and otherwise the smaller of \<open>2 ^ (mdts + p)\<close> bytes and the cap, as long as that power
  fits 32 bits; when it does not, as for pages of 4 KiB and MDTS 20 to 31, the product wraps
  and the limit is no bytes at all.
\<close>

theorem mdts_limit:
  assumes "unat pgsize = 2 ^ p" and "unat mdts < 32"
  shows "unat (mdts_cap mdts pgsize) =
     (if mdts = 0 then 2 ^ 21 else if unat mdts + p < 32 then min (2 ^ (unat mdts + p)) (2 ^ 21) else 0)"
proof (cases "unat mdts + p < 32")
  case True
  then show ?thesis using mdts_limit_fits [OF assms(1) True] by simp
next
  case False
  have "unat pgsize < 2 ^ 32" using unsigned_less [of pgsize] by simp
  then have "(2 :: nat) ^ p < 2 ^ 32" using assms(1) by simp
  then have "p < 32" by (rule power_less_imp_less_exp [rotated]) simp
  then have "mdts \<noteq> 0" using False by auto
  then show ?thesis using mdts_limit_wraps [OF assms(1) _ assms(2)] False by simp
qed

theorem mdts_limit_witness: "unat (mdts_cap 5 4096) = 0x20000 \<and> mdts_cap 20 4096 = 0"
  using mdts_limit [of 4096 12 5] mdts_limit [of 4096 12 20] by (simp add: unsigned_eq_0_iff)


section \<open>The statistics snapshot\<close>






section \<open>The entry points\<close>

text \<open>
  C26. \<open>BeginIO\<close> keeps exec's contract for every command, error exits included: a request
  left with \<open>IOF_QUICK\<close> set is complete and is never replied; any other request has been
  replied, waits in the port, or is held, exactly one of them. Slots, queues and statistics
  of the unit are untouched.
\<close>

theorem begin_io_contract:
  assumes "req \<noteq> 0"
  shows "begin_post req s (manager_BeginIO e req s)"
  by (rule BeginIO_post [OF assms])

theorem begin_io_contract_witness:
  "begin_post demo_req demo_drv (manager_BeginIO demo_env demo_req demo_drv)"
  by (rule begin_io_contract [OF demo_req_nonzero])

text \<open>
  C27. \<open>AbortIO\<close> succeeds exactly on a request that waits in the port of an open unit: it
  is taken out, the others stay in order, and it is replied with \<open>IOERR_ABORTED\<close>. Otherwise
  nothing changes, and a request that is already in a slot cannot be aborted.
\<close>

theorem abort_io_contract:
  "case manager_AbortIO req s of (rc, s') \<Rightarrow>
     (rc = IO_OK \<longleftrightarrow> io_Unit (reqs s req) \<noteq> 0 \<and> io_port (unit_st s) \<noteq> 0 \<and> req \<in> set (port_msgs (unit_st s))) \<and>
     (if rc = IO_OK then unit_st s' = (unit_st s)\<lparr>port_msgs := remove1 req (port_msgs (unit_st s))\<rparr> \<and>
          io_Error (reqs s' req) = IOERR_ABORTED \<and> replies req s' = replies req s + 1
      else rc = IOERR_NOCMD \<and> unit_st s' = unit_st s \<and> reqs s' = reqs s \<and> (\<forall>r. replies r s' = replies r s)) \<and>
     conserved s s' {#}"
  using AbortIO_quiet [of s req]
  by (auto simp: manager_AbortIO_def Let_def quiet_def set_error_def replies_def)

text \<open>
  Every command of the advertised table is implemented: with a unit and an open port,
  \<open>BeginIO\<close> never answers it with \<open>IOERR_NOCMD\<close>, and one that goes to the port is appended
  there and has its own branch in the unit task.
\<close>

theorem advertised_commands_handled:
  assumes cmd: "io_Command (reqs s req) \<in> set nvme_supported_cmds"
    and u: "io_Unit (reqs s req) \<noteq> 0" and p: "io_port (unit_st s) \<noteq> 0"
  shows "io_Error (reqs (manager_BeginIO e req s) req) \<noteq> IOERR_NOCMD \<and>
     (io_Command (reqs s req) \<in> set queued_cmds \<longrightarrow>
        port_msgs (unit_st (manager_BeginIO e req s)) = port_msgs (unit_st s) @ [req] \<and>
        io_Command (reqs s req) \<in> set (read_cmds @ write_cmds @ flush_cmds @
           [TD_GETGEOMETRY, NSCMD_TD_GETGEOMETRY64, NSCMD_ETD_SEEK64, HD_SCSICMD]))"
proof -
  let ?c = "io_Command (reqs s req)" and ?s = "set_error req IO_OK s"
  have eq: "manager_BeginIO e req s = begin_switch e req True ?c ?s"
    using u by (simp add: manager_BeginIO_def Let_def set_error_def)
  have gs: "io_Error (reqs (NVMe_HandleGetStats e req t) req) \<noteq> IOERR_NOCMD" for t
    by (simp add: NVMe_HandleGetStats_def Let_def case_prod_unfold)
  have dq: "io_Error (reqs (device_query e req t) req) \<noteq> IOERR_NOCMD" for t
    by (simp add: device_query_def Let_def set_error_def)
  have e0: "io_Error (reqs ?s req) = IO_OK" by (simp add: set_error_def)
  have hc: "io_Error (reqs (hold_changeint req ?s) req) \<noteq> IOERR_NOCMD" "io_Error (reqs (hold_remove req ?s) req) \<noteq> IOERR_NOCMD"
    by (simp_all add: hold_changeint_def hold_remove_def release_held_def clear_quick_def set_error_def Let_def)
  have err: "io_Error (reqs (begin_switch e req True ?c ?s) req) \<noteq> IOERR_NOCMD"
    using cmd p gs dq hc e0
    unfolding nvme_supported_cmds_def begin_switch_def
    by (auto simp: finish_inline_def inline_reply_def set_error_def PutMsg_def clear_quick_def
        motor_cmds_def noop_cmds_def zero_cmds_def queued_cmds_def)
  have known: "?c \<in> set (read_cmds @ write_cmds @ flush_cmds @ [TD_GETGEOMETRY, NSCMD_TD_GETGEOMETRY64, NSCMD_ETD_SEEK64, HD_SCSICMD])"
      "begin_switch e req True ?c ?s = PutMsg req (clear_quick req ?s)" if "?c \<in> set queued_cmds"
    using that p by (auto simp: queued_cmds_def read_cmds_def write_cmds_def flush_cmds_def begin_switch_def
        motor_cmds_def noop_cmds_def zero_cmds_def set_error_def)
  show ?thesis unfolding eq using err known by (auto simp: PutMsg_def clear_quick_def set_error_def)
qed

theorem advertised_commands_handled_witness:
  "port_msgs (unit_st (manager_BeginIO demo_env demo_req demo_drv)) = [demo_req]"
  using advertised_commands_handled [of demo_drv demo_req demo_env]
  by (simp add: nvme_supported_cmds_def queued_cmds_def)

text \<open>
  The two answers about the geometry agree: \<open>TD_GETNUMTRACKS\<close> is the number of
  cylinders that \<open>TD_GETGEOMETRY\<close> reports, at least one, and cylinders of 64 blocks that
  cover the capacity (clamped to 32 bits) up to the last, incomplete one.
\<close>

theorem geometry_agrees:
  assumes "0 < total_blocks (unit_st s)" and "io_Data (reqs s req) \<noteq> 0"
    and "k_sizeof_DriveGeometry e \<le> io_Length (reqs s req)"
  shows "let dg = geoms (dispatch_geometry e req s) (io_Data (reqs s req)); c = unat (dg_Cylinders dg) in
     dg_Cylinders dg = num_tracks True (total_blocks (unit_st s)) \<and> 0 < c \<and>
     (64 \<le> unat (dg_TotalSectors dg) \<longrightarrow> c * 64 \<le> unat (dg_TotalSectors dg)) \<and> unat (dg_TotalSectors dg) < (c + 1) * 64 \<and>
     unat (dg_TotalSectors dg) = min (unat (total_blocks (unit_st s))) (2 ^ 32 - 1)"
proof -
  let ?b = "total_blocks (unit_st s)"
  have t: "unat (total32 ?b) = min (unat ?b) (2 ^ 32 - 1)"
  proof (cases "?b > 0xFFFFFFFF")
    case False
    then have "unat ?b < 2 ^ 32" by (simp add: word_less_nat_alt not_less)
    then have "unat (ucast ?b :: u32) = unat ?b" by (simp add: unsigned_ucast_eq take_bit_nat_eq_self)
    then show ?thesis using False by (simp add: total32_def word_less_nat_alt)
  qed (simp add: total32_def word_less_nat_alt)
  have d: "unat (total32 ?b div 64) = unat (total32 ?b) div 64" by (simp add: unat_div)
  have c: "unat (cylinders_of ?b) = (if unat (total32 ?b) div 64 = 0 then 1 else unat (total32 ?b) div 64)"
    by (simp add: cylinders_of_def Let_def d [symmetric] unsigned_eq_0_iff)
  have n: "n div 64 * 64 \<le> n" "n < (n div 64 + 1) * 64" for n :: nat
    by presburger+
  have g: "dg_Cylinders (geoms (dispatch_geometry e req s) (io_Data (reqs s req))) = cylinders_of ?b"
      "dg_TotalSectors (geoms (dispatch_geometry e req s) (io_Data (reqs s req))) = total32 ?b"
    using assms by (simp_all add: dispatch_geometry_def Let_def upd_req_def)
  have "0 < unat (cylinders_of ?b) \<and> (64 \<le> unat (total32 ?b) \<longrightarrow> unat (cylinders_of ?b) * 64 \<le> unat (total32 ?b)) \<and>
      unat (total32 ?b) < (unat (cylinders_of ?b) + 1) * 64"
    using n [of "unat (total32 ?b)"] unfolding c by auto
  moreover have "cylinders_of ?b = num_tracks True ?b" using assms(1) by (simp add: num_tracks_def)
  ultimately show ?thesis unfolding Let_def g using t by blast
qed

theorem geometry_agrees_witness:
  "dg_Cylinders (geoms (dispatch_geometry demo_env demo_req demo_drv) 0x20000000) = num_tracks True 0x100000"
proof -
  have "total_blocks (unit_st demo_drv) = 0x100000" by (simp add: demo_drv_def demo_unit_def)
  with geometry_agrees [of demo_drv demo_req demo_env] show ?thesis
    by (simp add: Let_def demo_env_def)
qed

end
