(* ===== verification/Nvme_Resources.thy ===== *)
theory Nvme_Resources
  imports Nvme_Admin
begin

text \<open>
  What the set-up of the driver acquires from exec: memory, DMA mappings, entry arrays. The
  calls are logged with the answer the environment gives. \<open>moves s s' R A\<close> says that between
  the two states the resources held went from \<open>R\<close> to \<open>A\<close>: all that was acquired on top of
  \<open>R\<close> and is not in \<open>A\<close> has been released, exactly once.
\<close>

section \<open>The calls\<close>

definition AllocVec :: "env \<Rightarrow> u32 \<Rightarrow> drv \<Rightarrow> u32 \<times> drv" where
  "AllocVec e n s = (let p = e_AllocVec e (trace s) n in (p, log_ev (EvAllocVec p) s))"

definition FreeVec :: "u32 \<Rightarrow> drv \<Rightarrow> drv" where
  "FreeVec p = log_ev (EvFreeVec p)"

definition StartDMA :: "env \<Rightarrow> u32 \<Rightarrow> u32 \<Rightarrow> u32 \<Rightarrow> drv \<Rightarrow> u32 \<times> drv" where
  "StartDMA e b n fl s = (let k = e_StartDMA e (trace s) b n fl in (k, log_ev (EvStartDMA b n fl k) s))"

definition EndDMA :: "u32 \<Rightarrow> u32 \<Rightarrow> u32 \<Rightarrow> drv \<Rightarrow> drv" where
  "EndDMA b n fl = log_ev (EvEndDMA b n fl)"

definition AllocEntries :: "env \<Rightarrow> u32 \<Rightarrow> drv \<Rightarrow> u32 \<times> drv" where
  "AllocEntries e k s = (let p = e_AllocDMAEntry e (trace s) k in (p, log_ev (EvAllocEntries p) s))"

definition FreeEntries :: "u32 \<Rightarrow> drv \<Rightarrow> drv" where
  "FreeEntries p = log_ev (EvFreeEntries p)"

text \<open>The physical address of the first entry that \<open>GetDMAList\<close> fills in.\<close>

definition first_phys :: "env \<Rightarrow> u32 \<Rightarrow> u32 \<Rightarrow> u32 \<Rightarrow> drv \<Rightarrow> u32" where
  "first_phys e b n fl s = PhysicalAddress (e_GetDMAList e (trace s) b n fl 0)"

lemmas resource_defs = AllocVec_def FreeVec_def StartDMA_def EndDMA_def AllocEntries_def FreeEntries_def

section \<open>Accounting\<close>

definition moves :: "drv \<Rightarrow> drv \<Rightarrow> token multiset \<Rightarrow> token multiset \<Rightarrow> bool" where
  "moves s s' R A \<longleftrightarrow> R + ins (trace s') + outs (trace s) = A + outs (trace s') + ins (trace s)"

lemma moves_refl [simp]: "moves s s R R"
  by (simp add: moves_def ac_simps)

lemma moves_trans [trans]:
  assumes "moves s t R A" and "moves t u A B"
  shows "moves s u R B"
proof -
  have "(R + ins (trace u) + outs (trace s)) + (A + ins (trace t) + outs (trace t)) =
      (B + outs (trace u) + ins (trace s)) + (A + ins (trace t) + outs (trace t))"
    using arg_cong2 [OF assms [unfolded moves_def], of "(+)"] by (simp add: ac_simps)
  then show ?thesis by (simp add: moves_def)
qed

lemma moves_frame: "moves s t R A \<Longrightarrow> moves s t (R + Q) (A + Q)"
  by (simp add: moves_def ac_simps)

lemma moves_from: "moves s t {#} A \<Longrightarrow> moves s t R (A + R)"
  using moves_frame [of s t "{#}" A R] by simp

lemma moves_trace: "trace t' = trace t \<Longrightarrow> moves s t' R A = moves s t R A"
  by (simp add: moves_def)

lemma moves_steps [simp]:
  "moves s (upd_unit f t) R A = moves s t R A" "moves s (upd_ctrl g t) R A = moves s t R A"
  "moves s (upd_ram h t) R A = moves s t R A"
  by (simp_all add: moves_def)

lemma moves_log [simp]: "ins_ev ev = {#} \<Longrightarrow> outs_ev ev = {#} \<Longrightarrow> moves s (log_ev ev t) R A = moves s t R A"
  by (simp add: moves_def)

lemma moves_w32 [simp]: "moves s (nvme_w32 a v t) R A = moves s t R A"
  by (simp add: nvme_w32_def)

lemma moves_admin: "admin_kept s t \<Longrightarrow> moves s t R R"
  by (simp add: admin_kept_def moves_def ac_simps)

text \<open>A token that is there only if a condition holds.\<close>

definition tok_if :: "bool \<Rightarrow> token \<Rightarrow> token multiset" where
  "tok_if b t = (if b then {#t#} else {#})"

lemma tok_if_simps [simp]: "tok_if True t = {#t#}" "tok_if False t = {#}"
  by (simp_all add: tok_if_def)

section \<open>A pinned buffer\<close>

text \<open>
  The sequence that the code uses for every buffer that stays mapped: allocate it, start
  DMA, fetch the physical address through a temporary entry array. Every exit on the way
  releases what was acquired before.
\<close>

definition pin_buffer :: "env \<Rightarrow> u32 \<Rightarrow> u32 \<Rightarrow> drv \<Rightarrow> (u32 \<times> u32) option \<times> drv" where
  "pin_buffer e n fl s =
     (case AllocVec e n s of (p, s1) \<Rightarrow>
        if p = 0 then (None, s1)
        else case StartDMA e p n fl s1 of (k, s2) \<Rightarrow>
          if k = 0 then (None, FreeVec p s2)
          else case AllocEntries e k s2 of (d, s3) \<Rightarrow>
            if d = 0 then (None, FreeVec p (EndDMA p n fl s3))
            else (Some (p, first_phys e p n fl s3), FreeEntries d s3))"

definition unpin_buffer :: "u32 \<Rightarrow> u32 \<Rightarrow> u32 \<Rightarrow> drv \<Rightarrow> drv" where
  "unpin_buffer p n fl s = FreeVec p (EndDMA p n fl s)"

definition pinned :: "u32 \<Rightarrow> u32 \<Rightarrow> u32 \<Rightarrow> token multiset" where
  "pinned p n fl = (if p = 0 then {#} else {#Tok_Vec p, Tok_Pin p n fl#})"

text \<open>Only the trace differs.\<close>

definition only_trace :: "drv \<Rightarrow> drv \<Rightarrow> bool" where
  "only_trace s s' \<longleftrightarrow> s'\<lparr>trace := []\<rparr> = s\<lparr>trace := []\<rparr>"

lemma only_trace_log [simp]: "only_trace s (log_ev ev t) = only_trace s t"
  by (simp add: only_trace_def log_ev_def)

lemma only_trace_refl [simp]: "only_trace s s"
  by (simp add: only_trace_def)

lemma only_traceD:
  assumes "only_trace s s'"
  shows "unit_st s' = unit_st s" "ctrl_st s' = ctrl_st s" "ram s' = ram s" "reqs s' = reqs s"
  using arg_cong [OF assms [unfolded only_trace_def], of unit_st] arg_cong [OF assms [unfolded only_trace_def], of ctrl_st]
    arg_cong [OF assms [unfolded only_trace_def], of ram] arg_cong [OF assms [unfolded only_trace_def], of reqs]
  by simp_all

lemma pin_buffer_cases:
  assumes "pin_buffer e n fl s = (r, s')"
  shows "only_trace s s'"
    and "case r of None \<Rightarrow> moves s s' {#} {#} | Some (p, ph) \<Rightarrow> p \<noteq> 0 \<and> moves s s' {#} (pinned p n fl)"
  using assms
  by (auto simp: pin_buffer_def resource_defs Let_def pinned_def moves_def split: if_splits)

lemma unpin_moves: "p \<noteq> 0 \<Longrightarrow> moves s (unpin_buffer p n fl s) (pinned p n fl + R) R"
  by (auto simp: unpin_buffer_def resource_defs pinned_def moves_def)

lemma unpin_only_trace [simp]: "only_trace s (unpin_buffer p n fl t) = only_trace s t"
  by (simp add: unpin_buffer_def FreeVec_def EndDMA_def)

end
