(* ===== verification/Nvme_Start.thy ===== *)
theory Nvme_Start
  imports Nvme_System Nvme_Resources
begin

text \<open>
  The start and the shutdown of the unit task: \<open>UnitTask_Start\<close>, the handshake at the entry of
  \<open>unit_task_entry\<close>, and \<open>UnitTask_Shutdown\<close> (src/src/unit_task.c). The buffers that stay
  pinned while the task lives are accounted for by \<open>setup_held\<close>.
\<close>

section \<open>The buffers of the slots\<close>

text \<open>
  \<open>AVT_Clear, 0\<close> is the tag \<open>AVT_ClearWithValue\<close> under another name (src/docs/history.md): the
  memory of a buffer that is kept starts as zero.
\<close>

definition start_bounce :: "env \<Rightarrow> nat \<Rightarrow> drv \<Rightarrow> bool \<times> drv" where
  "start_bounce e i s =
     (case pin_buffer e NVME_BOUNCE_SIZE (k_DMA_ReadFromRAM e) s of
        (None, s1) \<Rightarrow> (False, upd_unit (\<lambda>u. u\<lparr>bounce_bufs := (bounce_bufs u)[i := 0]\<rparr>) s1)
      | (Some (p, ph), s1) \<Rightarrow> (True, upd_ram (\<lambda>m. m\<lparr>bounce_mem := (bounce_mem m)(i := \<lambda>_. 0)\<rparr>)
          (upd_unit (\<lambda>u. u\<lparr>bounce_bufs := (bounce_bufs u)[i := p], bounce_phys := (bounce_phys u)[i := ph]\<rparr>) s1)))"

definition start_prp :: "env \<Rightarrow> u32 \<Rightarrow> nat \<Rightarrow> drv \<Rightarrow> bool \<times> drv" where
  "start_prp e ps i s =
     (case pin_buffer e ps (k_DMA_ReadFromRAM e) s of
        (None, s1) \<Rightarrow> (False, upd_unit (\<lambda>u. u\<lparr>prp_list_pages := (prp_list_pages u)[i := 0]\<rparr>) s1)
      | (Some (p, ph), s1) \<Rightarrow> (True, upd_ram (\<lambda>m. m\<lparr>prp_mem := (prp_mem m)(i := \<lambda>_. 0)\<rparr>)
          (upd_unit (\<lambda>u. u\<lparr>prp_list_pages := (prp_list_pages u)[i := p], prp_list_phys := (prp_list_phys u)[i := ph]\<rparr>) s1)))"

definition start_slot :: "env \<Rightarrow> u32 \<Rightarrow> nat \<Rightarrow> drv \<Rightarrow> bool \<times> drv" where
  "start_slot e ps i s = (case start_bounce e i s of (ok, s1) \<Rightarrow> if ok then start_prp e ps i s1 else (False, s1))"

primrec start_slots :: "env \<Rightarrow> u32 \<Rightarrow> nat list \<Rightarrow> drv \<Rightarrow> bool \<times> drv" where
  "start_slots e ps [] s = (True, s)"
| "start_slots e ps (i # is) s =
     (case start_slot e ps i s of (ok, s1) \<Rightarrow> if ok then start_slots e ps is s1 else (False, s1))"

text \<open>The buffer of the range descriptors: without it UNMAP is refused, but the unit starts.\<close>

definition start_dsm :: "env \<Rightarrow> u32 \<Rightarrow> drv \<Rightarrow> drv" where
  "start_dsm e ps s =
     (case pin_buffer e ps (k_DMA_ReadFromRAM e) s of
        (None, s1) \<Rightarrow> upd_unit (\<lambda>u. u\<lparr>dsm_buf := 0, dsm_phys := 0\<rparr>) s1
      | (Some (p, ph), s1) \<Rightarrow>
          upd_ram (\<lambda>m. m\<lparr>dsm_mem := (\<lambda>_. 0)\<rparr>) (upd_unit (\<lambda>u. u\<lparr>dsm_buf := p, dsm_phys := ph\<rparr>) s1))"

text \<open>An entry array per slot; a slot without one allocates per transfer.\<close>

definition worst_frags :: "NVMeController \<Rightarrow> u32 \<Rightarrow> u32" where
  "worst_frags c ps = (max_transfer_bytes c + ps - 1) div ps + 1"

primrec start_pools :: "env \<Rightarrow> u32 \<Rightarrow> nat list \<Rightarrow> drv \<Rightarrow> drv" where
  "start_pools e n [] s = s"
| "start_pools e n (i # is) s =
     (case AllocEntries e n s of (p, s1) \<Rightarrow>
        start_pools e n is (upd_unit (\<lambda>u. u\<lparr>dma_entry_pool := (dma_entry_pool u)[i := p]\<rparr>) s1))"

definition slot_ids :: "nat list" where "slot_ids = [0..<NVME_MAX_INFLIGHT]"

section \<open>The release of the buffers\<close>

definition release_slot :: "env \<Rightarrow> u32 \<Rightarrow> nat \<Rightarrow> drv \<Rightarrow> drv" where
  "release_slot e ps i s0 =
     (let fl = k_DMA_ReadFromRAM e;
          b = bounce_bufs (unit_st s0) ! i;
          s1 = (if b = 0 then s0 else
            upd_unit (\<lambda>u. u\<lparr>bounce_bufs := (bounce_bufs u)[i := 0]\<rparr>) (unpin_buffer b NVME_BOUNCE_SIZE fl s0));
          p = prp_list_pages (unit_st s1) ! i;
          s2 = (if p = 0 then s1 else
            upd_unit (\<lambda>u. u\<lparr>prp_list_pages := (prp_list_pages u)[i := 0]\<rparr>) (unpin_buffer p ps fl s1));
          d = dma_entry_pool (unit_st s2) ! i
      in if d = 0 then s2 else
           upd_unit (\<lambda>u. u\<lparr>dma_entry_pool := (dma_entry_pool u)[i := 0]\<rparr>) (FreeEntries d s2))"

definition release_dsm :: "env \<Rightarrow> u32 \<Rightarrow> drv \<Rightarrow> drv" where
  "release_dsm e ps s =
     (if dsm_buf (unit_st s) = 0 then s
      else upd_unit (\<lambda>u. u\<lparr>dsm_buf := 0, dsm_phys := 0\<rparr>) (unpin_buffer (dsm_buf (unit_st s)) ps (k_DMA_ReadFromRAM e) s))"

definition release_buffers :: "env \<Rightarrow> u32 \<Rightarrow> drv \<Rightarrow> drv" where
  "release_buffers e ps s =
     release_dsm e ps (upd_unit (\<lambda>u. u\<lparr>dma_entry_pool_capacity := 0\<rparr>) (fold (release_slot e ps) slot_ids s))"

section \<open>UnitTask_Start\<close>

text \<open>
  The entry of the new task, up to its event loop: its port (whose message list is empty), its
  signal bit, and the signal to the parent. The bit of the port is part of the wait mask only
  and is not modelled.
\<close>

definition task_prologue :: "env \<Rightarrow> u32 \<Rightarrow> u32 \<Rightarrow> drv \<Rightarrow> drv" where
  "task_prologue e parent rmask s =
     (let p = e_AllocPort e (trace s);
          s1 = upd_unit (\<lambda>u. u\<lparr>io_port := p, port_msgs := []\<rparr>) (log_ev (EvAllocPort p) s)
      in if p = 0 then log_ev (EvSignal parent rmask) (upd_unit (\<lambda>u. u\<lparr>unit_task := 0\<rparr>) s1)
         else let sig = e_AllocSignal e (trace s1); s2 = log_ev (EvAllocSignal sig) s1 in
           if sig < 0 then log_ev (EvSignal parent rmask)
             (upd_unit (\<lambda>u. u\<lparr>io_port := 0, unit_task := 0\<rparr>) (log_ev (EvFreePort p) s2))
           else log_ev (EvSignal parent rmask)
             (upd_unit (\<lambda>u. u\<lparr>io_signal_mask := push_bit (nat sig) 1, io_wait_task := unit_task u\<rparr>) s2))"

definition start_fail :: "env \<Rightarrow> u32 \<Rightarrow> drv \<Rightarrow> bool \<times> drv" where
  "start_fail e ps s = (False, release_buffers e ps s)"

text \<open>The creation of the task and the handshake with it.\<close>

definition launch_task :: "env \<Rightarrow> u32 \<Rightarrow> drv \<Rightarrow> bool \<times> drv" where
  "launch_task e ps s =
     (let bit = e_AllocSignal e (trace s); s1 = log_ev (EvAllocSignal bit) s; bmask = push_bit (nat bit) 1 in
      if bit < 0 then start_fail e ps s1
      else let s2 = log_ev EvForbid (upd_unit (\<lambda>u. u\<lparr>task_shutdown := False\<rparr>) s1);
               t = e_CreateTask e (trace s2); s3 = log_ev (EvCreateTask t) s2 in
        if t = 0 then start_fail e ps (log_ev (EvFreeSignal bmask) (log_ev EvPermit s3))
        else let s4 = log_ev EvPermit (upd_unit (\<lambda>u. u\<lparr>unit_task := t\<rparr>) s3);
                 s5 = task_prologue e (e_this_task e) bmask s4;
                 s6 = log_ev (EvFreeSignal bmask) (log_ev (EvWait bmask) s5)
          in if io_port (unit_st s6) = 0 then (False, upd_unit (\<lambda>u. u\<lparr>unit_task := 0\<rparr>) s6) else (True, s6))"

definition UnitTask_Start :: "env \<Rightarrow> drv \<Rightarrow> bool \<times> drv" where
  "UnitTask_Start e s =
     (let ps = page_size (ctrl_st s) in
      case start_slots e ps slot_ids s of (ok, s1) \<Rightarrow>
        if \<not> ok then start_fail e ps s1
        else let s2 = start_dsm e ps s1; n = worst_frags (ctrl_st s2) ps;
                 s3 = start_pools e n slot_ids (upd_unit (\<lambda>u. u\<lparr>dma_entry_pool_capacity := n\<rparr>) s2)
          in launch_task e ps s3)"

section \<open>UnitTask_Shutdown\<close>

text \<open>
  \<open>run\<close> is what happens from the request for the end until the task is gone: the remaining
  steps of the task, the clients and the device. Without a free signal bit the caller spins
  until the task is gone, and returns.
\<close>

definition SIGBREAKF_CTRL_C :: u32 where "SIGBREAKF_CTRL_C = 0x1000"

definition UnitTask_Shutdown :: "env \<Rightarrow> (drv \<Rightarrow> drv) \<Rightarrow> drv \<Rightarrow> drv" where
  "UnitTask_Shutdown e run s =
     (if unit_task (unit_st s) = 0 then s
      else let bit = e_AllocSignal e (trace s); s1 = log_ev (EvAllocSignal bit) s; bmask = push_bit (nat bit) 1 in
        if bit < 0 then
          run (log_ev (EvSignal (unit_task (unit_st s1)) SIGBREAKF_CTRL_C)
            (upd_unit (\<lambda>u. u\<lparr>shutdown_ack_task := 0, shutdown_ack_mask := 0, task_shutdown := True\<rparr>) s1))
        else
          let s2 = upd_unit (\<lambda>u. u\<lparr>shutdown_ack_task := e_this_task e, shutdown_ack_mask := bmask\<rparr>) s1;
              s3 = log_ev EvPermit (upd_unit (\<lambda>u. u\<lparr>task_shutdown := True\<rparr>) (log_ev EvForbid s2));
              s4 = run (log_ev (EvSignal (unit_task (unit_st s3)) SIGBREAKF_CTRL_C) s3);
              s5 = log_ev (EvFreeSignal bmask) (log_ev (EvWait (shutdown_ack_mask (unit_st s4))) s4);
              s6 = upd_unit (\<lambda>u. u\<lparr>shutdown_ack_task := 0, shutdown_ack_mask := 0\<rparr>) s5
          in release_buffers e (page_size (ctrl_st s6)) s6)"

section \<open>The account of the buffers\<close>

definition pins_of :: "u32 \<Rightarrow> u32 \<Rightarrow> u32 list \<Rightarrow> token multiset" where
  "pins_of n fl xs = (\<Sum>x\<leftarrow>xs. pinned x n fl)"

definition pools_of :: "u32 list \<Rightarrow> token multiset" where
  "pools_of xs = (\<Sum>d\<leftarrow>xs. tok_if (d \<noteq> 0) (Tok_Ents d))"

definition setup_held :: "env \<Rightarrow> u32 \<Rightarrow> NVMeUnit \<Rightarrow> token multiset" where
  "setup_held e ps u = pins_of NVME_BOUNCE_SIZE (k_DMA_ReadFromRAM e) (bounce_bufs u) +
     pins_of ps (k_DMA_ReadFromRAM e) (prp_list_pages u) + pools_of (dma_entry_pool u) +
     pinned (dsm_buf u) ps (k_DMA_ReadFromRAM e)"

lemma pinned_0 [simp]: "pinned 0 n fl = {#}"
  by (simp add: pinned_def)

lemma pins_of_update: "i < length xs \<Longrightarrow> pins_of n fl (xs[i := p]) + pinned (xs ! i) n fl = pins_of n fl xs + pinned p n fl"
  using sum_list_update_add [of i xs "\<lambda>x. pinned x n fl" p] by (simp add: pins_of_def)

lemma pools_of_update:
  "i < length xs \<Longrightarrow> pools_of (xs[i := d]) + tok_if (xs ! i \<noteq> 0) (Tok_Ents (xs ! i)) = pools_of xs + tok_if (d \<noteq> 0) (Tok_Ents d)"
  using sum_list_update_add [of i xs "\<lambda>x. tok_if (x \<noteq> 0) (Tok_Ents x)" d] by (simp add: pools_of_def)

lemma pins_of_zero [simp]: "pins_of n fl (replicate k 0) = {#}"
  by (induction k) (simp_all add: pins_of_def)

lemma pools_of_zero [simp]: "pools_of (replicate k 0) = {#}"
  by (induction k) (simp_all add: pools_of_def)

text \<open>The arrays of the unit have an element per slot.\<close>

definition arrays_ok :: "NVMeUnit \<Rightarrow> bool" where
  "arrays_ok u \<longleftrightarrow> length (bounce_bufs u) = NVME_MAX_INFLIGHT \<and> length (prp_list_pages u) = NVME_MAX_INFLIGHT \<and>
     length (dma_entry_pool u) = NVME_MAX_INFLIGHT"

text \<open>The rest of the unit.\<close>

definition core_of :: "NVMeUnit \<Rightarrow> NVMeUnit" where
  "core_of u = u\<lparr>bounce_bufs := [], bounce_phys := [], prp_list_pages := [], prp_list_phys := [], dma_entry_pool := [],
     dma_entry_pool_capacity := 0, dsm_buf := 0, dsm_phys := 0\<rparr>"

lemma core_of_upd [simp]:
  "core_of (u\<lparr>bounce_bufs := a\<rparr>) = core_of u" "core_of (u\<lparr>bounce_phys := a\<rparr>) = core_of u"
  "core_of (u\<lparr>prp_list_pages := a\<rparr>) = core_of u" "core_of (u\<lparr>prp_list_phys := a\<rparr>) = core_of u"
  "core_of (u\<lparr>dma_entry_pool := a\<rparr>) = core_of u" "core_of (u\<lparr>dma_entry_pool_capacity := n\<rparr>) = core_of u"
  "core_of (u\<lparr>dsm_buf := n\<rparr>) = core_of u" "core_of (u\<lparr>dsm_phys := n\<rparr>) = core_of u"
  by (simp_all add: core_of_def)

text \<open>The set-up changes the buffers and the resources together, and nothing else of the unit.\<close>

definition sets_up :: "env \<Rightarrow> u32 \<Rightarrow> drv \<Rightarrow> drv \<Rightarrow> bool" where
  "sets_up e ps s s' \<longleftrightarrow> moves s s' (setup_held e ps (unit_st s)) (setup_held e ps (unit_st s')) \<and>
     core_of (unit_st s') = core_of (unit_st s) \<and> arrays_ok (unit_st s') = arrays_ok (unit_st s) \<and>
     ctrl_st s' = ctrl_st s \<and> reqs s' = reqs s"

lemma sets_up_refl [simp]: "sets_up e ps s s"
  by (simp add: sets_up_def)

lemma sets_up_ram [simp]: "sets_up e ps s (upd_ram g t) = sets_up e ps s t"
  by (simp add: sets_up_def)

lemma sets_up_trans [trans]: "sets_up e ps s t \<Longrightarrow> sets_up e ps t u \<Longrightarrow> sets_up e ps s u"
  by (auto simp: sets_up_def intro: moves_trans)

text \<open>A step that acquires or releases \<open>P\<close> while the account of the unit moves by \<open>P\<close>.\<close>

lemma sets_up_step:
  assumes "only_trace s t" and "moves s t P Q"
    and "setup_held e ps (f (unit_st s)) + P = setup_held e ps (unit_st s) + Q"
    and "core_of (f (unit_st s)) = core_of (unit_st s)" and "arrays_ok (f (unit_st s)) = arrays_ok (unit_st s)"
  shows "sets_up e ps s (upd_unit f t)"
proof -
  note o = only_traceD [OF assms(1)]
  have "a + ins t' + outs s' = b + outs t' + ins s'"
    if "b + P = a + Q" "P + ins t' + outs s' = Q + outs t' + ins s'" for a b t' s'
  proof -
    have "(a + ins t' + outs s') + (P + Q) = (b + outs t' + ins s') + (P + Q)"
      using arg_cong2 [OF that(1) [symmetric] that(2), of "(+)"] by (simp add: ac_simps)
    then show ?thesis by simp
  qed
  from this [OF assms(3) assms(2) [unfolded moves_def]] show ?thesis
    using assms(4,5) o by (simp add: sets_up_def moves_def)
qed

lemma start_bounce_sets_up:
  assumes "start_bounce e i s = (ok, s')" and "arrays_ok (unit_st s)" and "i < NVME_MAX_INFLIGHT"
    and z: "bounce_bufs (unit_st s) ! i = 0"
  shows "sets_up e ps s s'" and "\<exists>p. (ok \<longrightarrow> p \<noteq> 0) \<and> bounce_bufs (unit_st s') = (bounce_bufs (unit_st s))[i := p] \<and>
    prp_list_pages (unit_st s') = prp_list_pages (unit_st s) \<and> dma_entry_pool (unit_st s') = dma_entry_pool (unit_st s) \<and>
    dsm_buf (unit_st s') = dsm_buf (unit_st s)"
proof -
  obtain r t where pb: "pin_buffer e NVME_BOUNCE_SIZE (k_DMA_ReadFromRAM e) s = (r, t)" by fastforce
  note p = pin_buffer_cases [OF pb]
  note u = pins_of_update [where xs = "bounce_bufs (unit_st s)" and i = i and n = NVME_BOUNCE_SIZE and fl = "k_DMA_ReadFromRAM e"]
  have l: "i < length (bounce_bufs (unit_st s))" using assms(2,3) by (simp add: arrays_ok_def)
  show "sets_up e ps s s'"
    using assms(1) p u [OF l] z assms(2)
    by (auto simp: start_bounce_def pb setup_held_def arrays_ok_def ac_simps split: option.splits intro!: sets_up_step [where s = s])
  show "\<exists>p. (ok \<longrightarrow> p \<noteq> 0) \<and> bounce_bufs (unit_st s') = (bounce_bufs (unit_st s))[i := p] \<and>
    prp_list_pages (unit_st s') = prp_list_pages (unit_st s) \<and> dma_entry_pool (unit_st s') = dma_entry_pool (unit_st s) \<and>
    dsm_buf (unit_st s') = dsm_buf (unit_st s)"
    using assms(1) p only_traceD [OF p(1)] by (auto simp: start_bounce_def pb split: option.splits)
qed

lemma start_prp_sets_up:
  assumes "start_prp e ps i s = (ok, s')" and "arrays_ok (unit_st s)" and "i < NVME_MAX_INFLIGHT"
    and z: "prp_list_pages (unit_st s) ! i = 0"
  shows "sets_up e ps s s'" and "\<exists>p. (ok \<longrightarrow> p \<noteq> 0) \<and> prp_list_pages (unit_st s') = (prp_list_pages (unit_st s))[i := p] \<and>
    bounce_bufs (unit_st s') = bounce_bufs (unit_st s) \<and> dma_entry_pool (unit_st s') = dma_entry_pool (unit_st s) \<and>
    dsm_buf (unit_st s') = dsm_buf (unit_st s)"
proof -
  obtain r t where pb: "pin_buffer e ps (k_DMA_ReadFromRAM e) s = (r, t)" by fastforce
  note p = pin_buffer_cases [OF pb]
  note u = pins_of_update [where xs = "prp_list_pages (unit_st s)" and i = i and n = ps and fl = "k_DMA_ReadFromRAM e"]
  have l: "i < length (prp_list_pages (unit_st s))" using assms(2,3) by (simp add: arrays_ok_def)
  show "sets_up e ps s s'"
    using assms(1) p u [OF l] z assms(2)
    by (auto simp: start_prp_def pb setup_held_def arrays_ok_def ac_simps split: option.splits intro!: sets_up_step [where s = s])
  show "\<exists>p. (ok \<longrightarrow> p \<noteq> 0) \<and> prp_list_pages (unit_st s') = (prp_list_pages (unit_st s))[i := p] \<and>
    bounce_bufs (unit_st s') = bounce_bufs (unit_st s) \<and> dma_entry_pool (unit_st s') = dma_entry_pool (unit_st s) \<and>
    dsm_buf (unit_st s') = dsm_buf (unit_st s)"
    using assms(1) p only_traceD [OF p(1)] by (auto simp: start_prp_def pb split: option.splits)
qed

text \<open>The slots below \<open>k\<close> have their buffers, the others none.\<close>

definition filled :: "nat \<Rightarrow> NVMeUnit \<Rightarrow> bool" where
  "filled k u \<longleftrightarrow> arrays_ok u \<and> (\<forall>i<NVME_MAX_INFLIGHT.
     if i < k then bounce_bufs u ! i \<noteq> 0 \<and> prp_list_pages u ! i \<noteq> 0
     else bounce_bufs u ! i = 0 \<and> prp_list_pages u ! i = 0)"

lemma start_slot_sets_up:
  assumes "start_slot e ps i s = (ok, s')" and "filled i (unit_st s)" and i: "i < NVME_MAX_INFLIGHT"
  shows "sets_up e ps s s'" and "dma_entry_pool (unit_st s') = dma_entry_pool (unit_st s)"
    and "dsm_buf (unit_st s') = dsm_buf (unit_st s)" and "ok \<Longrightarrow> filled (Suc i) (unit_st s')"
proof -
  obtain ok1 t where b: "start_bounce e i s = (ok1, t)" by fastforce
  have f: "arrays_ok (unit_st s)" "bounce_bufs (unit_st s) ! i = 0" "prp_list_pages (unit_st s) ! i = 0"
    using assms(2,3) by (simp_all add: filled_def)
  note B = start_bounce_sets_up(1) [OF b f(1) i f(2), of ps] start_bounce_sets_up(2) [OF b f(1) i f(2)]
  obtain p where p: "ok1 \<longrightarrow> p \<noteq> 0" "bounce_bufs (unit_st t) = (bounce_bufs (unit_st s))[i := p]"
      "prp_list_pages (unit_st t) = prp_list_pages (unit_st s)" "dma_entry_pool (unit_st t) = dma_entry_pool (unit_st s)"
      "dsm_buf (unit_st t) = dsm_buf (unit_st s)"
    using B(2) by blast
  have "sets_up e ps s s' \<and> dma_entry_pool (unit_st s') = dma_entry_pool (unit_st s) \<and>
    dsm_buf (unit_st s') = dsm_buf (unit_st s) \<and> (ok \<longrightarrow> filled (Suc i) (unit_st s'))"
  proof (cases ok1)
    case True
    then have r: "start_prp e ps i t = (ok, s')" using assms(1) b by (simp add: start_slot_def)
    have a: "arrays_ok (unit_st t)" using B(1) f(1) by (simp add: sets_up_def)
    have z: "prp_list_pages (unit_st t) ! i = 0" using p(3) f(3) by simp
    note P = start_prp_sets_up [OF r a i z]
    obtain q where q: "ok \<longrightarrow> q \<noteq> 0" "prp_list_pages (unit_st s') = (prp_list_pages (unit_st t))[i := q]"
        "bounce_bufs (unit_st s') = bounce_bufs (unit_st t)" "dma_entry_pool (unit_st s') = dma_entry_pool (unit_st t)"
        "dsm_buf (unit_st s') = dsm_buf (unit_st t)"
      using P(2) by blast
    have "arrays_ok (unit_st s')" using P(1) a by (simp add: sets_up_def)
    then show ?thesis
      using sets_up_trans [OF B(1) P(1)] p q True assms(2) f(1)
      by (auto simp: filled_def nth_list_update less_Suc_eq arrays_ok_def)
  next
    case False
    then show ?thesis using assms(1) b B(1) p(4,5) by (simp add: start_slot_def)
  qed
  then show "sets_up e ps s s'" "dma_entry_pool (unit_st s') = dma_entry_pool (unit_st s)"
    "dsm_buf (unit_st s') = dsm_buf (unit_st s)" "ok \<Longrightarrow> filled (Suc i) (unit_st s')" by simp_all
qed

lemma start_slots_sets_up:
  assumes "start_slots e ps [k..<NVME_MAX_INFLIGHT] s = (ok, s')" and "filled k (unit_st s)" and "k \<le> NVME_MAX_INFLIGHT"
  shows "sets_up e ps s s' \<and> dma_entry_pool (unit_st s') = dma_entry_pool (unit_st s) \<and>
     dsm_buf (unit_st s') = dsm_buf (unit_st s) \<and> (ok \<longrightarrow> filled NVME_MAX_INFLIGHT (unit_st s'))"
  using assms
proof (induction "NVME_MAX_INFLIGHT - k" arbitrary: k s)
  case 0
  then show ?case by simp
next
  case (Suc n)
  then have k: "k < NVME_MAX_INFLIGHT" by simp
  obtain ok1 t where t: "start_slot e ps k s = (ok1, t)" by fastforce
  note S = start_slot_sets_up [OF t Suc.prems(2) k]
  show ?case
  proof (cases ok1)
    case True
    have "start_slots e ps [Suc k..<NVME_MAX_INFLIGHT] t = (ok, s')"
      using Suc.prems(1) True t by (simp add: upt_conv_Cons [OF k])
    moreover have "n = NVME_MAX_INFLIGHT - Suc k" "Suc k \<le> NVME_MAX_INFLIGHT" using Suc.hyps(2) k by simp_all
    ultimately show ?thesis
      using Suc.hyps(1) [of "Suc k" t] S True by (auto intro: sets_up_trans)
  next
    case False
    then show ?thesis using Suc.prems(1) S t by (simp add: upt_conv_Cons [OF k])
  qed
qed

lemma start_dsm_sets_up:
  assumes "dsm_buf (unit_st s) = 0"
  shows "sets_up e ps s (start_dsm e ps s)" and "bounce_bufs (unit_st (start_dsm e ps s)) = bounce_bufs (unit_st s)"
    and "prp_list_pages (unit_st (start_dsm e ps s)) = prp_list_pages (unit_st s)"
    and "dma_entry_pool (unit_st (start_dsm e ps s)) = dma_entry_pool (unit_st s)"
proof -
  obtain r t where pb: "pin_buffer e ps (k_DMA_ReadFromRAM e) s = (r, t)" by fastforce
  note p = pin_buffer_cases [OF pb]
  show "sets_up e ps s (start_dsm e ps s)"
    using p assms by (auto simp: start_dsm_def pb setup_held_def arrays_ok_def ac_simps split: option.splits
        intro!: sets_up_step [where s = s])
  show "bounce_bufs (unit_st (start_dsm e ps s)) = bounce_bufs (unit_st s)"
    "prp_list_pages (unit_st (start_dsm e ps s)) = prp_list_pages (unit_st s)"
    "dma_entry_pool (unit_st (start_dsm e ps s)) = dma_entry_pool (unit_st s)"
    using only_traceD [OF p(1)] by (auto simp: start_dsm_def pb split: option.splits)
qed

lemma start_pools_sets_up:
  assumes "arrays_ok (unit_st s)" and "distinct is" and "\<forall>i\<in>set is. i < NVME_MAX_INFLIGHT \<and> dma_entry_pool (unit_st s) ! i = 0"
  shows "sets_up e ps s (start_pools e n is s) \<and> bounce_bufs (unit_st (start_pools e n is s)) = bounce_bufs (unit_st s) \<and>
     prp_list_pages (unit_st (start_pools e n is s)) = prp_list_pages (unit_st s)"
  using assms
proof (induction "is" arbitrary: s)
  case (Cons i "is")
  obtain p t where a: "AllocEntries e n s = (p, t)" by fastforce
  have o: "only_trace s t" and m: "moves s t {#} (tok_if (p \<noteq> 0) (Tok_Ents p))"
    using a by (auto simp: AllocEntries_def Let_def moves_def)
  define u where "u = upd_unit (\<lambda>u. u\<lparr>dma_entry_pool := (dma_entry_pool u)[i := p]\<rparr>) t"
  have l: "i < length (dma_entry_pool (unit_st s))" using Cons.prems by (simp add: arrays_ok_def)
  have n: "\<forall>j\<in>set is. (dma_entry_pool (unit_st s))[i := p] ! j = dma_entry_pool (unit_st s) ! j"
    using Cons.prems(2) by (metis distinct.simps(2) nth_list_update_neq)
  have "sets_up e ps s u"
    unfolding u_def by (rule sets_up_step [OF o m])
      (use pools_of_update [OF l, of p] Cons.prems in \<open>simp_all add: setup_held_def arrays_ok_def ac_simps\<close>)
  moreover have "bounce_bufs (unit_st u) = bounce_bufs (unit_st s)" "prp_list_pages (unit_st u) = prp_list_pages (unit_st s)"
    "dma_entry_pool (unit_st u) = (dma_entry_pool (unit_st s))[i := p]"
    using only_traceD [OF o] by (simp_all add: u_def)
  moreover have "sets_up e ps u (start_pools e n is u) \<and> bounce_bufs (unit_st (start_pools e n is u)) = bounce_bufs (unit_st u) \<and>
     prp_list_pages (unit_st (start_pools e n is u)) = prp_list_pages (unit_st u)"
    by (rule Cons.IH) (use Cons.prems calculation n in \<open>auto simp: sets_up_def\<close>)
  ultimately show ?case using a by (auto simp: u_def intro: sets_up_trans)
qed simp

lemma release_slot_sets_up:
  assumes "arrays_ok (unit_st s)" and i: "i < NVME_MAX_INFLIGHT"
  shows "sets_up e ps s (release_slot e ps i s)"
    and "bounce_bufs (unit_st (release_slot e ps i s)) = (bounce_bufs (unit_st s))[i := 0]"
    and "prp_list_pages (unit_st (release_slot e ps i s)) = (prp_list_pages (unit_st s))[i := 0]"
    and "dma_entry_pool (unit_st (release_slot e ps i s)) = (dma_entry_pool (unit_st s))[i := 0]"
proof -
  let ?fl = "k_DMA_ReadFromRAM e"
  define b where "b = bounce_bufs (unit_st s) ! i"
  define s1 where "s1 = (if b = 0 then s else
    upd_unit (\<lambda>u. u\<lparr>bounce_bufs := (bounce_bufs u)[i := 0]\<rparr>) (unpin_buffer b NVME_BOUNCE_SIZE ?fl s))"
  define p where "p = prp_list_pages (unit_st s1) ! i"
  define s2 where "s2 = (if p = 0 then s1 else
    upd_unit (\<lambda>u. u\<lparr>prp_list_pages := (prp_list_pages u)[i := 0]\<rparr>) (unpin_buffer p ps ?fl s1))"
  define d where "d = dma_entry_pool (unit_st s2) ! i"
  define s3 where "s3 = (if d = 0 then s2 else
    upd_unit (\<lambda>u. u\<lparr>dma_entry_pool := (dma_entry_pool u)[i := 0]\<rparr>) (FreeEntries d s2))"
  have r: "release_slot e ps i s = s3"
    by (simp add: release_slot_def Let_def b_def s1_def p_def s2_def d_def s3_def)
  have unp: "unit_st (unpin_buffer q n fl t) = unit_st t" "unit_st (FreeEntries q t) = unit_st t" for q n fl t
    by (simp_all add: unpin_buffer_def FreeVec_def EndDMA_def FreeEntries_def)
  have z: "xs ! i = 0 \<Longrightarrow> xs[i := 0] = xs" for xs :: "u32 list" by (metis list_update_id)
  have u: "bounce_bufs (unit_st s1) = (bounce_bufs (unit_st s))[i := 0]" "prp_list_pages (unit_st s1) = prp_list_pages (unit_st s)"
      "dma_entry_pool (unit_st s1) = dma_entry_pool (unit_st s)" "bounce_bufs (unit_st s2) = bounce_bufs (unit_st s1)"
      "prp_list_pages (unit_st s2) = (prp_list_pages (unit_st s1))[i := 0]" "dma_entry_pool (unit_st s2) = dma_entry_pool (unit_st s1)"
      "bounce_bufs (unit_st s3) = bounce_bufs (unit_st s2)" "prp_list_pages (unit_st s3) = prp_list_pages (unit_st s2)"
      "dma_entry_pool (unit_st s3) = (dma_entry_pool (unit_st s2))[i := 0]"
    by (simp_all add: s1_def s2_def s3_def unp z b_def p_def d_def)
  have a: "arrays_ok (unit_st s1)" "arrays_ok (unit_st s2)" using assms(1) by (simp_all add: arrays_ok_def u)
  have l: "i < length (bounce_bufs (unit_st s))" "i < length (prp_list_pages (unit_st s1))" "i < length (dma_entry_pool (unit_st s2))"
    using assms a by (simp_all add: arrays_ok_def)
  have g: "sets_up e ps t (upd_unit f (unpin_buffer q n ?fl t))"
    if "q \<noteq> 0" "setup_held e ps (f (unit_st t)) + pinned q n ?fl = setup_held e ps (unit_st t)"
      "core_of (f (unit_st t)) = core_of (unit_st t)" "arrays_ok (f (unit_st t)) = arrays_ok (unit_st t)" for t f q n
    using that unpin_moves [OF that(1), of t n ?fl "{#}"]
    by (intro sets_up_step [where P = "pinned q n ?fl" and Q = "{#}"]) simp_all
  have "sets_up e ps s s1"
    using pins_of_update [OF l(1), of NVME_BOUNCE_SIZE ?fl 0]
    by (auto simp: s1_def setup_held_def arrays_ok_def b_def ac_simps intro!: g)
  also have "sets_up e ps s1 s2"
    using pins_of_update [OF l(2), of ps ?fl 0]
    by (auto simp: s2_def setup_held_def arrays_ok_def p_def ac_simps intro!: g)
  also have "sets_up e ps s2 s3"
  proof (cases "d = 0")
    case False
    have m: "moves s2 (FreeEntries d s2) {#Tok_Ents d#} {#}" by (simp add: FreeEntries_def moves_def)
    have o: "only_trace s2 (FreeEntries d s2)" by (simp add: FreeEntries_def)
    have "sets_up e ps s2 (upd_unit (\<lambda>u. u\<lparr>dma_entry_pool := (dma_entry_pool u)[i := 0]\<rparr>) (FreeEntries d s2))"
      by (rule sets_up_step [OF o m])
        (use False pools_of_update [OF l(3), of 0] in \<open>simp_all add: setup_held_def arrays_ok_def d_def ac_simps\<close>)
    then show ?thesis using False by (simp add: s3_def)
  qed (simp add: s3_def)
  finally show "sets_up e ps s (release_slot e ps i s)" by (simp add: r)
  show "bounce_bufs (unit_st (release_slot e ps i s)) = (bounce_bufs (unit_st s))[i := 0]"
    "prp_list_pages (unit_st (release_slot e ps i s)) = (prp_list_pages (unit_st s))[i := 0]"
    "dma_entry_pool (unit_st (release_slot e ps i s)) = (dma_entry_pool (unit_st s))[i := 0]"
    by (simp_all add: r u)
qed

text \<open>After the loop every array is empty.\<close>

definition cleared :: "nat list \<Rightarrow> u32 list \<Rightarrow> u32 list" where
  "cleared is xs = fold (\<lambda>i xs. xs[i := 0]) is xs"

lemma cleared_nth: "j < length xs \<Longrightarrow> cleared is xs ! j = (if j \<in> set is then 0 else xs ! j) \<and> length (cleared is xs) = length xs"
  unfolding cleared_def by (induction "is" arbitrary: xs) (auto simp: nth_list_update)

lemma cleared_all: "length xs = NVME_MAX_INFLIGHT \<Longrightarrow> cleared slot_ids xs = replicate NVME_MAX_INFLIGHT 0"
proof (rule nth_equalityI)
  assume l: "length xs = NVME_MAX_INFLIGHT"
  have "0 < length xs" using l by (simp add: NVME_MAX_INFLIGHT_def)
  then show "length (cleared slot_ids xs) = length (replicate NVME_MAX_INFLIGHT (0 :: u32))"
    using cleared_nth l by simp
  then show "cleared slot_ids xs ! i = replicate NVME_MAX_INFLIGHT 0 ! i" if "i < length (cleared slot_ids xs)" for i
    using that l cleared_nth [of i xs] by (simp add: slot_ids_def)
qed

lemma release_slots_sets_up:
  assumes "arrays_ok (unit_st s)" and "\<forall>i\<in>set is. i < NVME_MAX_INFLIGHT"
  shows "sets_up e ps s (fold (release_slot e ps) is s) \<and>
    bounce_bufs (unit_st (fold (release_slot e ps) is s)) = cleared is (bounce_bufs (unit_st s)) \<and>
    prp_list_pages (unit_st (fold (release_slot e ps) is s)) = cleared is (prp_list_pages (unit_st s)) \<and>
    dma_entry_pool (unit_st (fold (release_slot e ps) is s)) = cleared is (dma_entry_pool (unit_st s))"
  using assms
proof (induction "is" arbitrary: s)
  case Nil
  then show ?case by (simp add: cleared_def)
next
  case (Cons i "is")
  have i: "i < NVME_MAX_INFLIGHT" using Cons.prems(2) by simp
  note R = release_slot_sets_up [OF Cons.prems(1) i]
  have "arrays_ok (unit_st (release_slot e ps i s))" using R(1) [of e ps] Cons.prems(1) by (simp add: sets_up_def)
  from Cons.IH [OF this] show ?case
    using Cons.prems(2) R by (auto simp: cleared_def intro: sets_up_trans)
qed

lemma release_buffers_sets_up:
  assumes "arrays_ok (unit_st s)"
  shows "sets_up e ps s (release_buffers e ps s)" and "setup_held e ps (unit_st (release_buffers e ps s)) = {#}"
proof -
  let ?fl = "k_DMA_ReadFromRAM e"
  define t where "t = fold (release_slot e ps) slot_ids s"
  define v where "v = upd_unit (\<lambda>u. u\<lparr>dma_entry_pool_capacity := 0\<rparr>) t"
  have "\<forall>i\<in>set slot_ids. i < NVME_MAX_INFLIGHT" by (simp add: slot_ids_def)
  note R = release_slots_sets_up [OF assms this, of e ps, folded t_def]
  have tv: "sets_up e ps t v" by (simp add: v_def sets_up_def setup_held_def arrays_ok_def)
  have z: "bounce_bufs (unit_st v) = replicate NVME_MAX_INFLIGHT 0" "prp_list_pages (unit_st v) = replicate NVME_MAX_INFLIGHT 0"
    "dma_entry_pool (unit_st v) = replicate NVME_MAX_INFLIGHT 0"
    using R assms by (simp_all add: v_def cleared_all arrays_ok_def)
  have e: "release_buffers e ps s = release_dsm e ps v" by (simp add: release_buffers_def v_def t_def)
  have o: "only_trace v (unpin_buffer d ps ?fl v)" for d by simp
  have "sets_up e ps v (release_dsm e ps v)"
    using unpin_moves [of "dsm_buf (unit_st v)" v ps ?fl "{#}"]
    by (auto simp: release_dsm_def setup_held_def arrays_ok_def ac_simps
        intro!: sets_up_step [OF o, where P = "pinned (dsm_buf (unit_st v)) ps ?fl" and Q = "{#}"])
  then show "sets_up e ps s (release_buffers e ps s)" using R tv sets_up_trans unfolding e by blast
  have "dsm_buf (unit_st (release_dsm e ps v)) = 0 \<and> bounce_bufs (unit_st (release_dsm e ps v)) = bounce_bufs (unit_st v) \<and>
    prp_list_pages (unit_st (release_dsm e ps v)) = prp_list_pages (unit_st v) \<and>
    dma_entry_pool (unit_st (release_dsm e ps v)) = dma_entry_pool (unit_st v)"
    by (simp add: release_dsm_def unpin_buffer_def FreeVec_def EndDMA_def)
  then show "setup_held e ps (unit_st (release_buffers e ps s)) = {#}" by (simp add: e setup_held_def z)
qed

section \<open>Start and shutdown\<close>

text \<open>A unit whose task does not run: the arrays are there and hold nothing.\<close>

definition unstarted :: "NVMeUnit \<Rightarrow> bool" where
  "unstarted u \<longleftrightarrow> bounce_bufs u = replicate NVME_MAX_INFLIGHT 0 \<and> prp_list_pages u = replicate NVME_MAX_INFLIGHT 0 \<and>
     dma_entry_pool u = replicate NVME_MAX_INFLIGHT 0 \<and> dsm_buf u = 0"

lemma unstartedD:
  assumes "unstarted u"
  shows "filled 0 u" "setup_held e ps u = {#}" "\<forall>i\<in>set slot_ids. i < NVME_MAX_INFLIGHT \<and> dma_entry_pool u ! i = 0"
  using assms by (simp_all add: unstarted_def filled_def arrays_ok_def setup_held_def slot_ids_def)

text \<open>What neither the buffers nor the task are: the identity of the unit, its queues, slots and held requests.\<close>

definition task_core :: "NVMeUnit \<Rightarrow> NVMeUnit" where
  "task_core u = (core_of u)\<lparr>unit_task := 0, io_port := 0, port_msgs := [], io_signal_mask := 0, io_wait_task := 0,
     task_shutdown := False\<rparr>"

lemma task_core_upd [simp]:
  "task_core (u\<lparr>unit_task := a\<rparr>) = task_core u" "task_core (u\<lparr>io_port := a\<rparr>) = task_core u"
  "task_core (u\<lparr>port_msgs := xs\<rparr>) = task_core u" "task_core (u\<lparr>io_signal_mask := a\<rparr>) = task_core u"
  "task_core (u\<lparr>io_wait_task := a\<rparr>) = task_core u" "task_core (u\<lparr>task_shutdown := b\<rparr>) = task_core u"
  by (simp_all add: task_core_def core_of_def)

lemma task_coreD:
  assumes "task_core u' = task_core u"
  shows "inflight u' = inflight u" "queue_depth u' = queue_depth u" "io_sq_tail u' = io_sq_tail u" "io_cq_head u' = io_cq_head u"
    "stats u' = stats u" "changeint_req u' = changeint_req u" "remove_req u' = remove_req u" "open_count u' = open_count u"
    "unit_ctrl u' = unit_ctrl u"
  using assms [THEN arg_cong, of inflight] assms [THEN arg_cong, of queue_depth] assms [THEN arg_cong, of io_sq_tail]
    assms [THEN arg_cong, of io_cq_head] assms [THEN arg_cong, of stats] assms [THEN arg_cong, of changeint_req]
    assms [THEN arg_cong, of remove_req] assms [THEN arg_cong, of open_count] assms [THEN arg_cong, of unit_ctrl]
  by (simp_all add: task_core_def core_of_def)

text \<open>The steps of the handshake leave the buffers and the resources alone.\<close>

definition same_setup :: "env \<Rightarrow> u32 \<Rightarrow> drv \<Rightarrow> drv \<Rightarrow> bool" where
  "same_setup e ps s s' \<longleftrightarrow> moves s s' {#} {#} \<and> setup_held e ps (unit_st s') = setup_held e ps (unit_st s) \<and>
     filled NVME_MAX_INFLIGHT (unit_st s') = filled NVME_MAX_INFLIGHT (unit_st s) \<and> arrays_ok (unit_st s') = arrays_ok (unit_st s) \<and>
     task_core (unit_st s') = task_core (unit_st s) \<and> ctrl_st s' = ctrl_st s \<and> reqs s' = reqs s"

lemma same_setup_refl [simp]: "same_setup e ps s s"
  by (simp add: same_setup_def)

lemma same_setup_log [simp]:
  "ins_ev ev = {#} \<Longrightarrow> outs_ev ev = {#} \<Longrightarrow> same_setup e ps s (log_ev ev t) = same_setup e ps s t"
  by (simp add: same_setup_def)

lemma same_setup_upd [simp]:
  "same_setup e ps s (upd_unit (\<lambda>u. u\<lparr>unit_task := a\<rparr>) t) = same_setup e ps s t"
  "same_setup e ps s (upd_unit (\<lambda>u. u\<lparr>task_shutdown := b\<rparr>) t) = same_setup e ps s t"
  "same_setup e ps s (upd_unit (\<lambda>u. u\<lparr>io_port := a, port_msgs := xs\<rparr>) t) = same_setup e ps s t"
  "same_setup e ps s (upd_unit (\<lambda>u. u\<lparr>io_port := a, unit_task := c\<rparr>) t) = same_setup e ps s t"
  "same_setup e ps s (upd_unit (\<lambda>u. u\<lparr>io_signal_mask := a, io_wait_task := unit_task u\<rparr>) t) = same_setup e ps s t"
  by (simp_all add: same_setup_def setup_held_def filled_def arrays_ok_def)

lemma task_prologue_same: "same_setup e ps s (task_prologue e parent rmask t) = same_setup e ps s t"
  by (simp add: task_prologue_def Let_def)

lemma task_prologue_unit:
  assumes "unit_st (task_prologue e parent rmask s) = u" and "io_port u \<noteq> 0"
  shows "unit_task u = unit_task (unit_st s)" "io_wait_task u = unit_task (unit_st s)" "port_msgs u = []"
  using assms by (auto simp: task_prologue_def Let_def split: if_splits)

lemma core_task_core: "core_of u' = core_of u \<Longrightarrow> task_core u' = task_core u"
  by (simp add: task_core_def)

text \<open>
  The outcomes of a start. Whatever it acquired is reachable from the unit; a start that fails
  has released all of it, or its task could not initialise and the buffers are left behind.
\<close>

definition start_outcome :: "env \<Rightarrow> u32 \<Rightarrow> drv \<Rightarrow> bool \<Rightarrow> drv \<Rightarrow> bool" where
  "start_outcome e ps s ok s' \<longleftrightarrow>
     moves s s' (setup_held e ps (unit_st s)) (setup_held e ps (unit_st s')) \<and>
     task_core (unit_st s') = task_core (unit_st s) \<and> arrays_ok (unit_st s') = arrays_ok (unit_st s) \<and>
     ctrl_st s' = ctrl_st s \<and> reqs s' = reqs s \<and>
     (if ok then filled NVME_MAX_INFLIGHT (unit_st s') \<and> io_port (unit_st s') \<noteq> 0 \<and> unit_task (unit_st s') \<noteq> 0 \<and>
        io_wait_task (unit_st s') = unit_task (unit_st s') \<and> port_msgs (unit_st s') = []
      else setup_held e ps (unit_st s') = {#} \<or>
        filled NVME_MAX_INFLIGHT (unit_st s') \<and> unit_task (unit_st s') = 0 \<and> io_port (unit_st s') = 0)"

lemma start_outcome_after:
  assumes "sets_up e ps s t" and "start_outcome e ps t ok s'"
  shows "start_outcome e ps s ok s'"
proof -
  have m: "moves s t (setup_held e ps (unit_st s)) (setup_held e ps (unit_st t))"
    "moves t s' (setup_held e ps (unit_st t)) (setup_held e ps (unit_st s'))"
    using assms unfolding sets_up_def start_outcome_def by blast+
  have "core_of (unit_st t) = core_of (unit_st s)" "task_core (unit_st s') = task_core (unit_st t)"
    using assms unfolding sets_up_def start_outcome_def by blast+
  then have "task_core (unit_st s') = task_core (unit_st s)" using core_task_core by metis
  moreover have "arrays_ok (unit_st t) = arrays_ok (unit_st s)" "ctrl_st t = ctrl_st s" "reqs t = reqs s"
    using assms(1) unfolding sets_up_def by blast+
  ultimately show ?thesis using assms(2) moves_trans [OF m] unfolding start_outcome_def by metis
qed

lemma same_setup_moves: "same_setup e ps s t \<Longrightarrow> moves s t R R"
  using moves_frame [of s t "{#}" "{#}" R] by (simp add: same_setup_def)

lemma start_fail_outcome:
  assumes "start_fail e ps t = (ok, s')" and "same_setup e ps s t" and "arrays_ok (unit_st s)"
  shows "start_outcome e ps s ok s'"
proof -
  have "arrays_ok (unit_st t)" using assms(2,3) by (simp add: same_setup_def)
  note R = release_buffers_sets_up [OF this, of e ps]
  have ok: "\<not> ok" "s' = release_buffers e ps t" using assms(1) by (simp_all add: start_fail_def)
  have "moves s s' (setup_held e ps (unit_st s)) {#}"
    using same_setup_moves [OF assms(2)] R assms(2) ok by (auto simp: sets_up_def same_setup_def intro: moves_trans)
  moreover have "task_core (unit_st s') = task_core (unit_st t)"
    by (rule core_task_core) (use R ok in \<open>simp add: sets_up_def\<close>)
  ultimately show ?thesis using R ok assms(2) by (simp add: start_outcome_def sets_up_def same_setup_def)
qed

lemma launch_task_outcome:
  assumes "launch_task e ps s = (ok, s')" and f: "filled NVME_MAX_INFLIGHT (unit_st s)"
  shows "start_outcome e ps s ok s'"
proof -
  define bit where "bit = e_AllocSignal e (trace s)"
  define s1 where "s1 = log_ev (EvAllocSignal bit) s"
  define bmask :: u32 where "bmask = push_bit (nat bit) 1"
  define s2 where "s2 = log_ev EvForbid (upd_unit (\<lambda>u. u\<lparr>task_shutdown := False\<rparr>) s1)"
  define t where "t = e_CreateTask e (trace s2)"
  define s3 where "s3 = log_ev (EvCreateTask t) s2"
  define s4 where "s4 = log_ev EvPermit (upd_unit (\<lambda>u. u\<lparr>unit_task := t\<rparr>) s3)"
  define s5 where "s5 = task_prologue e (e_this_task e) bmask s4"
  define s6 where "s6 = log_ev (EvFreeSignal bmask) (log_ev (EvWait bmask) s5)"
  have launch: "launch_task e ps s =
     (if bit < 0 then start_fail e ps s1
      else if t = 0 then start_fail e ps (log_ev (EvFreeSignal bmask) (log_ev EvPermit s3))
      else if io_port (unit_st s6) = 0 then (False, upd_unit (\<lambda>u. u\<lparr>unit_task := 0\<rparr>) s6) else (True, s6))"
    by (simp only: launch_task_def Let_def bit_def s1_def bmask_def s2_def t_def s3_def s4_def s5_def s6_def)
  have k: "same_setup e ps s s1" "same_setup e ps s (log_ev (EvFreeSignal bmask) (log_ev EvPermit s3))" "same_setup e ps s s6"
    by (simp_all add: s1_def s2_def s3_def s4_def s5_def s6_def task_prologue_same)
  have a: "arrays_ok (unit_st s)" using f by (simp add: filled_def)
  consider "launch_task e ps s = start_fail e ps s1"
    | "launch_task e ps s = start_fail e ps (log_ev (EvFreeSignal bmask) (log_ev EvPermit s3))"
    | "t \<noteq> 0" "io_port (unit_st s6) = 0" "launch_task e ps s = (False, upd_unit (\<lambda>u. u\<lparr>unit_task := 0\<rparr>) s6)"
    | "t \<noteq> 0" "io_port (unit_st s6) \<noteq> 0" "launch_task e ps s = (True, s6)"
    by (cases "bit < 0"; cases "t = 0"; cases "io_port (unit_st s6) = 0"; simp add: launch)
  then show ?thesis
  proof cases
    case 1
    then show ?thesis using start_fail_outcome k(1) a assms(1) by metis
  next
    case 2
    then show ?thesis using start_fail_outcome k(2) a assms(1) by metis
  next
    case 3
    have "same_setup e ps s s'" "\<not> ok" using k(3) 3 assms(1) by simp_all
    then show ?thesis using same_setup_moves [of e ps s s'] 3 assms f by (auto simp: start_outcome_def same_setup_def)
  next
    case 4
    have "io_port (unit_st s5) \<noteq> 0" using 4 by (simp add: s6_def)
    note u = task_prologue_unit [OF s5_def [symmetric, THEN arg_cong, of unit_st] this]
    have "unit_task (unit_st s4) \<noteq> 0" using 4 by (simp add: s4_def)
    then show ?thesis
      using same_setup_moves [OF k(3)] 4 assms k(3) u by (auto simp: start_outcome_def same_setup_def s6_def)
  qed
qed

text \<open>Once the slots have their buffers nothing fails before the task is created.\<close>

lemma start_reaches_launch:
  assumes un: "unstarted (unit_st s)" and r: "start_slots e (page_size (ctrl_st s)) slot_ids s = (True, s1)"
  shows "\<exists>s3. UnitTask_Start e s = launch_task e (page_size (ctrl_st s)) s3 \<and>
     sets_up e (page_size (ctrl_st s)) s s3 \<and> filled NVME_MAX_INFLIGHT (unit_st s3)"
proof -
  let ?ps = "page_size (ctrl_st s)"
  note D = unstartedD [OF un]
  have S: "sets_up e ?ps s s1" "dma_entry_pool (unit_st s1) = dma_entry_pool (unit_st s)"
    "dsm_buf (unit_st s1) = dsm_buf (unit_st s)" "filled NVME_MAX_INFLIGHT (unit_st s1)"
    using start_slots_sets_up [OF r [unfolded slot_ids_def] D(1)] by simp_all
  define s2 where "s2 = start_dsm e ?ps s1"
  define n where "n = worst_frags (ctrl_st s2) ?ps"
  define s2' where "s2' = upd_unit (\<lambda>u. u\<lparr>dma_entry_pool_capacity := n\<rparr>) s2"
  define s3 where "s3 = start_pools e n slot_ids s2'"
  have l: "UnitTask_Start e s = launch_task e ?ps s3"
    using r by (simp add: UnitTask_Start_def Let_def s2_def n_def s2'_def s3_def)
  have "dsm_buf (unit_st s1) = 0" using S(3) un by (simp add: unstarted_def)
  note d = start_dsm_sets_up [OF this, of e ?ps, folded s2_def]
  have e2: "sets_up e ?ps s2 s2'" by (simp add: s2'_def sets_up_def setup_held_def arrays_ok_def)
  have a: "arrays_ok (unit_st s2')" using d(1) e2 S(4) by (simp add: sets_up_def filled_def)
  have z: "\<forall>i\<in>set slot_ids. i < NVME_MAX_INFLIGHT \<and> dma_entry_pool (unit_st s2') ! i = 0"
    using D(3) S(2) d(4) by (simp add: s2'_def)
  have "distinct slot_ids" by (simp add: slot_ids_def)
  note p = start_pools_sets_up [OF a this z, of e ?ps n, folded s3_def]
  have "filled NVME_MAX_INFLIGHT (unit_st s3)"
    using S(4) d p a by (auto simp: filled_def s2'_def sets_up_def)
  moreover have "sets_up e ?ps s s3" using S(1) d(1) e2 p by (blast intro: sets_up_trans)
  ultimately show ?thesis using l by blast
qed

lemma UnitTask_Start_outcome:
  assumes "UnitTask_Start e s = (ok, s')" and un: "unstarted (unit_st s)"
  shows "start_outcome e (page_size (ctrl_st s)) s ok s'"
proof -
  let ?ps = "page_size (ctrl_st s)"
  obtain ok1 s1 where r: "start_slots e ?ps slot_ids s = (ok1, s1)" by fastforce
  show ?thesis
  proof (cases ok1)
    case False
    have "sets_up e ?ps s s1" and "filled 0 (unit_st s)"
      using start_slots_sets_up [OF r [unfolded slot_ids_def] unstartedD(1) [OF un]] unstartedD(1) [OF un] by simp_all
    moreover have "start_fail e ?ps s1 = (ok, s')" using assms(1) r False by (simp add: UnitTask_Start_def Let_def)
    moreover have "arrays_ok (unit_st s1)" using calculation by (simp add: sets_up_def filled_def)
    ultimately show ?thesis using start_fail_outcome [where t = s1] start_outcome_after by (metis same_setup_refl)
  next
    case True
    then have "start_slots e ?ps slot_ids s = (True, s1)" using r by simp
    from start_reaches_launch [OF un this] obtain s3 where
      "UnitTask_Start e s = launch_task e ?ps s3" "sets_up e ?ps s s3" "filled NVME_MAX_INFLIGHT (unit_st s3)" by blast
    then show ?thesis using launch_task_outcome [of e ?ps s3 ok s'] assms(1) start_outcome_after by metis
  qed
qed

text \<open>When nothing is refused the start succeeds.\<close>

definition grants_memory :: "env \<Rightarrow> bool" where
  "grants_memory e \<longleftrightarrow> (\<forall>tr n. e_AllocVec e tr n \<noteq> 0) \<and> (\<forall>tr b n fl. e_StartDMA e tr b n fl \<noteq> 0) \<and>
     (\<forall>tr k. e_AllocDMAEntry e tr k \<noteq> 0)"

definition grants_task :: "env \<Rightarrow> bool" where
  "grants_task e \<longleftrightarrow> (\<forall>tr. 0 \<le> e_AllocSignal e tr) \<and> (\<forall>tr. e_CreateTask e tr \<noteq> 0)"

lemma grants_pin: "grants_memory e \<Longrightarrow> \<exists>p ph t. pin_buffer e n fl s = (Some (p, ph), t)"
  by (auto simp: grants_memory_def pin_buffer_def AllocVec_def StartDMA_def AllocEntries_def Let_def)

lemma grants_slot: "grants_memory e \<Longrightarrow> fst (start_slot e ps i s)"
proof -
  assume g: "grants_memory e"
  obtain p ph t where b: "pin_buffer e NVME_BOUNCE_SIZE (k_DMA_ReadFromRAM e) s = (Some (p, ph), t)"
    using grants_pin [OF g] by blast
  obtain q qh u where "pin_buffer e ps (k_DMA_ReadFromRAM e)
      (upd_ram (\<lambda>m. m\<lparr>bounce_mem := (bounce_mem m)(i := \<lambda>_. 0)\<rparr>)
        (upd_unit (\<lambda>u. u\<lparr>bounce_bufs := (bounce_bufs u)[i := p], bounce_phys := (bounce_phys u)[i := ph]\<rparr>) t)) = (Some (q, qh), u)"
    using grants_pin [OF g] by blast
  with b show ?thesis by (simp add: start_slot_def start_bounce_def start_prp_def)
qed

lemma grants_slots: "grants_memory e \<Longrightarrow> fst (start_slots e ps is s)"
proof (induction "is" arbitrary: s)
  case (Cons i "is")
  then show ?case using grants_slot [OF Cons.prems, of ps i s] by (auto split: prod.splits)
qed simp

lemma grants_launch:
  assumes "grants_task e" and "\<forall>tr. e_AllocPort e tr \<noteq> 0"
  shows "fst (launch_task e ps s)"
proof -
  have "\<not> e_AllocSignal e tr < 0" for tr using assms by (simp add: grants_task_def not_less)
  then show ?thesis using assms by (simp add: launch_task_def task_prologue_def Let_def grants_task_def)
qed

lemma UnitTask_Start_succeeds:
  "grants_memory e \<Longrightarrow> grants_task e \<Longrightarrow> \<forall>tr. e_AllocPort e tr \<noteq> 0 \<Longrightarrow> fst (UnitTask_Start e s)"
  using grants_slots [of e "page_size (ctrl_st s)" slot_ids s] grants_launch
  by (auto simp: UnitTask_Start_def Let_def split: prod.splits)

text \<open>A task that comes up without a port: the start fails, and every buffer stays behind.\<close>

lemma filled_held: "filled NVME_MAX_INFLIGHT u \<Longrightarrow> setup_held e ps u \<noteq> {#}"
proof -
  assume f: "filled NVME_MAX_INFLIGHT u"
  then obtain b bs where b: "bounce_bufs u = b # bs" by (cases "bounce_bufs u") (auto simp: filled_def arrays_ok_def NVME_MAX_INFLIGHT_def)
  then have "b \<noteq> 0" using f by (force simp: filled_def NVME_MAX_INFLIGHT_def)
  then show ?thesis using b by (simp add: setup_held_def pins_of_def pinned_def)
qed

lemma portless_launch:
  assumes "grants_task e" and "\<forall>tr. e_AllocPort e tr = 0" and "filled NVME_MAX_INFLIGHT (unit_st s)"
  shows "\<exists>s'. launch_task e ps s = (False, s') \<and> filled NVME_MAX_INFLIGHT (unit_st s')"
proof -
  have "\<not> e_AllocSignal e tr < 0" for tr using assms(1) by (simp add: grants_task_def not_less)
  then show ?thesis using assms by (simp add: launch_task_def task_prologue_def Let_def grants_task_def filled_def arrays_ok_def)
qed

text \<open>
  The leak of a start whose task gets no port: it reports the failure and keeps the buffers,
  which a later start overwrites.
\<close>

lemma portless_start_leaks:
  assumes "grants_memory e" and "grants_task e" and "\<forall>tr. e_AllocPort e tr = 0" and "unstarted (unit_st s)"
  shows "\<exists>s'. UnitTask_Start e s = (False, s') \<and> setup_held e (page_size (ctrl_st s)) (unit_st s') \<noteq> {#}"
proof -
  obtain s1 where "start_slots e (page_size (ctrl_st s)) slot_ids s = (True, s1)"
    using grants_slots [OF assms(1), of "page_size (ctrl_st s)" slot_ids s] by (metis prod.collapse)
  from start_reaches_launch [OF assms(4) this] obtain s3 where
    "UnitTask_Start e s = launch_task e (page_size (ctrl_st s)) s3" "filled NVME_MAX_INFLIGHT (unit_st s3)" by blast
  then show ?thesis using portless_launch [OF assms(2,3)] filled_held by metis
qed

text \<open>
  The shutdown: \<open>asked\<close> is the state in which the task learns of it, and everything the unit
  holds when the task is gone is released.
\<close>

definition asked :: "env \<Rightarrow> drv \<Rightarrow> drv" where
  "asked e s =
     (let bit = e_AllocSignal e (trace s); s1 = log_ev (EvAllocSignal bit) s in
      if bit < 0 then log_ev (EvSignal (unit_task (unit_st s)) SIGBREAKF_CTRL_C)
        (upd_unit (\<lambda>u. u\<lparr>shutdown_ack_task := 0, shutdown_ack_mask := 0, task_shutdown := True\<rparr>) s1)
      else log_ev (EvSignal (unit_task (unit_st s)) SIGBREAKF_CTRL_C) (log_ev EvPermit
        (upd_unit (\<lambda>u. u\<lparr>task_shutdown := True\<rparr>) (log_ev EvForbid
          (upd_unit (\<lambda>u. u\<lparr>shutdown_ack_task := e_this_task e, shutdown_ack_mask := push_bit (nat bit) 1\<rparr>) s1)))))"

lemma setup_held_ack [simp]:
  "setup_held e ps (u\<lparr>shutdown_ack_task := a, shutdown_ack_mask := b\<rparr>) = setup_held e ps u"
  "arrays_ok (u\<lparr>shutdown_ack_task := a, shutdown_ack_mask := b\<rparr>) = arrays_ok u"
  by (simp_all add: setup_held_def arrays_ok_def)

lemma UnitTask_Shutdown_result:
  assumes "unit_task (unit_st s) \<noteq> 0" and "arrays_ok (unit_st (run (asked e s)))"
  defines "t \<equiv> run (asked e s)"
  defines "s' \<equiv> UnitTask_Shutdown e run s"
  shows "if e_AllocSignal e (trace s) < 0 then s' = t
    else moves t s' (setup_held e (page_size (ctrl_st t)) (unit_st t)) {#} \<and> setup_held e (page_size (ctrl_st t)) (unit_st s') = {#}"
proof (cases "e_AllocSignal e (trace s) < 0")
  case True
  then show ?thesis using assms(1) by (simp add: s'_def t_def UnitTask_Shutdown_def asked_def Let_def)
next
  case False
  let ?ps = "page_size (ctrl_st t)"
  define v where "v = upd_unit (\<lambda>u. u\<lparr>shutdown_ack_task := 0, shutdown_ack_mask := 0\<rparr>)
    (log_ev (EvFreeSignal (push_bit (nat (e_AllocSignal e (trace s))) 1)) (log_ev (EvWait (shutdown_ack_mask (unit_st t))) t))"
  have "s' = release_buffers e (page_size (ctrl_st v)) v"
    using False assms(1) by (simp add: s'_def v_def t_def UnitTask_Shutdown_def asked_def Let_def)
  moreover have v: "ctrl_st v = ctrl_st t" "setup_held e ?ps (unit_st v) = setup_held e ?ps (unit_st t)"
    "arrays_ok (unit_st v)" "moves t v R R" for R
    using assms(2) by (simp_all add: v_def t_def)
  moreover note release_buffers_sets_up [OF v(3), of e ?ps]
  ultimately show ?thesis using False by (auto simp: sets_up_def intro: moves_trans)
qed

end
