(* ===== verification/Nvme_Life.thy ===== *)
theory Nvme_Life
  imports Nvme_Start
begin

text \<open>
  The whole life of a unit task: \<open>UnitTask_Start\<close>, any run of the transition system of
  Nvme_System, and \<open>UnitTask_Shutdown\<close> at its end. The first half shows that no operation of
  the running driver changes the identity of the controller, so the sizes with which the
  buffers were pinned are those with which they are released.
\<close>

section \<open>The controller while units run\<close>

text \<open>All but the indices of the admin rings, the write cache setting and the health log.\<close>

definition fixed_of :: "NVMeController \<Rightarrow> NVMeController" where
  "fixed_of c = c\<lparr>admin_sq_tail := 0, admin_cq_head := 0, admin_cq_phase := 0, next_cmd_id := 0,
     vwc_enabled := False, smart_cache := parse_smart (\<lambda>_. 0) 0\<rparr>"

definition same_hw :: "drv \<Rightarrow> drv \<Rightarrow> bool" where
  "same_hw s t \<longleftrightarrow> fixed_of (ctrl_st t) = fixed_of (ctrl_st s)"

lemma same_hw_refl [simp]: "same_hw s s"
  by (simp add: same_hw_def)

lemma same_hw_trans [trans]: "same_hw s t \<Longrightarrow> same_hw t u \<Longrightarrow> same_hw s u"
  by (simp add: same_hw_def)

lemma same_hw_ctrl: "ctrl_st t = ctrl_st s \<Longrightarrow> same_hw s t"
  by (simp add: same_hw_def)

lemma same_hwD: "same_hw s t \<Longrightarrow> page_size (ctrl_st t) = page_size (ctrl_st s)"
  unfolding same_hw_def by (drule arg_cong [of _ _ page_size]) (simp add: fixed_of_def)

lemma same_hw_steps [simp]:
  "same_hw s (log_ev ev t) = same_hw s t" "same_hw s (nvme_w32 a v t) = same_hw s t"
  "same_hw s (ReplyMsg r t) = same_hw s t" "same_hw s (Forbid_Permit t) = same_hw s t"
  "same_hw s (upd_req p f t) = same_hw s t" "same_hw s (upd_scsi p f' t) = same_hw s t"
  "same_hw s (upd_unit g t) = same_hw s t" "same_hw s (upd_stats h t) = same_hw s t"
  "same_hw s (upd_slot i k t) = same_hw s t" "same_hw s (upd_ram m t) = same_hw s t"
  "same_hw s (set_error p err t) = same_hw s t" "same_hw s (wmem a xs t) = same_hw s t"
  "same_hw s (t\<lparr>nsqs := q\<rparr>) = same_hw s t" "same_hw s (t\<lparr>geoms := g1\<rparr>) = same_hw s t"
  "same_hw s (t\<lparr>geoms64 := g2\<rparr>) = same_hw s t"
  by (simp_all add: same_hw_def set_error_def wmem_def)

lemma same_hw_fields [simp]:
  "same_hw s (upd_ctrl (\<lambda>c. c\<lparr>admin_cq_head := f c\<rparr>) t) = same_hw s t"
  "same_hw s (upd_ctrl (\<lambda>c. c\<lparr>admin_cq_phase := g c\<rparr>) t) = same_hw s t"
  "same_hw s (upd_ctrl (\<lambda>c. c\<lparr>next_cmd_id := h c\<rparr>) t) = same_hw s t"
  "same_hw s (upd_ctrl (\<lambda>c. c\<lparr>admin_sq_tail := k c\<rparr>) t) = same_hw s t"
  "same_hw s (upd_ctrl (\<lambda>c. c\<lparr>vwc_enabled := b c\<rparr>) t) = same_hw s t"
  "same_hw s (upd_ctrl (\<lambda>c. c\<lparr>smart_cache := v c\<rparr>) t) = same_hw s t"
  by (simp_all add: same_hw_def fixed_of_def)

text \<open>Admin commands and the health log.\<close>

lemma admin_poll_hw: "same_hw s t \<Longrightarrow> same_hw s (snd (admin_poll e n i t))"
  by (induction n arbitrary: i t)
    (auto simp: Let_def admin_look_def admin_advance_def nvme_r32_def split: prod.splits)

lemma locked_cmd_hw: "same_hw s t \<Longrightarrow> same_hw s (snd (locked_cmd e q t))"
  using admin_poll_hw [of s "admin_issue q (log_ev EvObtain t)" e ADMIN_POLL_ITERS 0]
  by (simp add: locked_cmd_def NVMe_AdminCmd_def admin_issue_def Let_def case_prod_unfold)

lemma smart_fresh_hw [simp]: "same_hw s t \<Longrightarrow> same_hw s (smart_fresh e t)"
  by (simp add: smart_fresh_def NVMe_RefreshSMART_def Let_def case_prod_unfold locked_cmd_hw)

text \<open>Completion and waiting.\<close>

lemma release_dma_ctrl [simp]:
  "ctrl_st (release_dma slot s) = ctrl_st s" "ctrl_st (harvest_cleanup e slot err s) = ctrl_st s"
  by (simp_all add: harvest_cleanup_def release_dma_def end_dma_def Let_def)

lemma harvest_complete_ctrl: "ctrl_st (harvest_complete e slot st s) = ctrl_st s"
  by (simp add: harvest_complete_def Let_def)

lemma harvest_drain_ctrl: "ctrl_st (harvest_drain e s) = ctrl_st s"
proof (induction e s rule: harvest_drain.induct)
  case (1 e s)
  have "ctrl_st (harvest_entry e s) = ctrl_st s"
    by (simp add: harvest_entry_def Let_def harvest_complete_ctrl split: option.splits)
  then show ?case using 1 by (subst harvest_drain.simps) simp
qed

lemma Harvest_hw [simp]: "same_hw s (NVMeIO_Harvest e t) = same_hw s t"
  by (simp add: NVMeIO_Harvest_def same_hw_def harvest_drain_ctrl)

lemma poll_yield_hw [simp]: "same_hw s (poll_yield t) = same_hw s t"
  by (simp add: same_hw_def)

lemma RingSQ_hw [simp]: "same_hw s (NVMeIO_RingSQ t) = same_hw s t"
  by (simp add: same_hw_def)

interpretation hw_poll: polling "NVMeIO_Harvest e" poll_yield "same_hw s" for e s
  by unfold_locales simp_all

interpretation hw_wait: polling "\<lambda>t. t" "\<lambda>t. poll_yield (NVMeIO_Harvest e t)" "same_hw s" for e s
  by unfold_locales simp_all

lemma release_hw [simp]: "same_hw s (release_dma slot t) = same_hw s t"
  by (simp add: same_hw_def)

text \<open>Submission.\<close>

lemma SubmitNoRing_hw: "same_hw s t \<Longrightarrow> same_hw s (snd (NVMeIO_SubmitNoRing e req w t))"
  using SubmitNoRing_frame(1) [of e req w t] by (metis prod.collapse same_hw_ctrl same_hw_trans)

lemma Submit_hw: "same_hw s t \<Longrightarrow> same_hw s (snd (NVMeIO_Submit e req w t))"
  using SubmitNoRing_hw [of s t e req w] by (simp add: NVMeIO_Submit_def case_prod_unfold)

lemma nodata_hw [simp]:
  "same_hw s (reserve_nodata slot req sr t) = same_hw s t" "same_hw s (put_sqe q t) = same_hw s t"
  "same_hw s (stamp_ticks e slot t) = same_hw s t" "same_hw s (advance_tail t) = same_hw s t"
  by (simp_all add: reserve_nodata_def put_sqe_def same_hw_def stamp_ticks_eq)

lemma Flush_hw: "same_hw s t \<Longrightarrow> same_hw s (snd (NVMeIO_Flush e req t))"
  by (simp add: NVMeIO_Flush_def Let_def split: option.splits)

lemma retry_hw:
  assumes "\<And>t. same_hw s t \<Longrightarrow> same_hw s (snd (submit t))" and "same_hw s t"
  shows "same_hw s (snd (submit_retry e submit t))"
proof -
  have w: "same_hw s u \<Longrightarrow> same_hw s (snd (wait_for_free_slot e u))" for u
    by (simp add: wait_for_free_slot_def hw_wait.inv_poll)
  show ?thesis using assms w by (simp add: submit_retry_def case_prod_unfold)
qed

lemma SubmitAndWait_hw: "same_hw s t \<Longrightarrow> same_hw s (snd (NVMeIO_SubmitAndWait e req sqe t))"
proof -
  assume "same_hw s t"
  then have k: "same_hw s (if find_free_slot t = None then snd (poll_until POLL_BUDGET (NVMeIO_Harvest e)
      (\<lambda>t. find_free_slot t \<noteq> None) poll_yield (NVMeIO_RingSQ t)) else t)" (is "same_hw s ?u")
    by (simp add: hw_poll.inv_poll)
  have w: "same_hw s u \<Longrightarrow> same_hw s (snd (saw_wait e req slot u))" for u slot
    using hw_poll.inv_poll [of s u POLL_BUDGET e "\<lambda>t. inf_ioreq (slot_of t slot) = 0"]
    by (auto simp: saw_wait_def split: prod.splits bool.splits)
  show ?thesis
    using k w by (auto simp: NVMeIO_SubmitAndWait_def saw_issue_def Let_def split: option.splits)
qed

text \<open>Reads, writes and flushes.\<close>

lemma rw_chunk_hw: "same_hw s t \<Longrightarrow> same_hw s (snd (rw_chunk e req w oo oa od chunk off t))"
proof -
  assume k: "same_hw s t"
  have w: "same_hw s u \<Longrightarrow> same_hw s (snd (rw_chunk_wait e req slot u))" for u slot
    by (simp add: rw_chunk_wait_def Let_def hw_poll.inv_poll chunk_timeout_def)
  have "same_hw s u \<Longrightarrow> same_hw s (snd (submit_retry e (NVMeIO_Submit e req w) u))" for u w
    by (rule retry_hw [OF Submit_hw])
  then show ?thesis
    using k w by (auto simp: rw_chunk_def Let_def case_prod_unfold split: option.splits)
qed

lemma chunk_loop_hw: "same_hw s t \<Longrightarrow> same_hw s (chunk_loop e req w oo oa od tot mx off t)"
proof (induction e req w oo oa od tot mx off t rule: chunk_loop.induct)
  case (1 e req w oo oa od tot mx off t)
  then show ?case by (subst chunk_loop.simps) (simp add: Let_def rw_chunk_hw)
qed

lemma dispatch_rw_hw: "same_hw s t \<Longrightarrow> same_hw s (dispatch_rw e req w t)"
  using retry_hw [of s "NVMeIO_SubmitNoRing e req w" t e] SubmitNoRing_hw
  by (simp add: dispatch_rw_def dispatch_rw_fast_def dispatch_rw_chunked_def Let_def case_prod_unfold chunk_loop_hw)

lemma dispatch_flush_hw: "same_hw s t \<Longrightarrow> same_hw s (dispatch_flush e req t)"
  using retry_hw [of s "NVMeIO_Flush e req" t e] Flush_hw by (simp add: dispatch_flush_def case_prod_unfold)

text \<open>SCSI commands.\<close>

lemma scsi_ends_hw [simp]:
  "same_hw s (NVMe_SCSI_FillSense sp k a q t) = same_hw s t" "same_hw s (check_condition req sp k a q t) = same_hw s t"
  "same_hw s (scsi_good req sp n t) = same_hw s t" "same_hw s (set_actual sp n t) = same_hw s t"
  "same_hw s (snd (reply_bytes buf n xs t)) = same_hw s t" "same_hw s (inquiry_reply req sp buf n xs t) = same_hw s t"
  "same_hw s (sync_outcome req sp r) = same_hw s (snd r)" "same_hw s (put_attrs enc buf as off t) = same_hw s t"
  subgoal by (simp add: NVMe_SCSI_FillSense_def Let_def)
  subgoal by (simp add: check_condition_def NVMe_SCSI_FillSense_def Let_def)
  subgoal by (simp add: scsi_good_def)
  subgoal by (simp add: set_actual_def)
  subgoal by (simp add: reply_bytes_def Let_def)
  subgoal by (simp add: inquiry_reply_def reply_bytes_def Let_def set_actual_def)
  subgoal by (simp add: sync_outcome_def NVMe_SCSI_FillSense_def scsi_good_def Let_def)
  subgoal by (induction as arbitrary: off t) simp_all
  done

lemma scsi_switch_hw: "same_hw s t \<Longrightarrow> same_hw s (scsi_switch e req sp opc t)"
proof -
  assume k: "same_hw s t"
  have "same_hw s (NVMe_SCSI_HandleLogSense e req t)"
    using k by (simp add: NVMe_SCSI_HandleLogSense_def emit_supported_pages_def emit_ie_page_def Let_def case_prod_unfold)
  moreover have "same_hw s (NVMe_SCSI_HandleATAPassthrough e req t)"
    using k by (simp add: NVMe_SCSI_HandleATAPassthrough_def build_attrs_from_nvme_def Let_def case_prod_unfold)
  moreover have "same_hw s (NVMe_SCSI_HandleUnmap e req t)"
    using k by (simp add: NVMe_SCSI_HandleUnmap_def Let_def SubmitAndWait_hw)
  moreover have "same_hw s (NVMe_SCSI_HandleModeSense e req t)"
    using k by (simp add: NVMe_SCSI_HandleModeSense_def Let_def case_prod_unfold)
  moreover have "same_hw s (NVMe_SCSI_HandleModeSelect e req t)"
    using k by (simp add: NVMe_SCSI_HandleModeSelect_def NVMe_SetFeature_def Let_def case_prod_unfold locked_cmd_hw
        split: option.splits)
  moreover have "same_hw s (handle_inquiry req sp t)" "same_hw s (handle_capacity10 req sp t)"
    "same_hw s (handle_capacity16 req sp t)"
    using k by (simp_all add: handle_inquiry_def handle_capacity10_def handle_capacity16_def Let_def)
  ultimately show ?thesis using k by (simp add: scsi_switch_def SubmitAndWait_hw)
qed

lemma dispatch_ioreq_hw: "same_hw s t \<Longrightarrow> same_hw s (dispatch_ioreq e req t)"
  by (simp add: dispatch_ioreq_def Let_def dispatch_rw_hw dispatch_flush_hw dispatch_geometry_def dispatch_geometry64_def
      handle_scsi_cmd_def scsi_switch_hw)

text \<open>The entry points, and every step.\<close>

lemma inline_hw [simp]:
  "same_hw s (inline_reply req t) = same_hw s t" "same_hw s (finish_inline req n t) = same_hw s t"
  "same_hw s (fail_inline req err t) = same_hw s t" "same_hw s (clear_quick req t) = same_hw s t"
  "same_hw s (PutMsg req t) = same_hw s t" "same_hw s (release_held old err t) = same_hw s t"
  "same_hw s (device_query e req t) = same_hw s t" "same_hw s (hold_changeint req t) = same_hw s t"
  "same_hw s (hold_remove req t) = same_hw s t" "same_hw s (drop_changeint t) = same_hw s t"
  "same_hw s (drop_remove t) = same_hw s t"
  by (simp_all add: inline_reply_def finish_inline_def fail_inline_def clear_quick_def PutMsg_def release_held_def
      device_query_def Let_def hold_changeint_def hold_remove_def drop_changeint_def drop_remove_def)

lemma BeginIO_hw: "same_hw s (manager_BeginIO e req s)"
proof -
  have "same_hw s t \<Longrightarrow> same_hw s (NVMe_HandleGetStats e req t)" for t
    by (simp add: NVMe_HandleGetStats_def nvme_build_snapshot_def Let_def)
  then show ?thesis by (simp add: manager_BeginIO_def begin_switch_def Let_def)
qed

lemma GetMsg_hw: "GetMsg s = (r, t) \<Longrightarrow> same_hw s t"
  by (auto simp: GetMsg_def split: list.splits)

lemma unmask_hw [simp]: "same_hw s (unmask_irq t) = same_hw s t"
  by (simp add: unmask_irq_def)

lemma step_hw: "step e c c' \<Longrightarrow> same_hw (drv_st c) (drv_st c')"
proof (induction rule: step.induct)
  case (abort_io c req)
  show ?case by (simp add: manager_AbortIO_def Let_def)
next
  case (get_msg c t m s')
  then show ?case using GetMsg_hw dispatch_ioreq_hw by fastforce
next
  case (drained c t s')
  then show ?case using GetMsg_hw by (fastforce simp: drain_end_def ring_if_moved_def)
next
  case (exit_msg c m s')
  then show ?case using GetMsg_hw by (fastforce simp: exit_abort_def)
next
  case (exit c s')
  then show ?case using GetMsg_hw by (fastforce simp: task_exit_def Let_def)
qed (simp_all add: BeginIO_hw close_release_def task_yield_def)

section \<open>A run\<close>

text \<open>Once the task is gone it stays gone, its port is closed and empty.\<close>

lemma gone_stays: "step e c c' \<Longrightarrow> pc c = Gone \<Longrightarrow> pc c' = Gone"
  by (induction rule: step.induct) simp_all

lemma gone_stays_run: "(step e)\<^sup>*\<^sup>* c c' \<Longrightarrow> pc c = Gone \<Longrightarrow> pc c' = Gone"
  by (induction rule: rtranclp_induct) (simp_all add: gone_stays)

lemma stepped_run:
  assumes "(step e)\<^sup>*\<^sup>* c c'" and fl: "dma_flags_clear e" and wf: "wf (drv_st c)"
  shows "stepped c c' \<and> same_hw (drv_st c) (drv_st c')"
  using assms(1)
proof (induction rule: rtranclp_induct)
  case base
  show ?case using wf by (auto intro: steppedI [where R = "{#}"])
next
  case (step c1 c2)
  have w: "wf (drv_st c1)" using step.IH by (simp add: stepped_def)
  note p = step_post [OF step.hyps(2) fl w]
  obtain R where R: "accepted c1 = accepted c + R" "conserved (drv_st c) (drv_st c1) R"
    using step.IH by (auto simp: stepped_def)
  obtain Q where Q: "accepted c2 = accepted c1 + Q" "conserved (drv_st c1) (drv_st c2) Q"
    using p by (auto simp: stepped_def)
  have "conserved (drv_st c) (drv_st c2) (R + Q)" by (rule conserved_trans [OF R(2) Q(2)])
  then have "\<exists>R. accepted c2 = accepted c + R \<and> conserved (drv_st c) (drv_st c2) R"
    using R(1) Q(1) by (intro exI [of _ "R + Q"]) (simp add: ac_simps)
  moreover have "pc c2 \<noteq> Gone \<longrightarrow> pc c1 \<noteq> Gone" "pc c = Gone \<longrightarrow> pc c1 = Gone"
    using gone_stays [OF step.hyps(2)] gone_stays_run [OF step.hyps(1)] by blast+
  moreover have "same_hw (drv_st c) (drv_st c2)" using step.IH step_hw [OF step.hyps(2)] same_hw_trans by blast
  ultimately show ?case using step.IH p by (auto simp: stepped_def)
qed

text \<open>No task, no port, nothing queued.\<close>

definition taskless :: "NVMeUnit \<Rightarrow> bool" where
  "taskless u \<longleftrightarrow> io_port u = 0 \<and> port_msgs u = [] \<and> unit_task u = 0"

lemma taskless_core:
  assumes "core_of u' = core_of u"
  shows "taskless u' = taskless u"
  using arg_cong [OF assms, of io_port] arg_cong [OF assms, of port_msgs] arg_cong [OF assms, of unit_task]
  by (simp add: core_of_def taskless_def)

lemma taskless_upd [simp]: "taskless (u\<lparr>task_shutdown := b\<rparr>) = taskless u"
  by (simp add: taskless_def)

definition closed :: "config \<Rightarrow> bool" where
  "closed c \<longleftrightarrow> (pc c = Gone \<longrightarrow> taskless (unit_st (drv_st c)))"

lemma homeD:
  assumes "home_of u' = home_of u"
  shows "io_port u' = io_port u" "unit_task u' = unit_task u"
  using assms [THEN arg_cong, of io_port] assms [THEN arg_cong, of unit_task] by (simp_all add: home_of_def static_of_def)

lemma held_port [simp]:
  "port_msgs (unit_st (hold_changeint req s)) = port_msgs (unit_st s)" "port_msgs (unit_st (hold_remove req s)) = port_msgs (unit_st s)"
  "port_msgs (unit_st (drop_changeint s)) = port_msgs (unit_st s)" "port_msgs (unit_st (drop_remove s)) = port_msgs (unit_st s)"
  "unit_st (inline_reply req s) = unit_st s" "unit_st (clear_quick req s) = unit_st s" "unit_st (release_held old err s) = unit_st s"
  by (simp_all add: hold_changeint_def hold_remove_def drop_changeint_def drop_remove_def inline_reply_def clear_quick_def
      release_held_def Let_def set_error_def)

lemma BeginIO_no_port:
  assumes "io_port (unit_st s) = 0"
  shows "port_msgs (unit_st (manager_BeginIO e req s)) = port_msgs (unit_st s)"
proof -
  have f: "unit_st (smart_fresh e t) = unit_st t" for t
    using smart_fresh_kept [of t e] by (simp add: admin_kept_def)
  have "unit_st (NVMe_HandleGetStats e req t) = unit_st t" for t
    by (simp add: NVMe_HandleGetStats_def nvme_build_snapshot_def Let_def f wmem_def)
  then show ?thesis
    using assms by (simp add: manager_BeginIO_def begin_switch_def Let_def finish_inline_def fail_inline_def device_query_def set_error_def)
qed

lemma closed_step:
  assumes "step e c c'" and "closed c" and "stepped c c'"
  shows "closed c'"
proof -
  have "io_port (unit_st (drv_st c')) = io_port (unit_st (drv_st c)) \<and> unit_task (unit_st (drv_st c')) = unit_task (unit_st (drv_st c))"
    if "pc c = Gone"
  proof -
    have "home_of (unit_st (drv_st c')) = home_of (unit_st (drv_st c))" using assms(3) that by (simp add: stepped_def)
    from homeD [OF this] show ?thesis by simp
  qed
  from assms(1,2) this show ?thesis
  proof (induction rule: step.induct)
    case (begin_io req c s')
    then show ?case by (simp add: closed_def taskless_def BeginIO_no_port)
  next
    case (abort_io c req)
    then show ?case by (simp add: closed_def taskless_def manager_AbortIO_def)
  next
    case (exit c s')
    then show ?case using GetMsg_None [OF exit(2)] by (auto simp: closed_def taskless_def task_exit_def Let_def)
  qed (auto simp: closed_def taskless_def close_release_def)
qed

lemma closed_run:
  assumes "(step e)\<^sup>*\<^sup>* c c'" and "closed c" and fl: "dma_flags_clear e" and wf: "wf (drv_st c)"
  shows "closed c'"
  using assms(1,2)
proof (induction rule: rtranclp_induct)
  case (step c1 c2)
  have "wf (drv_st c1)" using stepped_run [OF step.hyps(1) fl wf] by (simp add: stepped_def)
  then show ?case using closed_step [OF step.hyps(2)] step step_post [OF step.hyps(2) fl] by blast
qed

text \<open>The unit between two lives of its task: nothing set up, no task, no port, nothing queued.\<close>

definition rested :: "drv \<Rightarrow> bool" where
  "rested s \<longleftrightarrow> wf s \<and> unstarted (unit_st s) \<and> taskless (unit_st s)"

text \<open>What the unit carries for its clients: the slots, and the requests that wait.\<close>

definition carried :: "drv \<Rightarrow> token multiset" where
  "carried s = held_slots (inflight (unit_st s)) + mset (map Tok_Req (waiting (unit_st s)))"

lemma conserved_moves: "conserved s t R \<Longrightarrow> moves s t (R + carried s) (carried t)"
  by (simp add: conserved_def moves_def carried_def ac_simps)

lemma bareD:
  assumes "bare_of u' = bare_of u"
  shows "setup_held e ps u' = setup_held e ps u" "arrays_ok u' = arrays_ok u" "unstarted u' = unstarted u"
  using assms [THEN arg_cong, of bounce_bufs] assms [THEN arg_cong, of prp_list_pages]
    assms [THEN arg_cong, of dma_entry_pool] assms [THEN arg_cong, of dsm_buf]
  by (simp_all add: bare_of_def home_of_def static_of_def setup_held_def arrays_ok_def unstarted_def)

text \<open>What names a unit's place: its controller, its queues, and how often it is open.\<close>

definition place_of :: "NVMeUnit \<Rightarrow> u32 \<times> u32 \<times> u32 \<times> u32" where
  "place_of u = (unit_ctrl u, io_sq u, io_cq u, open_count u)"

lemma bare_place:
  assumes "bare_of u' = bare_of u"
  shows "place_of u' = place_of u"
  using assms [THEN arg_cong, of unit_ctrl] assms [THEN arg_cong, of io_sq] assms [THEN arg_cong, of io_cq] assms [THEN arg_cong, of open_count]
  by (simp add: bare_of_def home_of_def static_of_def place_of_def)

lemma task_core_place:
  assumes "task_core u' = task_core u"
  shows "place_of u' = place_of u"
  using assms [THEN arg_cong, of unit_ctrl] assms [THEN arg_cong, of io_sq] assms [THEN arg_cong, of io_cq] assms [THEN arg_cong, of open_count]
  by (simp add: task_core_def core_of_def place_of_def)

section \<open>Start and end of a life\<close>

lemma task_core_waiting:
  assumes "task_core u' = task_core u" and "port_msgs u' = port_msgs u"
  shows "waiting u' = waiting u" "unit_ok u' = unit_ok u" "inflight u' = inflight u"
  using task_coreD [OF assms(1)] assms(2) by (simp_all add: waiting_def unit_ok_def)

text \<open>The task is up: the configuration in which the event loop begins.\<close>

lemma start_wf:
  assumes "start_outcome e ps s ok s'" and "wf s" and "port_msgs (unit_st s') = port_msgs (unit_st s)"
  shows "wf s'" and "carried s' = carried s"
proof -
  have c: "task_core (unit_st s') = task_core (unit_st s)" using assms(1) by (simp add: start_outcome_def)
  note w = task_core_waiting [OF c assms(3)]
  show "wf s'" using assms(2) w by (simp add: wf_def not_inflight_def slot_of_def)
  show "carried s' = carried s" using w by (simp add: carried_def)
qed

text \<open>A start that fails keeps the port closed.\<close>

lemma start_fail_port:
  assumes "start_fail e ps s = (ok, s')" and "arrays_ok (unit_st s)"
  shows "io_port (unit_st s') = io_port (unit_st s)" "port_msgs (unit_st s') = port_msgs (unit_st s)" "unit_task (unit_st s') = unit_task (unit_st s)" "\<not> ok"
proof -
  have "core_of (unit_st s') = core_of (unit_st s)"
    using release_buffers_sets_up(1) [OF assms(2), of e ps] assms(1) by (simp add: start_fail_def sets_up_def)
  from arg_cong [OF this, of io_port] arg_cong [OF this, of port_msgs] arg_cong [OF this, of unit_task]
  show "io_port (unit_st s') = io_port (unit_st s)" "port_msgs (unit_st s') = port_msgs (unit_st s)"
    "unit_task (unit_st s') = unit_task (unit_st s)"
    by (simp_all add: core_of_def)
  show "\<not> ok" using assms(1) by (simp add: start_fail_def)
qed

lemma launch_fail_port:
  assumes r: "launch_task e ps s = (False, s')" and a: "arrays_ok (unit_st s)" and t: "taskless (unit_st s)"
  shows "taskless (unit_st s')"
proof -
  have f: "taskless (unit_st s')" if "start_fail e ps t = (False, s')" "unit_st t = unit_st s \<or> unit_st t = (unit_st s)\<lparr>task_shutdown := False\<rparr>" for t
    using start_fail_port [OF that(1)] that(2) a t by (auto simp: taskless_def arrays_ok_def)
  define s1 where "s1 = log_ev (EvAllocSignal (e_AllocSignal e (trace s))) s"
  define s2 where "s2 = log_ev EvForbid (upd_unit (\<lambda>u. u\<lparr>task_shutdown := False\<rparr>) s1)"
  show ?thesis
  proof (cases "e_AllocSignal e (trace s) < 0")
    case True
    then have "start_fail e ps s1 = (False, s')" using r by (simp add: launch_task_def Let_def s1_def)
    then show ?thesis by (rule f) (simp add: s1_def)
  next
    case g: False
    show ?thesis
    proof (cases "e_CreateTask e (trace s2) = 0")
      case True
      define s4 where "s4 = log_ev (EvFreeSignal (push_bit (nat (e_AllocSignal e (trace s))) 1)) (log_ev EvPermit (log_ev (EvCreateTask 0) s2))"
      have "start_fail e ps s4 = (False, s')" using r g True by (simp add: launch_task_def Let_def s1_def s2_def s4_def)
      then show ?thesis by (rule f) (simp add: s4_def s2_def s1_def)
    next
      case False
      then show ?thesis using r g
        by (auto simp: launch_task_def Let_def s1_def s2_def task_prologue_def taskless_def split: if_splits)
    qed
  qed
qed

lemma start_refused_port:
  assumes "UnitTask_Start e s = (False, s')" and un: "unstarted (unit_st s)" and "taskless (unit_st s)"
  shows "taskless (unit_st s')"
proof -
  let ?ps = "page_size (ctrl_st s)"
  have port: "taskless (unit_st t)" if "sets_up e ?ps s t" for t
  proof -
    have "core_of (unit_st t) = core_of (unit_st s)" using that by (simp add: sets_up_def)
    from taskless_core [OF this] show ?thesis using assms(3) by simp
  qed
  obtain ok1 s1 where r: "start_slots e ?ps slot_ids s = (ok1, s1)" by fastforce
  have u: "sets_up e ?ps s s1" "arrays_ok (unit_st s1)"
    using start_slots_sets_up [OF r [unfolded slot_ids_def] unstartedD(1) [OF un]] unstartedD(1) [OF un]
    by (simp_all add: sets_up_def filled_def)
  show ?thesis
  proof (cases ok1)
    case False
    then have f: "start_fail e ?ps s1 = (False, s')" using assms(1) r by (simp add: UnitTask_Start_def Let_def)
    show ?thesis using start_fail_port [OF f u(2)] port [OF u(1)] by (simp add: taskless_def)
  next
    case True
    then have "start_slots e ?ps slot_ids s = (True, s1)" using r by simp
    from start_reaches_launch [OF un this] obtain s3 where l: "UnitTask_Start e s = launch_task e ?ps s3"
      "sets_up e ?ps s s3" "filled NVME_MAX_INFLIGHT (unit_st s3)" by blast
    show ?thesis by (rule launch_fail_port [where s = s3]) (use l assms(1) port [OF l(2)] in \<open>simp_all add: filled_def\<close>)
  qed
qed

text \<open>A unit with nothing set up has empty arrays.\<close>

lemma nothing_held: "arrays_ok u \<Longrightarrow> setup_held e ps u = {#} \<Longrightarrow> unstarted u"
proof -
  assume a: "arrays_ok u" and h: "setup_held e ps u = {#}"
  have z: "xs = replicate (length xs) 0" if "\<forall>x\<in>set xs. x = 0" for xs :: "u32 list"
    using that by (induction xs) auto
  have p: "pins_of n fl xs = {#} \<Longrightarrow> \<forall>x\<in>set xs. x = 0" for n fl xs
    by (induction xs) (auto simp: pins_of_def pinned_def split: if_splits)
  have d: "pools_of xs = {#} \<Longrightarrow> \<forall>x\<in>set xs. x = 0" for xs
    by (induction xs) (auto simp: pools_of_def tok_if_def split: if_splits)
  have "dsm_buf u = 0" using h by (auto simp: setup_held_def pinned_def split: if_splits)
  moreover have "bounce_bufs u = replicate NVME_MAX_INFLIGHT 0" "prp_list_pages u = replicate NVME_MAX_INFLIGHT 0"
    using z [OF p, of NVME_BOUNCE_SIZE "k_DMA_ReadFromRAM e" "bounce_bufs u"] z [OF p, of ps "k_DMA_ReadFromRAM e" "prp_list_pages u"] a h
    by (simp_all add: arrays_ok_def setup_held_def)
  moreover have "dma_entry_pool u = replicate NVME_MAX_INFLIGHT 0"
    using z [OF d, of "dma_entry_pool u"] a h by (simp add: arrays_ok_def setup_held_def)
  ultimately show "unstarted u" by (simp add: unstarted_def)
qed

text \<open>What the request for the end changes of the unit: the caller to acknowledge.\<close>

lemma asked_kept:
  "wf (asked e s) = wf s" "carried (asked e s) = carried s" "conserved s (asked e s) {#}"
  "setup_held e ps (unit_st (asked e s)) = setup_held e ps (unit_st s)" "arrays_ok (unit_st (asked e s)) = arrays_ok (unit_st s)"
  "ctrl_st (asked e s) = ctrl_st s" "place_of (unit_st (asked e s)) = place_of (unit_st s)"
  by (simp_all add: asked_def Let_def wf_def place_of_def carried_def conserved_def waiting_def unit_ok_def not_inflight_def slot_of_def
      setup_held_def arrays_ok_def)

text \<open>The release at the end leaves the slots and the waiting requests as they are.\<close>

lemma shutdown_rests:
  assumes "unit_task (unit_st s) \<noteq> 0" and "0 \<le> e_AllocSignal e (trace s)" and t: "wf t" "arrays_ok (unit_st t)" "taskless (unit_st t)"
  defines "s' \<equiv> UnitTask_Shutdown e (\<lambda>_. t) s"
  shows "rested s'" and "carried s' = carried t" and "moves t s' (setup_held e (page_size (ctrl_st t)) (unit_st t) + R) R"
    and "ctrl_st s' = ctrl_st t" and "place_of (unit_st s') = place_of (unit_st t)"
proof -
  let ?ps = "page_size (ctrl_st t)"
  define v where "v = upd_unit (\<lambda>u. u\<lparr>shutdown_ack_task := 0, shutdown_ack_mask := 0\<rparr>)
    (log_ev (EvFreeSignal (push_bit (nat (e_AllocSignal e (trace s))) 1)) (log_ev (EvWait (shutdown_ack_mask (unit_st t))) t))"
  have s': "s' = release_buffers e ?ps v"
    using assms(1,2) by (simp add: s'_def v_def UnitTask_Shutdown_def Let_def)
  have v: "wf v = wf t" "carried v = carried t" "arrays_ok (unit_st v)" "taskless (unit_st v)"
    by (simp_all add: v_def t(2)) (use t(3) in \<open>simp_all add: wf_def carried_def waiting_def unit_ok_def not_inflight_def slot_of_def taskless_def\<close>)
  note r = release_buffers_sets_up [OF v(3), of e ?ps, folded s']
  have c: "core_of (unit_st s') = core_of (unit_st v)" using r(1) by (simp add: sets_up_def)
  show "ctrl_st s' = ctrl_st t" using r(1) by (simp add: sets_up_def v_def)
  have "place_of (unit_st v) = place_of (unit_st t)" by (simp add: v_def place_of_def)
  then show "place_of (unit_st s') = place_of (unit_st t)" using task_core_place [OF core_task_core [OF c]] by simp
  have "taskless (unit_st s')" using taskless_core [OF c] v(4) by simp
  then have p: "taskless (unit_st s')" "port_msgs (unit_st s') = port_msgs (unit_st v)" using v(4) by (simp_all add: taskless_def)
  note w = task_core_waiting [OF core_task_core [OF c] p(2)]
  have "unstarted (unit_st s')" by (rule nothing_held [OF _ r(2)]) (use r(1) v(3) in \<open>simp add: sets_up_def\<close>)
  moreover have "wf s' = wf v" using w by (simp add: wf_def not_inflight_def slot_of_def)
  ultimately show "rested s'" using p v t(1) by (simp add: rested_def)
  show "carried s' = carried t" using w v(2) by (simp add: carried_def)
  have "if e_AllocSignal e (trace s) < 0 then s' = t
    else moves t s' (setup_held e ?ps (unit_st t)) {#} \<and> setup_held e ?ps (unit_st s') = {#}"
    using UnitTask_Shutdown_result [of s "\<lambda>_. t" e] assms(1) t(2) by (simp add: s'_def)
  then show "moves t s' (setup_held e ?ps (unit_st t) + R) R" using assms(2) moves_frame [of t s' _ "{#}" R] by simp
qed

end
