(* ===== verification/Nvme_Lives.thy ===== *)
theory Nvme_Lives
  imports Nvme_Life
begin

text \<open>
  The history of a unit as a sequence of lives of its task: the relation \<open>lives\<close> composes the
  start (Nvme_Start), the runs of the transition system (Nvme_System) and the shutdown, and
  \<open>accounted\<close> is the account that every such history keeps.
\<close>

section \<open>Life after life\<close>

text \<open>
  What can happen to a unit from its discovery on: starts that fail and release what they
  took, steps of the clients and the device while no task runs, and whole lives of a task, from
  \<open>UnitTask_Start\<close> over a run of the transition system to a \<open>UnitTask_Shutdown\<close> that gets its
  signal bit. The multiset collects what \<open>BeginIO\<close> accepted.
\<close>

inductive lives :: "env \<Rightarrow> drv \<Rightarrow> token multiset \<Rightarrow> drv \<Rightarrow> bool" for e s0 where
  none: "lives e s0 {#} s0"
| refused: "lives e s0 A s \<Longrightarrow> UnitTask_Start e s = (False, s') \<Longrightarrow>
     setup_held e (page_size (ctrl_st s)) (unit_st s') = {#} \<Longrightarrow> lives e s0 A s'"
| between: "lives e s0 A s \<Longrightarrow> (step e)\<^sup>*\<^sup>* \<lparr>pc = Gone, drv_st = s, accepted = {#}\<rparr> c \<Longrightarrow>
     lives e s0 (A + accepted c) (drv_st c)"
| life: "lives e s0 A s \<Longrightarrow> UnitTask_Start e s = (True, s1) \<Longrightarrow>
     (step e)\<^sup>*\<^sup>* \<lparr>pc = Top, drv_st = s1, accepted = {#}\<rparr> c \<Longrightarrow> pc c \<noteq> Gone \<Longrightarrow>
     0 \<le> e_AllocSignal e (trace (drv_st c)) \<Longrightarrow>
     (step e)\<^sup>*\<^sup>* (c\<lparr>drv_st := asked e (drv_st c)\<rparr>) c' \<Longrightarrow> pc c' = Gone \<Longrightarrow>
     lives e s0 (A + accepted c') (UnitTask_Shutdown e (\<lambda>_. drv_st c') (drv_st c))"

section \<open>The account\<close>

definition accounted :: "drv \<Rightarrow> token multiset \<Rightarrow> drv \<Rightarrow> bool" where
  "accounted s0 A s \<longleftrightarrow> rested s \<and> moves s0 s (A + carried s0) (carried s)"

lemma accounted_next:
  assumes "accounted s0 A s" and "rested t" and "moves s t (B + carried s) (carried t)"
  shows "accounted s0 (A + B) t"
proof -
  have "moves s0 s ((A + B) + carried s0) (B + carried s)"
    using moves_frame [of s0 s "A + carried s0" "carried s" B] assms(1) by (simp add: accounted_def ac_simps)
  from moves_trans [OF this assms(3)] show ?thesis using assms(2) by (simp add: accounted_def)
qed

lemma refused_rests:
  assumes r: "rested s" and st: "UnitTask_Start e s = (False, s')"
    and h: "setup_held e (page_size (ctrl_st s)) (unit_st s') = {#}"
  shows "rested s'" and "moves s s' (carried s) (carried s')"
proof -
  have un: "unstarted (unit_st s)" "wf s" "taskless (unit_st s)" using r by (simp_all add: rested_def)
  note o = UnitTask_Start_outcome [OF st un(1)]
  note p = start_refused_port [OF st un(1,3)]
  have w: "wf s'" "carried s' = carried s" using start_wf [OF o un(2)] p un(3) by (simp_all add: taskless_def)
  have "unstarted (unit_st s')"
    by (rule nothing_held [OF _ h]) (use o unstartedD(1) [OF un(1)] in \<open>simp add: start_outcome_def filled_def\<close>)
  then show "rested s'" using w p by (simp add: rested_def)
  show "moves s s' (carried s) (carried s')"
    using o h unstartedD(2) [OF un(1)] moves_frame [of s s' "{#}" "{#}" "carried s"] w(2) by (simp add: start_outcome_def)
qed

text \<open>A run from \<open>c\<close>, read as a movement of what the unit carries.\<close>

lemma run_moves:
  assumes "(step e)\<^sup>*\<^sup>* c c'" and "dma_flags_clear e" and "wf (drv_st c)" and "accepted c = {#}"
  shows "wf (drv_st c')" and "moves (drv_st c) (drv_st c') (accepted c' + carried (drv_st c)) (carried (drv_st c'))"
    and "bare_of (unit_st (drv_st c')) = bare_of (unit_st (drv_st c))"
    and "pc c' \<noteq> Gone \<or> pc c = Gone \<Longrightarrow> home_of (unit_st (drv_st c')) = home_of (unit_st (drv_st c))"
    and "page_size (ctrl_st (drv_st c')) = page_size (ctrl_st (drv_st c))"
proof -
  note r = stepped_run [OF assms(1-3)]
  then show "wf (drv_st c')" "bare_of (unit_st (drv_st c')) = bare_of (unit_st (drv_st c))"
    "pc c' \<noteq> Gone \<or> pc c = Gone \<Longrightarrow> home_of (unit_st (drv_st c')) = home_of (unit_st (drv_st c))"
    by (simp_all add: stepped_def)
  show "page_size (ctrl_st (drv_st c')) = page_size (ctrl_st (drv_st c))" using r same_hwD by blast
  obtain R where "accepted c' = R" "conserved (drv_st c) (drv_st c') R" using r assms(4) by (auto simp: stepped_def)
  then show "moves (drv_st c) (drv_st c') (accepted c' + carried (drv_st c)) (carried (drv_st c'))"
    using conserved_moves by blast
qed

lemma between_rests:
  assumes r: "rested s" and run: "(step e)\<^sup>*\<^sup>* \<lparr>pc = Gone, drv_st = s, accepted = {#}\<rparr> c" and fl: "dma_flags_clear e"
  shows "rested (drv_st c)" and "moves s (drv_st c) (accepted c + carried s) (carried (drv_st c))"
proof -
  have wf: "wf (drv_st \<lparr>pc = Gone, drv_st = s, accepted = {#}\<rparr>)" using r by (simp add: rested_def)
  note m = run_moves [OF run fl wf, simplified]
  show "moves s (drv_st c) (accepted c + carried s) (carried (drv_st c))" by (rule m(2))
  have "closed \<lparr>pc = Gone, drv_st = s, accepted = {#}\<rparr>" using r by (simp add: closed_def rested_def)
  then have "closed c" by (rule closed_run [OF run _ fl wf])
  moreover have "pc c = Gone" using gone_stays_run [OF run] by simp
  ultimately show "rested (drv_st c)" using m(1) bareD(3) [OF m(3)] r by (simp add: rested_def closed_def)
qed

text \<open>The end of a life, from a unit with a running task.\<close>

lemma end_rests:
  assumes wf: "wf s" and a: "arrays_ok (unit_st s)" and task: "unit_task (unit_st s) \<noteq> 0"
    and sig: "0 \<le> e_AllocSignal e (trace s)" and fl: "dma_flags_clear e"
    and stop: "(step e)\<^sup>*\<^sup>* c c'" and c: "drv_st c = asked e s" "pc c \<noteq> Gone" and gone: "pc c' = Gone"
  defines "s' \<equiv> UnitTask_Shutdown e (\<lambda>_. drv_st c') s"
  shows "rested s'" and "same_hw s s'" and "place_of (unit_st s') = place_of (unit_st s)"
    and "\<exists>R. accepted c' = accepted c + R \<and> moves s s' (R + (setup_held e (page_size (ctrl_st s)) (unit_st s) + carried s)) (carried s')"
proof -
  let ?ps = "page_size (ctrl_st s)" and ?t = "drv_st c'"
  have wfa: "wf (drv_st c)" using wf asked_kept(1) c by simp
  have "closed c" using c by (simp add: closed_def)
  from closed_run [OF stop this fl wfa] gone have port: "taskless (unit_st ?t)" by (simp add: closed_def)
  note sr = stepped_run [OF stop fl wfa, unfolded c]
  obtain R where R: "accepted c' = accepted c + R" "conserved (asked e s) ?t R" using sr c by (auto simp: stepped_def)
  have b: "bare_of (unit_st ?t) = bare_of (unit_st (asked e s))" and wf': "wf ?t" using sr c by (simp_all add: stepped_def)
  have ps: "page_size (ctrl_st ?t) = ?ps" using sr same_hwD [of "asked e s" ?t] by (simp add: asked_kept)
  have h: "setup_held e ?ps (unit_st ?t) = setup_held e ?ps (unit_st s)" "arrays_ok (unit_st ?t)"
    using bareD [OF b] a by (simp_all add: asked_kept)
  note q = shutdown_rests [OF task sig wf' h(2) port, folded s'_def]
  show "rested s'" by (rule q(1))
  show "same_hw s s'" using sr q(4) by (simp add: same_hw_def asked_kept)
  show "place_of (unit_st s') = place_of (unit_st s)" using q(5) bare_place [OF b] asked_kept(7) [of e s] by simp
  let ?H = "setup_held e ?ps (unit_st s)"
  have "moves s (asked e s) (R + (?H + carried s)) (R + (?H + carried (asked e s)))"
    using moves_frame [OF conserved_moves [OF asked_kept(3) [of s e]], of "R + ?H"] by (simp add: ac_simps)
  also have "moves (asked e s) ?t (R + (?H + carried (asked e s))) (?H + carried ?t)"
    using moves_frame [OF conserved_moves [OF R(2)], of ?H] by (simp add: ac_simps)
  also have "moves ?t s' (?H + carried ?t) (carried s')" using q(3) [of "carried ?t"] unfolding ps h(1) q(2) .
  finally show "\<exists>R. accepted c' = accepted c + R \<and> moves s s' (R + (?H + carried s)) (carried s')" using R(1) by blast
qed

lemma life_rests:
  assumes r: "rested s" and st: "UnitTask_Start e s = (True, s1)" and fl: "dma_flags_clear e"
    and run: "(step e)\<^sup>*\<^sup>* \<lparr>pc = Top, drv_st = s1, accepted = {#}\<rparr> c" and live: "pc c \<noteq> Gone"
    and sig: "0 \<le> e_AllocSignal e (trace (drv_st c))"
    and stop: "(step e)\<^sup>*\<^sup>* (c\<lparr>drv_st := asked e (drv_st c)\<rparr>) c'" and gone: "pc c' = Gone"
  defines "s' \<equiv> UnitTask_Shutdown e (\<lambda>_. drv_st c') (drv_st c)"
  shows "rested s'" and "moves s s' (accepted c' + carried s) (carried s')"
proof -
  let ?ps = "page_size (ctrl_st s)" and ?H = "setup_held e (page_size (ctrl_st s)) (unit_st s1)"
  have un: "unstarted (unit_st s)" "wf s" "port_msgs (unit_st s) = []" using r by (simp_all add: rested_def taskless_def)
  note o = UnitTask_Start_outcome [OF st un(1)]
  have s1: "port_msgs (unit_st s1) = port_msgs (unit_st s)" "unit_task (unit_st s1) \<noteq> 0" "ctrl_st s1 = ctrl_st s"
    "arrays_ok (unit_st s1)" "moves s s1 {#} ?H"
    using o un(3) unstartedD(1,2) [OF un(1)] by (simp_all add: start_outcome_def filled_def)
  note w1 = start_wf [OF o un(2) s1(1)]
  have wf1: "wf (drv_st \<lparr>pc = Top, drv_st = s1, accepted = {#}\<rparr>)" using w1 by simp
  note m = run_moves [OF run fl wf1, simplified]
  have "home_of (unit_st (drv_st c)) = home_of (unit_st s1)" using m(4) live by simp
  then have task: "unit_task (unit_st (drv_st c)) \<noteq> 0" using homeD(2) s1(2) by metis
  have a: "arrays_ok (unit_st (drv_st c))" using bareD(2) [OF m(3)] s1(4) by simp
  have h: "setup_held e (page_size (ctrl_st (drv_st c))) (unit_st (drv_st c)) = ?H" using bareD(1) [OF m(3)] m(5) s1(3) by simp
  note q = end_rests [OF m(1) a task sig fl stop _ _ gone, simplified, folded s'_def]
  show "rested s'" using q(1) live by simp
  obtain R where R: "accepted c' = accepted c + R" "moves (drv_st c) s' (R + (?H + carried (drv_st c))) (carried s')"
    using q(4) live h by auto
  have "moves s s1 (accepted c' + carried s) (?H + (accepted c' + carried s))" using moves_from [OF s1(5)] .
  also have "moves s1 (drv_st c) (?H + (accepted c' + carried s)) (R + (?H + carried (drv_st c)))"
    using moves_frame [OF m(2), of "R + ?H"] R(1) w1(2) by (simp add: ac_simps)
  also note R(2)
  finally show "moves s s' (accepted c' + carried s) (carried s')" .
qed

lemma lives_accounted:
  assumes "lives e s0 A s" and "rested s0" and fl: "dma_flags_clear e"
  shows "accounted s0 A s"
  using assms(1)
proof (induction rule: lives.induct)
  case none
  show ?case using assms(2) by (simp add: accounted_def)
next
  case (refused A s s')
  then have "rested s" by (simp add: accounted_def)
  note r = refused_rests [OF this refused.hyps(2,3)]
  show ?case using accounted_next [OF refused.IH r(1), of "{#}"] r(2) by simp
next
  case (between A s c)
  then have "rested s" by (simp add: accounted_def)
  note r = between_rests [OF this between.hyps(2) fl]
  show ?case by (rule accounted_next [OF between.IH r])
next
  case (life A s s1 c c')
  then have "rested s" by (simp add: accounted_def)
  note r = life_rests [OF this life.hyps(2) fl life.hyps(3-7)]
  show ?case by (rule accounted_next [OF life.IH r])
qed

end
