(* ===== verification/Nvme_Init.thy ===== *)
theory Nvme_Init
  imports Nvme_Resources
begin

text \<open>
  Bring-up and cleanup of a controller (src/src/nvme/nvme_init.c). \<open>InitNVMe\<close> is a sequence of
  stages, each of which may take the jump to \<open>err\<close>; the local flags of the C function, which
  tell the error path what has to be undone, are the record \<open>bringup\<close>.
\<close>

section \<open>Budgets and register polls\<close>

definition NVME_READY_POLL_ITERS :: u32 where "NVME_READY_POLL_ITERS = 5000000"
definition NVME_READY_POLL_CAP :: u32 where "NVME_READY_POLL_CAP = 60000000"

definition ready_poll_budget :: "u32 \<Rightarrow> u32" where
  "ready_poll_budget cap_lo =
     (let scaled = (NVME_CAP_TO cap_lo + 1) * 1000000;
          s1 = (if scaled < NVME_READY_POLL_ITERS then NVME_READY_POLL_ITERS else scaled)
      in if s1 > NVME_READY_POLL_CAP then NVME_READY_POLL_CAP else s1)"

text \<open>The loops on CSTS: read until the value decides, at most \<open>n\<close> times.\<close>

primrec poll_csts :: "env \<Rightarrow> (u32 \<Rightarrow> bool option) \<Rightarrow> nat \<Rightarrow> drv \<Rightarrow> bool \<times> drv" where
  "poll_csts e verdict 0 s = (False, s)"
| "poll_csts e verdict (Suc n) s =
     (case nvme_r32 e (iobase (ctrl_st s) + NVME_REG_CSTS) s of (v, s1) \<Rightarrow>
        (case verdict v of Some ok \<Rightarrow> (ok, s1) | None \<Rightarrow> poll_csts e verdict n s1))"

definition disabled :: "u32 \<Rightarrow> bool option" where
  "disabled csts = (if csts AND NVME_CSTS_RDY = 0 then Some True else None)"

definition enabled :: "u32 \<Rightarrow> bool option" where
  "enabled csts =
     (if csts AND NVME_CSTS_CFS \<noteq> 0 then Some False
      else if csts AND NVME_CSTS_RDY \<noteq> 0 then Some True else None)"

definition shut_down :: "u32 \<Rightarrow> bool option" where
  "shut_down csts = (if NVME_CSTS_SHST csts = 2 then Some True else None)"

section \<open>InitNVMe\<close>

record bringup =
  have_sq_vec :: bool
  have_cq_vec :: bool
  have_sq_dma :: bool
  have_cq_dma :: bool
  have_id_vec :: bool
  have_id_dma :: bool

definition sq_bytes :: u32 where "sq_bytes = of_nat NVME_ADMIN_QUEUE_DEPTH * of_nat NVME_SQE_SIZE"
definition cq_bytes :: u32 where "cq_bytes = of_nat NVME_ADMIN_QUEUE_DEPTH * of_nat NVME_CQE_SIZE"
definition id_bytes :: u32 where "id_bytes = 4096"

type_synonym stage = "bringup \<times> drv \<Rightarrow> bool \<times> bringup \<times> drv"

text \<open>Step 1: the parameters of the controller, from CAP.\<close>

definition caps_of :: "u32 \<Rightarrow> u32 \<Rightarrow> NVMeController \<Rightarrow> NVMeController" where
  "caps_of cap_lo cap_hi c =
     (let mqes = NVME_CAP_MQES cap_lo + 1 in
      c\<lparr>cap_mqes := mqes, cap_dstrd := NVME_CAP_DSTRD cap_lo,
        page_size := push_bit (unat (NVME_CAP_MPSMIN_HI cap_hi)) 4096,
        io_queue_depth := (if mqes < of_nat NVME_IO_QUEUE_DEPTH then ucast mqes else of_nat NVME_IO_QUEUE_DEPTH)\<rparr>)"

definition read_caps :: "env \<Rightarrow> drv \<Rightarrow> u32 \<times> u32 \<times> drv" where
  "read_caps e s =
     (case nvme_r32 e (iobase (ctrl_st s) + NVME_REG_CAP_LO) s of (cap_lo, s1) \<Rightarrow>
      case nvme_r32 e (iobase (ctrl_st s1) + NVME_REG_CAP_HI) s1 of (cap_hi, s2) \<Rightarrow>
        (cap_lo, cap_hi, upd_ctrl (caps_of cap_lo cap_hi) s2))"

text \<open>Step 2: disable the controller if it is enabled, and wait for RDY = 0.\<close>

definition stage_disable :: "env \<Rightarrow> nat \<Rightarrow> stage" where
  "stage_disable e iters = (\<lambda>(b, s).
     case nvme_r32 e (iobase (ctrl_st s) + NVME_REG_CC) s of (cc, s1) \<Rightarrow>
       if cc AND NVME_CC_EN \<noteq> 0 then
         (case poll_csts e disabled iters
              (nvme_w32 (iobase (ctrl_st s1) + NVME_REG_CC) (cc AND NOT NVME_CC_EN) s1) of
            (ok, s2) \<Rightarrow> (ok, b, s2))
       else (True, b, s1))"

text \<open>Step 3: the admin queues; memory that is allocated with a clear value is zero.\<close>

definition stage_alloc_sq :: "env \<Rightarrow> stage" where
  "stage_alloc_sq e = (\<lambda>(b, s).
     case AllocVec e sq_bytes s of (p, s1) \<Rightarrow>
       let s2 = upd_ctrl (\<lambda>c. c\<lparr>admin_sq := p\<rparr>) s1 in
       if p = 0 then (False, b, s2)
       else (True, b\<lparr>have_sq_vec := True\<rparr>, upd_ram (\<lambda>m. m\<lparr>asq_mem := (\<lambda>_. 0)\<rparr>) s2))"

definition stage_alloc_cq :: "env \<Rightarrow> stage" where
  "stage_alloc_cq e = (\<lambda>(b, s).
     case AllocVec e cq_bytes s of (p, s1) \<Rightarrow>
       let s2 = upd_ctrl (\<lambda>c. c\<lparr>admin_cq := p\<rparr>) s1 in
       if p = 0 then (False, b, s2)
       else (True, b\<lparr>have_cq_vec := True\<rparr>, upd_ram (\<lambda>m. m\<lparr>acq_mem := (\<lambda>_. 0)\<rparr>) s2))"

definition stage_map_sq :: "env \<Rightarrow> stage" where
  "stage_map_sq e = (\<lambda>(b, s).
     let p = admin_sq (ctrl_st s); fl = k_DMA_ReadFromRAM e; b1 = b\<lparr>have_sq_dma := True\<rparr> in
     case StartDMA e p sq_bytes fl s of (k, s1) \<Rightarrow>
       if k = 0 then (False, b1, s1)
       else case AllocEntries e k s1 of (d, s2) \<Rightarrow>
         let s3 = upd_ctrl (\<lambda>c. c\<lparr>admin_sq_dma := d\<rparr>) s2 in
         if d = 0 then (False, b1, s3)
         else (True, b1, upd_ctrl (\<lambda>c. c\<lparr>admin_sq_phys := first_phys e p sq_bytes fl s3\<rparr>) s3))"

definition stage_map_cq :: "env \<Rightarrow> stage" where
  "stage_map_cq e = (\<lambda>(b, s).
     let p = admin_cq (ctrl_st s); b1 = b\<lparr>have_cq_dma := True\<rparr> in
     case StartDMA e p cq_bytes 0 s of (k, s1) \<Rightarrow>
       if k = 0 then (False, b1, s1)
       else case AllocEntries e k s1 of (d, s2) \<Rightarrow>
         let s3 = upd_ctrl (\<lambda>c. c\<lparr>admin_cq_dma := d\<rparr>) s2 in
         if d = 0 then (False, b1, s3)
         else (True, b1, upd_ctrl (\<lambda>c. c\<lparr>admin_cq_phys := first_phys e p cq_bytes 0 s3\<rparr>) s3))"

text \<open>Steps 4 and 5: the rings, the registers, the enable bit, and RDY = 1.\<close>

definition program_admin :: "u32 \<Rightarrow> drv \<Rightarrow> drv" where
  "program_admin mpsmin s =
     (let s1 = upd_ctrl (\<lambda>c. c\<lparr>admin_sq_tail := 0, admin_cq_head := 0, admin_cq_phase := 1, next_cmd_id := 1\<rparr>) s;
          base = iobase (ctrl_st s1); depth = of_nat NVME_ADMIN_QUEUE_DEPTH;
          s2 = nvme_w32 (base + NVME_REG_ASQ_LO) (admin_sq_phys (ctrl_st s1)) s1;
          s3 = nvme_w32 (base + NVME_REG_ASQ_HI) 0 s2;
          s4 = nvme_w32 (base + NVME_REG_ACQ_LO) (admin_cq_phys (ctrl_st s1)) s3;
          s5 = nvme_w32 (base + NVME_REG_ACQ_HI) 0 s4;
          s6 = nvme_w32 (base + NVME_REG_AQA) (NVME_AQA_ASQS depth OR NVME_AQA_ACQS depth) s5
      in nvme_w32 (base + NVME_REG_CC) (NVME_CC_DEFAULT OR NVME_CC_MPS mpsmin OR NVME_CC_EN) s6)"

definition stage_enable :: "env \<Rightarrow> u32 \<Rightarrow> nat \<Rightarrow> stage" where
  "stage_enable e mpsmin iters = (\<lambda>(b, s).
     case poll_csts e enabled iters (program_admin mpsmin s) of (ok, s1) \<Rightarrow>
       if ok then (True, b, nvme_w32 (iobase (ctrl_st s1) + NVME_REG_INTMS) 0xFFFFFFFF s1) else (False, b, s1))"

text \<open>Steps 6 and 7: the scratch buffer, and Identify Controller.\<close>

definition stage_alloc_id :: "env \<Rightarrow> stage" where
  "stage_alloc_id e = (\<lambda>(b, s).
     case AllocVec e id_bytes s of (p, s1) \<Rightarrow>
       let s2 = upd_ctrl (\<lambda>c. c\<lparr>identify_buf := p\<rparr>) s1 in
       if p = 0 then (False, b, s2)
       else (True, b\<lparr>have_id_vec := True\<rparr>, upd_ram (\<lambda>m. m\<lparr>id_mem := (\<lambda>_. 0)\<rparr>) s2))"

definition stage_map_id :: "env \<Rightarrow> stage" where
  "stage_map_id e = (\<lambda>(b, s).
     let p = identify_buf (ctrl_st s); b1 = b\<lparr>have_id_dma := True\<rparr> in
     case StartDMA e p id_bytes 0 s of (k, s1) \<Rightarrow>
       if k = 0 then (False, b1, s1)
       else case AllocEntries e k s1 of (d, s2) \<Rightarrow>
         let s3 = upd_ctrl (\<lambda>c. c\<lparr>identify_dma := d\<rparr>) s2 in
         if d = 0 then (False, b1, s3)
         else (True, b1, upd_ctrl (\<lambda>c. c\<lparr>identify_phys := first_phys e p id_bytes 0 s3\<rparr>) s3))"

definition stage_identify :: "env \<Rightarrow> stage" where
  "stage_identify e = (\<lambda>(b, s). case NVMe_IdentifyController e s of (ok, s1) \<Rightarrow> (ok, b, s1))"

primrec run_stages :: "stage list \<Rightarrow> stage" where
  "run_stages [] x = (True, x)"
| "run_stages (f # fs) x = (case f x of (ok, y) \<Rightarrow> if ok then run_stages fs y else (False, y))"

text \<open>The code at \<open>err\<close>: the resources in reverse order, each if it is there.\<close>

definition release_entries :: "(NVMeController \<Rightarrow> u32) \<Rightarrow> (NVMeController \<Rightarrow> NVMeController) \<Rightarrow> drv \<Rightarrow> drv" where
  "release_entries get clear s =
     (if get (ctrl_st s) \<noteq> 0 then upd_ctrl clear (FreeEntries (get (ctrl_st s)) s) else s)"

definition release_vec :: "bool \<Rightarrow> (NVMeController \<Rightarrow> u32) \<Rightarrow> (NVMeController \<Rightarrow> NVMeController) \<Rightarrow> drv \<Rightarrow> drv" where
  "release_vec have get clear s = (if have then upd_ctrl clear (FreeVec (get (ctrl_st s)) s) else s)"

definition release_pin :: "bool \<Rightarrow> (NVMeController \<Rightarrow> u32) \<Rightarrow> u32 \<Rightarrow> u32 \<Rightarrow> drv \<Rightarrow> drv" where
  "release_pin have get n fl s = (if have then EndDMA (get (ctrl_st s)) n fl s else s)"

definition init_err :: "env \<Rightarrow> bringup \<Rightarrow> drv \<Rightarrow> drv" where
  "init_err e b s0 =
     (let s1 = release_entries identify_dma (\<lambda>c. c\<lparr>identify_dma := 0\<rparr>) s0;
          s2 = release_pin (have_id_dma b) identify_buf id_bytes 0 s1;
          s3 = release_vec (have_id_vec b) identify_buf (\<lambda>c. c\<lparr>identify_buf := 0\<rparr>) s2;
          s4 = release_entries admin_cq_dma (\<lambda>c. c\<lparr>admin_cq_dma := 0\<rparr>) s3;
          s5 = release_pin (have_cq_dma b) admin_cq cq_bytes 0 s4;
          s6 = release_entries admin_sq_dma (\<lambda>c. c\<lparr>admin_sq_dma := 0\<rparr>) s5;
          s7 = release_pin (have_sq_dma b) admin_sq sq_bytes (k_DMA_ReadFromRAM e) s6;
          s8 = release_vec (have_cq_vec b) admin_cq (\<lambda>c. c\<lparr>admin_cq := 0\<rparr>) s7
      in release_vec (have_sq_vec b) admin_sq (\<lambda>c. c\<lparr>admin_sq := 0\<rparr>) s8)"

definition no_resources :: bringup where
  "no_resources = \<lparr>have_sq_vec = False, have_cq_vec = False, have_sq_dma = False, have_cq_dma = False,
     have_id_vec = False, have_id_dma = False\<rparr>"

definition init_stages :: "env \<Rightarrow> u32 \<Rightarrow> u32 \<Rightarrow> stage list" where
  "init_stages e cap_lo cap_hi =
     (let iters = unat (ready_poll_budget cap_lo) in
      [stage_disable e iters, stage_alloc_sq e, stage_alloc_cq e, stage_map_sq e, stage_map_cq e,
       stage_enable e (NVME_CAP_MPSMIN_HI cap_hi) iters, stage_alloc_id e, stage_map_id e, stage_identify e])"

definition InitNVMe :: "env \<Rightarrow> drv \<Rightarrow> bool \<times> drv" where
  "InitNVMe e s =
     (case read_caps e s of (cap_lo, cap_hi, s1) \<Rightarrow>
        if io_queue_depth (ctrl_st s1) \<le> of_nat NVME_MAX_INFLIGHT then (False, s1)
        else case run_stages (init_stages e cap_lo cap_hi) (no_resources, s1) of
            (True, b, s2) \<Rightarrow> (True, s2)
          | (False, b, s2) \<Rightarrow> (False, init_err e b s2))"

section \<open>CleanupNVMe\<close>

definition SHUTDOWN_POLL_ITERS :: nat where "SHUTDOWN_POLL_ITERS = 1000000"

definition cleanup_pair :: "(NVMeController \<Rightarrow> u32) \<Rightarrow> (NVMeController \<Rightarrow> u32) \<Rightarrow>
    (NVMeController \<Rightarrow> NVMeController) \<Rightarrow> u32 \<Rightarrow> u32 \<Rightarrow> drv \<Rightarrow> drv" where
  "cleanup_pair dma vec clear n fl s =
     (if dma (ctrl_st s) \<noteq> 0
      then upd_ctrl clear (FreeEntries (dma (ctrl_st s)) (EndDMA (vec (ctrl_st s)) n fl s)) else s)"

definition cleanup_identify :: "drv \<Rightarrow> drv" where
  "cleanup_identify s =
     (if identify_buf (ctrl_st s) \<noteq> 0 then
        let s1 = EndDMA (identify_buf (ctrl_st s)) id_bytes 0 s;
            s2 = (if identify_dma (ctrl_st s1) \<noteq> 0 then FreeEntries (identify_dma (ctrl_st s1)) s1 else s1);
            s3 = FreeVec (identify_buf (ctrl_st s2)) s2
        in upd_ctrl (\<lambda>c. c\<lparr>identify_buf := 0, identify_dma := 0\<rparr>) s3
      else s)"

text \<open>The request for a normal shutdown and the wait for its end.\<close>

definition shutdown_ctrl :: "env \<Rightarrow> drv \<Rightarrow> drv" where
  "shutdown_ctrl e s =
     (case nvme_r32 e (iobase (ctrl_st s) + NVME_REG_CC) s of (cc, s1) \<Rightarrow>
        snd (poll_csts e shut_down SHUTDOWN_POLL_ITERS
          (nvme_w32 (iobase (ctrl_st s1) + NVME_REG_CC) ((cc AND NOT (push_bit 14 3)) OR NVME_CC_SHN_NORM) s1)))"

definition free_resources :: "env \<Rightarrow> drv \<Rightarrow> drv" where
  "free_resources e s0 =
     (let s1 = cleanup_identify s0;
          s2 = cleanup_pair admin_sq_dma admin_sq (\<lambda>c. c\<lparr>admin_sq_dma := 0\<rparr>) sq_bytes (k_DMA_ReadFromRAM e) s1;
          s3 = cleanup_pair admin_cq_dma admin_cq (\<lambda>c. c\<lparr>admin_cq_dma := 0\<rparr>) cq_bytes 0 s2;
          s4 = release_vec (admin_sq (ctrl_st s3) \<noteq> 0) admin_sq (\<lambda>c. c\<lparr>admin_sq := 0\<rparr>) s3
      in release_vec (admin_cq (ctrl_st s4) \<noteq> 0) admin_cq (\<lambda>c. c\<lparr>admin_cq := 0\<rparr>) s4)"

definition CleanupNVMe :: "env \<Rightarrow> drv \<Rightarrow> drv" where
  "CleanupNVMe e s = (if admin_sq (ctrl_st s) = 0 then s else free_resources e (shutdown_ctrl e s))"

section \<open>Stages\<close>

text \<open>
  The contract of a staged bring-up: \<open>at i\<close> is what holds after \<open>i\<close> stages, \<open>acct\<close> the
  account, which a stage keeps whether it succeeds or jumps to \<open>err\<close>.
\<close>

locale staged =
  fixes fs :: "stage list" and at :: "nat \<Rightarrow> bringup \<times> drv \<Rightarrow> bool" and acct :: "bringup \<times> drv \<Rightarrow> bool"
    and pre :: bool
  assumes stage_step: "pre \<Longrightarrow> i < length fs \<Longrightarrow> at i x \<Longrightarrow> acct x \<Longrightarrow> (fs ! i) x = (ok, y) \<Longrightarrow> acct y \<and> (ok \<longrightarrow> at (Suc i) y)"
begin

lemma run_from:
  assumes "pre" and "i \<le> length fs" and "at i x" and "acct x" and "run_stages (drop i fs) x = (ok, y)"
  shows "acct y \<and> (ok \<longrightarrow> at (length fs) y)"
  using assms
proof (induction "length fs - i" arbitrary: i x)
  case (Suc n)
  then have i: "i < length fs" by simp
  obtain ok' z where z: "(fs ! i) x = (ok', z)" by (cases "(fs ! i) x")
  have d: "drop i fs = fs ! i # drop (Suc i) fs" using i by (simp add: Cons_nth_drop_Suc)
  have "n = length fs - Suc i" using Suc.hyps(2) by simp
  note ih = Suc.hyps(1) [OF this]
  show ?case
    using stage_step [OF Suc.prems(1) i Suc.prems(3,4) z] ih [of z] Suc.prems(1,5) i by (cases ok') (simp_all add: d z)
qed simp

lemma run:
  assumes "pre" and "at 0 x" and "acct x" and "run_stages fs x = (ok, y)"
  shows "acct y \<and> (ok \<longrightarrow> at (length fs) y)"
  using run_from [of 0 x ok y] assms by simp

end

section \<open>The account of the bring-up\<close>

text \<open>What the flags and pointers say is held, with \<open>fl\<close> the direction flag of the submission queue.\<close>

definition ctrl_held :: "u32 \<Rightarrow> bringup \<Rightarrow> NVMeController \<Rightarrow> token multiset" where
  "ctrl_held fl b c =
     tok_if (have_sq_vec b) (Tok_Vec (admin_sq c)) + tok_if (have_cq_vec b) (Tok_Vec (admin_cq c)) +
     tok_if (have_sq_dma b) (Tok_Pin (admin_sq c) sq_bytes fl) + tok_if (admin_sq_dma c \<noteq> 0) (Tok_Ents (admin_sq_dma c)) +
     tok_if (have_cq_dma b) (Tok_Pin (admin_cq c) cq_bytes 0) + tok_if (admin_cq_dma c \<noteq> 0) (Tok_Ents (admin_cq_dma c)) +
     tok_if (have_id_vec b) (Tok_Vec (identify_buf c)) +
     tok_if (have_id_dma b) (Tok_Pin (identify_buf c) id_bytes 0) + tok_if (identify_dma c \<noteq> 0) (Tok_Ents (identify_dma c))"

text \<open>The progress after \<open>i\<close> of the nine stages.\<close>

definition progress :: "nat \<Rightarrow> bringup \<Rightarrow> NVMeController \<Rightarrow> bool" where
  "progress i b c \<longleftrightarrow>
     have_sq_vec b = (2 \<le> i) \<and> have_cq_vec b = (3 \<le> i) \<and> have_sq_dma b = (4 \<le> i) \<and> have_cq_dma b = (5 \<le> i) \<and>
     have_id_vec b = (7 \<le> i) \<and> have_id_dma b = (8 \<le> i) \<and>
     (admin_sq_dma c \<noteq> 0) = (4 \<le> i) \<and> (admin_cq_dma c \<noteq> 0) = (5 \<le> i) \<and> (identify_dma c \<noteq> 0) = (8 \<le> i) \<and>
     (2 \<le> i \<longrightarrow> admin_sq c \<noteq> 0) \<and> (3 \<le> i \<longrightarrow> admin_cq c \<noteq> 0) \<and> (7 \<le> i \<longrightarrow> identify_buf c \<noteq> 0)"

text \<open>The fields of a controller that no stage after \<open>read_caps\<close> changes.\<close>

definition caps_frame :: "NVMeController \<Rightarrow> NVMeController \<Rightarrow> bool" where
  "caps_frame c c' \<longleftrightarrow> iobase c' = iobase c \<and> cap_mqes c' = cap_mqes c \<and> cap_dstrd c' = cap_dstrd c \<and>
     page_size c' = page_size c \<and> io_queue_depth c' = io_queue_depth c \<and> ctrl_idx c' = ctrl_idx c"

text \<open>The fields that the bring-up never touches, even when it fails.\<close>

definition ident_frame :: "NVMeController \<Rightarrow> NVMeController \<Rightarrow> bool" where
  "ident_frame c c' \<longleftrightarrow> ctrl_idx c' = ctrl_idx c \<and> irq_installed c' = irq_installed c \<and> irq_vector c' = irq_vector c \<and>
     pciDevice c' = pciDevice c \<and> bar0 c' = bar0 c"

definition dma_never_refused :: "env \<Rightarrow> bool" where
  "dma_never_refused e \<longleftrightarrow> (\<forall>tr b n fl. e_StartDMA e tr b n fl \<noteq> 0)"

lemma poll_csts_kept: "admin_kept s (snd (poll_csts e verdict n s)) \<and> ctrl_st (snd (poll_csts e verdict n s)) = ctrl_st s"
proof (induction n arbitrary: s)
  case (Suc n)
  show ?case
    using Suc.IH [of "log_ev (EvR32 (iobase (ctrl_st s) + NVME_REG_CSTS)) s"]
    by (auto simp: nvme_r32_def admin_kept_def split: option.splits)
qed simp

text \<open>An admin command moves the admin rings and touches no other field of the controller.\<close>

definition ring_frame :: "NVMeController \<Rightarrow> NVMeController \<Rightarrow> bool" where
  "ring_frame c c' \<longleftrightarrow> c'\<lparr>admin_sq_tail := 0, admin_cq_head := 0, admin_cq_phase := 0, next_cmd_id := 0\<rparr> =
     c\<lparr>admin_sq_tail := 0, admin_cq_head := 0, admin_cq_phase := 0, next_cmd_id := 0\<rparr>"

lemma ring_frame_refl [simp]: "ring_frame c c"
  by (simp add: ring_frame_def)

lemma ring_frame_trans: "ring_frame c d \<Longrightarrow> ring_frame d f \<Longrightarrow> ring_frame c f"
  by (simp add: ring_frame_def)

lemma ring_frameD:
  assumes "ring_frame c c'"
  shows "admin_sq c' = admin_sq c" "admin_cq c' = admin_cq c" "identify_buf c' = identify_buf c"
    "admin_sq_dma c' = admin_sq_dma c" "admin_cq_dma c' = admin_cq_dma c" "identify_dma c' = identify_dma c"
    "caps_frame c c'" "ident_frame c c'"
  using assms [unfolded ring_frame_def, THEN arg_cong, of admin_sq] assms [unfolded ring_frame_def, THEN arg_cong, of admin_cq]
    assms [unfolded ring_frame_def, THEN arg_cong, of identify_buf] assms [unfolded ring_frame_def, THEN arg_cong, of admin_sq_dma]
    assms [unfolded ring_frame_def, THEN arg_cong, of admin_cq_dma] assms [unfolded ring_frame_def, THEN arg_cong, of identify_dma]
    assms [unfolded ring_frame_def, THEN arg_cong, of iobase] assms [unfolded ring_frame_def, THEN arg_cong, of cap_mqes]
    assms [unfolded ring_frame_def, THEN arg_cong, of cap_dstrd] assms [unfolded ring_frame_def, THEN arg_cong, of page_size]
    assms [unfolded ring_frame_def, THEN arg_cong, of io_queue_depth] assms [unfolded ring_frame_def, THEN arg_cong, of ctrl_idx]
    assms [unfolded ring_frame_def, THEN arg_cong, of irq_installed] assms [unfolded ring_frame_def, THEN arg_cong, of irq_vector]
    assms [unfolded ring_frame_def, THEN arg_cong, of pciDevice] assms [unfolded ring_frame_def, THEN arg_cong, of bar0]
  by (simp_all add: caps_frame_def ident_frame_def)

lemma admin_advance_frame: "ring_frame (ctrl_st s) (ctrl_st (admin_advance s))"
  by (simp add: admin_advance_def Let_def ring_frame_def)

lemma locked_cmd_frame: "ring_frame (ctrl_st s) (ctrl_st (snd (locked_cmd e q s)))"
proof -
  let ?s = "log_ev EvObtain s"
  obtain st t where t: "admin_poll e ADMIN_POLL_ITERS 0 (admin_issue q ?s) = (st, t)" by fastforce
  have i: "ring_frame (ctrl_st s) (ctrl_st (admin_issue q ?s))" by (simp add: admin_issue_def Let_def ring_frame_def)
  have "ring_frame (ctrl_st (admin_issue q ?s)) (ctrl_st t)"
    using admin_poll_result [OF t] admin_advance_frame ring_frame_refl by (metis (no_types))
  with i show ?thesis unfolding locked_cmd_def NVMe_AdminCmd_def t by (simp add: ring_frame_trans)
qed

lemma Identify_kept:
  assumes "NVMe_IdentifyController e s = (ok, s')"
  shows "admin_kept s s'" and "\<exists>c b. ring_frame (ctrl_st s) c \<and> ctrl_st s' = (if ok then parse_controller b c else c)"
proof -
  obtain st t where t: "locked_cmd e (identify_sqe 0 (identify_phys (ctrl_st s)) NVME_ID_CNS_CONTROLLER) s = (st, t)"
    by fastforce
  have "admin_kept s t" "ring_frame (ctrl_st s) (ctrl_st t)"
    using locked_cmd_kept [of s e] locked_cmd_frame [of s e] t by (metis snd_conv)+
  then show "admin_kept s s'" and "\<exists>c b. ring_frame (ctrl_st s) c \<and> ctrl_st s' = (if ok then parse_controller b c else c)"
    using assms by (cases "st = NVME_STATUS_SUCCESS"; force simp: NVMe_IdentifyController_def t)+
qed

section \<open>The nine stages\<close>

definition init_acct :: "env \<Rightarrow> drv \<Rightarrow> bringup \<times> drv \<Rightarrow> bool" where
  "init_acct e s0 x \<longleftrightarrow> moves s0 (snd x) {#} (ctrl_held (k_DMA_ReadFromRAM e) (fst x) (ctrl_st (snd x))) \<and>
     unit_st (snd x) = unit_st s0 \<and> reqs (snd x) = reqs s0 \<and> ident_frame (ctrl_st s0) (ctrl_st (snd x)) \<and>
     (have_sq_vec (fst x) \<or> admin_sq (ctrl_st (snd x)) = 0)"

definition init_at :: "NVMeController \<Rightarrow> nat \<Rightarrow> bringup \<times> drv \<Rightarrow> bool" where
  "init_at c0 i x \<longleftrightarrow> progress i (fst x) (ctrl_st (snd x)) \<and> caps_frame c0 (ctrl_st (snd x)) \<and>
     (9 \<le> i \<longrightarrow> max_transfer_bytes (ctrl_st (snd x)) \<le> SANITY_CAP)"

definition init_step :: "env \<Rightarrow> NVMeController \<Rightarrow> drv \<Rightarrow> nat \<Rightarrow> stage \<Rightarrow> bool" where
  "init_step e c0 s0 i f \<longleftrightarrow> (\<forall>x ok y. init_at c0 i x \<longrightarrow> init_acct e s0 x \<longrightarrow> f x = (ok, y) \<longrightarrow>
     init_acct e s0 y \<and> (ok \<longrightarrow> init_at c0 (Suc i) y))"

lemmas init_step_defs = init_step_def init_at_def init_acct_def progress_def ctrl_held_def resource_defs
  caps_frame_def ident_frame_def Let_def

text \<open>A stage that touches neither flags nor pointers.\<close>

lemma init_step_neutral:
  assumes "\<And>b s ok b' s'. f (b, s) = (ok, b', s') \<Longrightarrow> b' = b \<and> admin_kept s s' \<and> ring_frame (ctrl_st s) (ctrl_st s')"
    and "i = 0 \<or> i = 5"
  shows "init_step e c0 s0 i f"
proof -
  have "init_acct e s0 (b', s') \<and> init_at c0 (Suc i) (b', s')"
    if "init_at c0 i (b, s)" "init_acct e s0 (b, s)" "f (b, s) = (ok, b', s')" for b s ok b' s'
  proof -
    have k: "b' = b" "admin_kept s s'" "ring_frame (ctrl_st s) (ctrl_st s')" using assms(1) [OF that(3)] by simp_all
    note r = ring_frameD [OF k(3)]
    have "moves s0 s' {#} (ctrl_held (k_DMA_ReadFromRAM e) b (ctrl_st s))"
      using that(2) moves_admin [OF k(2)] by (auto simp: init_acct_def intro: moves_trans)
    moreover have "ctrl_held fl b (ctrl_st s') = ctrl_held fl b (ctrl_st s)" for fl by (simp add: ctrl_held_def r)
    moreover have "progress (Suc i) b (ctrl_st s') = progress i b (ctrl_st s)"
      using assms(2) by (elim disjE) (simp_all add: progress_def r)
    moreover have "caps_frame c0 (ctrl_st s') = caps_frame c0 (ctrl_st s)" using r(7) by (auto simp: caps_frame_def)
    moreover have "ident_frame (ctrl_st s0) (ctrl_st s')" "admin_sq (ctrl_st s') = admin_sq (ctrl_st s)"
      using that(2) r(1,8) by (simp_all add: init_acct_def ident_frame_def)
    ultimately show ?thesis using that k(1,2) assms(2) by (auto simp: init_acct_def init_at_def admin_kept_def)
  qed
  then show ?thesis unfolding init_step_def by (simp add: split_paired_all)
qed

lemma poll_csts_from:
  assumes "poll_csts e verdict n t = (ok, s')" and "admin_kept s t" and "ring_frame (ctrl_st s) (ctrl_st t)"
  shows "admin_kept s s'" and "ring_frame (ctrl_st s) (ctrl_st s')"
  using poll_csts_kept [of t e verdict n] assms admin_kept_trans by (metis snd_conv)+

lemma disable_step: "init_step e c0 s0 0 (stage_disable e n)"
proof (rule init_step_neutral)
  fix b b' :: bringup and s s' :: drv and ok
  let ?cc = "e_mmio e (trace s) (iobase (ctrl_st s) + NVME_REG_CC)"
  let ?t = "log_ev (EvR32 (iobase (ctrl_st s) + NVME_REG_CC)) s"
  let ?w = "nvme_w32 (iobase (ctrl_st s) + NVME_REG_CC) (?cc AND NOT NVME_CC_EN) ?t"
  assume r: "stage_disable e n (b, s) = (ok, b', s')"
  show "b' = b \<and> admin_kept s s' \<and> ring_frame (ctrl_st s) (ctrl_st s')"
  proof (cases "?cc AND NVME_CC_EN = 0")
    case True
    then show ?thesis using r by (auto simp: stage_disable_def nvme_r32_def)
  next
    case False
    obtain ok2 u where p: "poll_csts e disabled n ?w = (ok2, u)" by fastforce
    have "b' = b \<and> s' = u" using r False p by (simp add: stage_disable_def nvme_r32_def)
    then show ?thesis using poll_csts_from [OF p, of s] by simp
  qed
qed simp

text \<open>The enable stage resets the rings and so is neutral as well.\<close>

lemma enable_step: "init_step e c0 s0 5 (stage_enable e m n)"
proof (rule init_step_neutral)
  fix b b' :: bringup and s s' :: drv and ok
  assume r: "stage_enable e m n (b, s) = (ok, b', s')"
  obtain ok2 u where p: "poll_csts e enabled n (program_admin m s) = (ok2, u)" by fastforce
  have "admin_kept s (program_admin m s)" "ring_frame (ctrl_st s) (ctrl_st (program_admin m s))"
    by (simp_all add: program_admin_def Let_def ring_frame_def)
  note poll_csts_from [OF p this]
  then show "b' = b \<and> admin_kept s s' \<and> ring_frame (ctrl_st s) (ctrl_st s')"
    using r by (auto simp: stage_enable_def p split: if_splits)
qed simp

text \<open>An acquisition adds its token.\<close>

lemma moves_gain:
  "moves s0 s {#} A \<Longrightarrow> outs_ev ev = {#} \<Longrightarrow> B = ins_ev ev + A \<Longrightarrow> moves s0 (log_ev ev s) {#} B"
  by (simp add: moves_def ac_simps)

lemma alloc_steps:
  "init_step e c0 s0 1 (stage_alloc_sq e)" "init_step e c0 s0 2 (stage_alloc_cq e)" "init_step e c0 s0 6 (stage_alloc_id e)"
  unfolding init_step_def init_at_def init_acct_def
  by (auto simp: stage_alloc_sq_def stage_alloc_cq_def stage_alloc_id_def resource_defs Let_def progress_def
      ctrl_held_def caps_frame_def ident_frame_def add_mset_commute intro!: moves_gain split: if_splits)

lemma map_steps:
  assumes "dma_never_refused e"
  shows "init_step e c0 s0 3 (stage_map_sq e)" "init_step e c0 s0 4 (stage_map_cq e)" "init_step e c0 s0 7 (stage_map_id e)"
  using assms
  unfolding init_step_def init_at_def init_acct_def dma_never_refused_def
  by (auto simp: stage_map_sq_def stage_map_cq_def stage_map_id_def resource_defs Let_def progress_def
      ctrl_held_def caps_frame_def ident_frame_def add_mset_commute intro!: moves_gain split: if_splits)

lemma identify_step: "init_step e c0 s0 8 (stage_identify e)"
proof -
  have "init_acct e s0 (b, s') \<and> (ok \<longrightarrow> init_at c0 9 (b, s'))"
    if at: "init_at c0 8 (b, s)" and acct: "init_acct e s0 (b, s)" and r: "NVMe_IdentifyController e s = (ok, s')" for b s ok s'
  proof -
    note k = Identify_kept [OF r]
    obtain c m where c: "ring_frame (ctrl_st s) c" "ctrl_st s' = (if ok then parse_controller m c else c)"
      using k(2) by blast
    note f = ring_frameD [OF c(1)]
    have h: "ctrl_held fl b (ctrl_st s') = ctrl_held fl b (ctrl_st s)" for fl
      using c(2) by (auto simp: ctrl_held_def parse_controller_def f)
    have "moves s0 s' {#} (ctrl_held (k_DMA_ReadFromRAM e) b (ctrl_st s'))"
      using acct moves_admin [OF k(1)] unfolding h by (auto simp: init_acct_def intro: moves_trans)
    then show ?thesis
      using acct at k(1) c(2) f
      by (auto simp: init_acct_def init_at_def admin_kept_def progress_def caps_frame_def ident_frame_def parse_controller_def mdts_cap_le)
  qed
  then show ?thesis unfolding init_step_def by (auto simp: stage_identify_def split: prod.splits)
qed

interpretation init: staged "init_stages e lo hi" "init_at c0" "init_acct e s0" "dma_never_refused e" for e lo hi c0 s0
proof
  fix i x ok y
  assume pre: "dma_never_refused e" and i: "i < length (init_stages e lo hi)" and x: "init_at c0 i x" "init_acct e s0 x"
    and r: "(init_stages e lo hi ! i) x = (ok, y)"
  have "i \<in> set [0..<9]" using i by (simp add: init_stages_def Let_def)
  then have "init_step e c0 s0 i (init_stages e lo hi ! i)"
    using disable_step alloc_steps map_steps [OF pre] enable_step identify_step
    by (auto simp: init_stages_def Let_def upt_rec numeral_eq_Suc)
  then show "init_acct e s0 y \<and> (ok \<longrightarrow> init_at c0 (Suc i) y)" using x r unfolding init_step_def by blast
qed

section \<open>The error path and the cleanup\<close>

lemma release_moves:
  "moves s (release_entries get clear s) (tok_if (get (ctrl_st s) \<noteq> 0) (Tok_Ents (get (ctrl_st s))) + R) R"
  "moves s (release_pin h get n fl s) (tok_if h (Tok_Pin (get (ctrl_st s)) n fl) + R) R"
  "moves s (release_vec h get clear s) (tok_if h (Tok_Vec (get (ctrl_st s))) + R) R"
  by (simp_all add: release_entries_def release_pin_def release_vec_def resource_defs moves_def ac_simps)

lemma release_ctrl [simp]:
  "ctrl_st (release_entries identify_dma (\<lambda>c. c\<lparr>identify_dma := 0\<rparr>) s) = (ctrl_st s)\<lparr>identify_dma := 0\<rparr>"
  "ctrl_st (release_entries admin_cq_dma (\<lambda>c. c\<lparr>admin_cq_dma := 0\<rparr>) s) = (ctrl_st s)\<lparr>admin_cq_dma := 0\<rparr>"
  "ctrl_st (release_entries admin_sq_dma (\<lambda>c. c\<lparr>admin_sq_dma := 0\<rparr>) s) = (ctrl_st s)\<lparr>admin_sq_dma := 0\<rparr>"
  "ctrl_st (release_pin h get n fl s) = ctrl_st s"
  "ctrl_st (release_vec h get clear s) = (if h then clear (ctrl_st s) else ctrl_st s)"
  by (simp_all add: release_entries_def release_pin_def release_vec_def resource_defs)

lemma init_err_moves: "moves s (init_err e b s) (ctrl_held (k_DMA_ReadFromRAM e) b (ctrl_st s)) {#}"
proof -
  have f: "admin_cq_dma (if h then c\<lparr>identify_buf := 0\<rparr> else c) = admin_cq_dma c"
    "admin_sq_dma (if h then c\<lparr>identify_buf := 0\<rparr> else c) = admin_sq_dma c"
    "admin_cq (if h then c\<lparr>identify_buf := 0\<rparr> else c) = admin_cq c"
    "admin_sq (if h then c\<lparr>identify_buf := 0\<rparr> else c) = admin_sq c"
    "admin_sq (if h then c\<lparr>admin_cq := 0\<rparr> else c) = admin_sq c" for h c by simp_all
  show ?thesis
    unfolding init_err_def Let_def
    by (rule moves_trans [OF moves_trans [OF moves_trans [OF moves_trans [OF moves_trans [OF moves_trans
          [OF moves_trans [OF moves_trans [OF _ release_moves(2)] release_moves(3)] release_moves(1)]
          release_moves(2)] release_moves(1)] release_moves(2)] release_moves(3)] release_moves(3) [where R = "{#}"]])
      (rule back_subst [where P = "\<lambda>x. moves _ _ x _", OF release_moves(1)], simp add: ctrl_held_def f ac_simps)
qed

lemma release_unit [simp]:
  "unit_st (release_entries get clear s) = unit_st s" "reqs (release_entries get clear s) = reqs s"
  "unit_st (release_pin h get n fl s) = unit_st s" "reqs (release_pin h get n fl s) = reqs s"
  "unit_st (release_vec h get clear s) = unit_st s" "reqs (release_vec h get clear s) = reqs s"
  by (simp_all add: release_entries_def release_pin_def release_vec_def resource_defs)

lemma init_err_unit [simp]: "unit_st (init_err e b s) = unit_st s" "reqs (init_err e b s) = reqs s"
  by (simp_all add: init_err_def Let_def)

definition all_resources :: bringup where
  "all_resources = \<lparr>have_sq_vec = True, have_cq_vec = True, have_sq_dma = True, have_cq_dma = True,
     have_id_vec = True, have_id_dma = True\<rparr>"

text \<open>A controller before its bring-up: the driver base is allocated cleared.\<close>

definition fresh_ctrl :: "NVMeController \<Rightarrow> bool" where
  "fresh_ctrl c \<longleftrightarrow> admin_sq c = 0 \<and> admin_sq_dma c = 0 \<and> admin_cq_dma c = 0 \<and> identify_dma c = 0"

lemma read_caps_simps:
  assumes "read_caps e s = (lo, hi, s1)"
  shows "ctrl_st s1 = caps_of lo hi (ctrl_st s)" "unit_st s1 = unit_st s" "reqs s1 = reqs s" "moves s s1 {#} {#}"
  using assms by (auto simp: read_caps_def nvme_r32_def moves_def caps_of_def Let_def)

text \<open>
  The outcome of a bring-up. A success holds exactly the resources that the controller names;
  a failure holds nothing and leaves no admin queue behind.
\<close>

definition init_outcome :: "env \<Rightarrow> drv \<Rightarrow> bool \<Rightarrow> drv \<Rightarrow> bool" where
  "init_outcome e s ok s' \<longleftrightarrow>
     unit_st s' = unit_st s \<and> reqs s' = reqs s \<and> ident_frame (ctrl_st s) (ctrl_st s') \<and>
     (if ok then moves s s' {#} (ctrl_held (k_DMA_ReadFromRAM e) all_resources (ctrl_st s')) \<and>
         (\<exists>lo hi. caps_frame (caps_of lo hi (ctrl_st s)) (ctrl_st s')) \<and>
         of_nat NVME_MAX_INFLIGHT < io_queue_depth (ctrl_st s') \<and>
         progress 9 all_resources (ctrl_st s') \<and> max_transfer_bytes (ctrl_st s') \<le> SANITY_CAP
      else moves s s' {#} {#} \<and> admin_sq (ctrl_st s') = 0)"

lemma release_ident [simp]:
  "ident_frame d (if h then c\<lparr>identify_buf := x\<rparr> else c) = ident_frame d c"
  "ident_frame d (if h then c\<lparr>admin_cq := x\<rparr> else c) = ident_frame d c"
  "ident_frame d (if h then c\<lparr>admin_sq := x\<rparr> else c) = ident_frame d c"
  "ident_frame d (c\<lparr>identify_dma := x\<rparr>) = ident_frame d c" "ident_frame d (c\<lparr>admin_cq_dma := x\<rparr>) = ident_frame d c"
  "ident_frame d (c\<lparr>admin_sq_dma := x\<rparr>) = ident_frame d c"
  by (simp_all add: ident_frame_def)

lemma init_err_ctrl:
  "ident_frame d (ctrl_st (init_err e b s)) = ident_frame d (ctrl_st s)"
  "have_sq_vec b \<or> admin_sq (ctrl_st s) = 0 \<Longrightarrow> admin_sq (ctrl_st (init_err e b s)) = 0"
  by (auto simp: init_err_def Let_def)

lemma InitNVMe_outcome:
  assumes "dma_never_refused e" and "fresh_ctrl (ctrl_st s)" and "InitNVMe e s = (ok, s')"
  shows "init_outcome e s ok s'"
proof -
  obtain lo hi s1 where c: "read_caps e s = (lo, hi, s1)" by (cases "read_caps e s")
  note rc = read_caps_simps [OF c]
  have id: "ident_frame (ctrl_st s) (ctrl_st s1)" "admin_sq (ctrl_st s1) = 0"
    using rc(1) assms(2) by (simp_all add: ident_frame_def caps_of_def Let_def fresh_ctrl_def)
  obtain ok2 b s2 where r: "run_stages (init_stages e lo hi) (no_resources, s1) = (ok2, b, s2)"
    by (cases "run_stages (init_stages e lo hi) (no_resources, s1)")
  have "init_at (ctrl_st s1) 0 (no_resources, s1)" "init_acct e s1 (no_resources, s1)"
    using assms(2) rc(1)
    by (simp_all add: init_at_def init_acct_def progress_def no_resources_def caps_frame_def ctrl_held_def fresh_ctrl_def
        ident_frame_def caps_of_def Let_def)
  note run = init.run [OF assms(1) this r]
  have len: "length (init_stages e lo hi) = 9" by (simp add: init_stages_def Let_def)
  have at: "init_at (ctrl_st s1) 9 (b, s2)" if ok2 using run that len by simp
  have b: "b = all_resources" if ok2
    using at that by (cases b) (simp add: init_at_def progress_def all_resources_def)
  have acct: "init_acct e s1 (b, s2)" using run by blast
  have "ident_frame (ctrl_st s1) (ctrl_st s2)" using acct by (simp add: init_acct_def)
  then have i2: "ident_frame (ctrl_st s) (ctrl_st s2)" using id(1) by (simp add: ident_frame_def)
  have m: "moves s s2 {#} (ctrl_held (k_DMA_ReadFromRAM e) b (ctrl_st s2))"
    using acct moves_trans [OF rc(4)] by (simp add: init_acct_def)
  have m': "moves s (init_err e b s2) {#} {#}" using m init_err_moves by (rule moves_trans)
  have u: "unit_st s2 = unit_st s" "reqs s2 = reqs s" using acct rc by (simp_all add: init_acct_def)
  have z: "admin_sq (ctrl_st (init_err e b s2)) = 0"
    by (rule init_err_ctrl(2)) (use acct in \<open>simp add: init_acct_def\<close>)
  consider "io_queue_depth (ctrl_st s1) \<le> of_nat NVME_MAX_INFLIGHT" "\<not> ok" "s' = s1"
    | "of_nat NVME_MAX_INFLIGHT < io_queue_depth (ctrl_st s1)" ok2 ok "s' = s2"
    | "\<not> ok2" "\<not> ok" "s' = init_err e b s2"
    using assms(3) by (cases ok2) (auto simp: InitNVMe_def c r not_le split: if_splits)
  then show ?thesis
  proof cases
    case 1
    then show ?thesis using rc id by (simp add: init_outcome_def)
  next
    case 2
    have "caps_frame (ctrl_st s1) (ctrl_st s2)" "max_transfer_bytes (ctrl_st s2) \<le> SANITY_CAP" "progress 9 all_resources (ctrl_st s2)"
      using at [OF 2(2)] b [OF 2(2)] by (simp_all add: init_at_def)
    moreover have "\<exists>lo hi. caps_frame (caps_of lo hi (ctrl_st s)) (ctrl_st s2)" using calculation(1) rc(1) by auto
    moreover have "io_queue_depth (ctrl_st s2) = io_queue_depth (ctrl_st s1)" using calculation(1) by (simp add: caps_frame_def)
    ultimately show ?thesis using 2 u i2 m b [OF 2(2)] by (simp add: init_outcome_def)
  next
    case 3
    then show ?thesis using m' u z i2 init_err_ctrl(1) by (simp add: init_outcome_def)
  qed
qed

lemma cleanup_pair_moves:
  "dma (ctrl_st s) \<noteq> 0 \<Longrightarrow>
   moves s (cleanup_pair dma vec clear n fl s) ({#Tok_Pin (vec (ctrl_st s)) n fl, Tok_Ents (dma (ctrl_st s))#} + R) R"
  by (simp add: cleanup_pair_def resource_defs moves_def ac_simps)

lemma cleanup_identify_moves:
  "identify_buf (ctrl_st s) \<noteq> 0 \<Longrightarrow> identify_dma (ctrl_st s) \<noteq> 0 \<Longrightarrow>
   moves s (cleanup_identify s) ({#Tok_Pin (identify_buf (ctrl_st s)) id_bytes 0, Tok_Ents (identify_dma (ctrl_st s)),
     Tok_Vec (identify_buf (ctrl_st s))#} + R) R"
  by (simp add: cleanup_identify_def Let_def resource_defs moves_def ac_simps)

lemma cleanup_ctrl [simp]:
  "ctrl_st (cleanup_pair admin_sq_dma vec (\<lambda>c. c\<lparr>admin_sq_dma := 0\<rparr>) n fl s) = (ctrl_st s)\<lparr>admin_sq_dma := 0\<rparr>"
  "ctrl_st (cleanup_pair admin_cq_dma vec (\<lambda>c. c\<lparr>admin_cq_dma := 0\<rparr>) n fl s) = (ctrl_st s)\<lparr>admin_cq_dma := 0\<rparr>"
  "identify_buf (ctrl_st s) \<noteq> 0 \<Longrightarrow> ctrl_st (cleanup_identify s) = (ctrl_st s)\<lparr>identify_buf := 0, identify_dma := 0\<rparr>"
  by (simp_all add: cleanup_pair_def cleanup_identify_def Let_def resource_defs)

lemma cleanup_moves:
  assumes "progress 9 all_resources (ctrl_st s)"
  shows "moves s (CleanupNVMe e s) (ctrl_held (k_DMA_ReadFromRAM e) all_resources (ctrl_st s)) {#}"
proof -
  let ?c = "ctrl_st s" and ?fl = "k_DMA_ReadFromRAM e"
  have nz: "admin_sq ?c \<noteq> 0" "admin_cq ?c \<noteq> 0" "identify_buf ?c \<noteq> 0" "admin_sq_dma ?c \<noteq> 0" "admin_cq_dma ?c \<noteq> 0"
    "identify_dma ?c \<noteq> 0" using assms by (simp_all add: progress_def)
  define t where "t = shutdown_ctrl e s"
  let ?r = "log_ev (EvR32 (iobase ?c + NVME_REG_CC)) s"
  have p: "admin_kept s (snd (poll_csts e v n (nvme_w32 a d ?r))) \<and> ctrl_st (snd (poll_csts e v n (nvme_w32 a d ?r))) = ?c" for v n a d
    using poll_csts_kept [of "nvme_w32 a d ?r" e v n] by (auto simp: admin_kept_def)
  have t: "admin_kept s t" "ctrl_st t = ?c" using p by (simp_all add: t_def shutdown_ctrl_def nvme_r32_def)
  define t1 where "t1 = cleanup_identify t"
  define t2 where "t2 = cleanup_pair admin_sq_dma admin_sq (\<lambda>c. c\<lparr>admin_sq_dma := 0\<rparr>) sq_bytes ?fl t1"
  define t3 where "t3 = cleanup_pair admin_cq_dma admin_cq (\<lambda>c. c\<lparr>admin_cq_dma := 0\<rparr>) cq_bytes 0 t2"
  define t4 where "t4 = release_vec True admin_sq (\<lambda>c. c\<lparr>admin_sq := 0\<rparr>) t3"
  have c: "ctrl_st t1 = ?c\<lparr>identify_buf := 0, identify_dma := 0\<rparr>" "ctrl_st t2 = (ctrl_st t1)\<lparr>admin_sq_dma := 0\<rparr>"
    "ctrl_st t3 = (ctrl_st t2)\<lparr>admin_cq_dma := 0\<rparr>" "ctrl_st t4 = (ctrl_st t3)\<lparr>admin_sq := 0\<rparr>"
    using nz t(2) by (simp_all add: t1_def t2_def t3_def t4_def)
  have "CleanupNVMe e s = release_vec True admin_cq (\<lambda>c. c\<lparr>admin_cq := 0\<rparr>) t4"
    using nz c unfolding CleanupNVMe_def free_resources_def Let_def t_def [symmetric] t1_def [symmetric]
      t2_def [symmetric] t3_def [symmetric] by (simp add: t4_def)
  moreover have "moves s t (ctrl_held ?fl all_resources ?c) (ctrl_held ?fl all_resources ?c)"
    by (rule moves_admin [OF t(1)])
  moreover have "moves t t1 ({#Tok_Pin (identify_buf ?c) id_bytes 0, Tok_Ents (identify_dma ?c), Tok_Vec (identify_buf ?c)#} + R) R" for R
    using cleanup_identify_moves [of t R] nz t(2) by (simp add: t1_def)
  moreover have "moves t1 t2 ({#Tok_Pin (admin_sq ?c) sq_bytes ?fl, Tok_Ents (admin_sq_dma ?c)#} + R) R" for R
    using cleanup_pair_moves [of admin_sq_dma t1 admin_sq] nz c by (simp add: t2_def)
  moreover have "moves t2 t3 ({#Tok_Pin (admin_cq ?c) cq_bytes 0, Tok_Ents (admin_cq_dma ?c)#} + R) R" for R
    using cleanup_pair_moves [of admin_cq_dma t2 admin_cq] nz c by (simp add: t3_def)
  moreover have "moves t3 t4 ({#Tok_Vec (admin_sq ?c)#} + R) R" for R
    using release_moves(3) [of t3 True admin_sq] c by (simp add: t4_def)
  moreover have "moves t4 (release_vec True admin_cq f t4) ({#Tok_Vec (admin_cq ?c)#} + R) R" for R f
    using release_moves(3) [of t4 True admin_cq] c by simp
  ultimately have "moves s (CleanupNVMe e s) ({#Tok_Pin (identify_buf ?c) id_bytes 0, Tok_Ents (identify_dma ?c), Tok_Vec (identify_buf ?c)#}
     + ({#Tok_Pin (admin_sq ?c) sq_bytes ?fl, Tok_Ents (admin_sq_dma ?c)#} + ({#Tok_Pin (admin_cq ?c) cq_bytes 0, Tok_Ents (admin_cq_dma ?c)#}
     + ({#Tok_Vec (admin_sq ?c)#} + ({#Tok_Vec (admin_cq ?c)#} + {#}))))) {#}"
    using moves_admin [OF t(1)] moves_trans by (metis (no_types, lifting))
  then show ?thesis using nz by (simp add: ctrl_held_def all_resources_def ac_simps add_mset_commute)
qed

end
