(* ===== verification/Nvme_Discovery.thy ===== *)
theory Nvme_Discovery
  imports Nvme_Init Nvme_Start
begin

text \<open>
  The discovery of the namespaces of a controller (src/src/unit_discovery.c). \<open>unit_st\<close> is the
  unit that is being built; the tables of units are the record \<open>registry\<close>, with the address
  and the contents of every unit that is online.
\<close>

section \<open>Units and tables\<close>

record registry =
  units :: "u32 list"
  num_units :: u32
  global_units :: "(u32 \<times> NVMeUnit) list"
  num_global_units :: u32

definition zero_slot :: NVMeInflight where
  "zero_slot = \<lparr>inf_ioreq = 0, inf_cmd_id = 0, inf_is_write = False, inf_dma_buf = 0, inf_dma_phys = 0,
     inf_dma_size = 0, inf_dma_list = 0, inf_dma_entries = 0, inf_dma_flags = 0, inf_use_bounce = False,
     inf_bounce_user_buf = 0, inf_bounce_user_len = 0, inf_suppress_reply = False,
     inf_submit_ticks_hi = 0, inf_submit_ticks_lo = 0\<rparr>"

text \<open>A unit as it is allocated: cleared memory.\<close>

definition zero_unit :: NVMeUnit where
  "zero_unit = \<lparr>unit_num = 0, nsid = 0, unit_ctrl = 0, open_count = 0, block_size = 0, total_blocks = 0, block_shift = 0,
     io_sq = 0, io_cq = 0, io_sq_phys = 0, io_cq_phys = 0, io_sq_tail = 0, io_cq_head = 0, io_cq_phase = 0,
     queue_depth = 0, queue_id = 0, unit_task = 0, io_port = 0, io_signal_mask = 0, io_wait_task = 0,
     task_shutdown = False, shutdown_ack_task = 0, shutdown_ack_mask = 0, port_msgs = [],
     inflight = replicate NVME_MAX_INFLIGHT zero_slot, bounce_bufs = replicate NVME_MAX_INFLIGHT 0,
     bounce_phys = replicate NVME_MAX_INFLIGHT 0, prp_list_pages = replicate NVME_MAX_INFLIGHT 0,
     prp_list_phys = replicate NVME_MAX_INFLIGHT 0, dma_entry_pool = replicate NVME_MAX_INFLIGHT 0,
     dma_entry_pool_capacity = 0, dsm_buf = 0, dsm_phys = 0, changeint_req = 0, remove_req = 0, stats = zero_stats\<rparr>"

section \<open>The queues of a unit\<close>

definition io_sq_bytes :: u32 where "io_sq_bytes = of_nat NVME_IO_QUEUE_DEPTH * of_nat NVME_SQE_SIZE"
definition io_cq_bytes :: u32 where "io_cq_bytes = of_nat NVME_IO_QUEUE_DEPTH * of_nat NVME_CQE_SIZE"

definition alloc_queues :: "env \<Rightarrow> drv \<Rightarrow> bool \<times> drv" where
  "alloc_queues e s =
     (case AllocVec e io_sq_bytes s of (sq, s1) \<Rightarrow>
      case AllocVec e io_cq_bytes (upd_unit (\<lambda>u. u\<lparr>io_sq := sq\<rparr>) s1) of (cq, s2) \<Rightarrow>
        let s3 = upd_unit (\<lambda>u. u\<lparr>io_cq := cq\<rparr>) s2 in
        if sq = 0 \<or> cq = 0 then
          let s4 = (if sq \<noteq> 0 then FreeVec sq s3 else s3)
          in (False, if cq \<noteq> 0 then FreeVec cq s4 else s4)
        else (True, upd_ram (\<lambda>m. m\<lparr>sq_mem := (\<lambda>_. 0), cq_mem := (\<lambda>_. 0)\<rparr>) s3))"

definition free_queues :: "drv \<Rightarrow> drv" where
  "free_queues s = FreeVec (io_cq (unit_st s)) (FreeVec (io_sq (unit_st s)) s)"

definition unmap_queues :: "env \<Rightarrow> drv \<Rightarrow> drv" where
  "unmap_queues e s = EndDMA (io_cq (unit_st s)) io_cq_bytes (k_DMA_ReadFromRAM e)
     (EndDMA (io_sq (unit_st s)) io_sq_bytes (k_DMA_ReadFromRAM e) s)"

definition map_queues :: "env \<Rightarrow> drv \<Rightarrow> bool \<times> drv" where
  "map_queues e s =
     (let fl = k_DMA_ReadFromRAM e; sq = io_sq (unit_st s); cq = io_cq (unit_st s) in
      case StartDMA e sq io_sq_bytes fl s of (ks, s1) \<Rightarrow>
      if ks = 0 then (False, free_queues s1)
      else case AllocEntries e ks s1 of (sd, s2) \<Rightarrow>
        case StartDMA e cq io_cq_bytes fl s2 of (kc, s3) \<Rightarrow>
        if kc = 0 then
          (False, free_queues (EndDMA sq io_sq_bytes fl (if sd \<noteq> 0 then FreeEntries sd s3 else s3)))
        else case AllocEntries e kc s3 of (cd, s4) \<Rightarrow>
          if sd = 0 \<or> cd = 0 then
            let s5 = (if sd \<noteq> 0 then FreeEntries sd s4 else s4);
                s6 = (if cd \<noteq> 0 then FreeEntries cd s5 else s5)
            in (False, free_queues (unmap_queues e s6))
          else
            let ph_s = first_phys e sq io_sq_bytes fl s4; ph_c = first_phys e cq io_cq_bytes fl s4;
                s5 = upd_unit (\<lambda>u. u\<lparr>io_sq_phys := ph_s, io_cq_phys := ph_c, io_cq_phase := 1\<rparr>) s4
            in (True, FreeEntries cd (FreeEntries sd s5)))"

text \<open>The two admin commands; the second is sent only if the first succeeded.\<close>

definition create_queues :: "env \<Rightarrow> drv \<Rightarrow> bool \<times> drv" where
  "create_queues e s =
     (case NVMe_CreateIOCQ e (io_cq_phys (unit_st s)) s of (ok1, s1) \<Rightarrow>
      case (if ok1 then NVMe_CreateIOSQ e (io_sq_phys (unit_st s1)) s1 else (False, s1)) of (ok2, s2) \<Rightarrow>
        if ok2 then (True, s2) else (False, free_queues (unmap_queues e s2)))"

definition provision_queues :: "env \<Rightarrow> drv \<Rightarrow> bool \<times> drv" where
  "provision_queues e s =
     (case alloc_queues e s of (ok1, s1) \<Rightarrow> if \<not> ok1 then (False, s1)
      else case map_queues e s1 of (ok2, s2) \<Rightarrow> if \<not> ok2 then (False, s2) else create_queues e s2)"

section \<open>One namespace, all namespaces\<close>

definition new_unit :: "u32 \<Rightarrow> u32 \<Rightarrow> u32 \<Rightarrow> NVMeController \<Rightarrow> NVMeUnit" where
  "new_unit num ns local c =
     zero_unit\<lparr>unit_num := num, nsid := ns, queue_id := ucast (local + 1), queue_depth := io_queue_depth c,
       unit_ctrl := ctrl_idx c\<rparr>"

definition build_unit :: "env \<Rightarrow> drv \<Rightarrow> bool \<times> drv" where
  "build_unit e s =
     (case NVMe_IdentifyNamespace e s of (ok, s1) \<Rightarrow>
        if \<not> ok then (False, s1)
        else if total_blocks (unit_st s1) = 0 then (False, s1)
        else provision_queues e s1)"

definition discover_unit :: "env \<Rightarrow> registry \<Rightarrow> u32 \<Rightarrow> drv \<Rightarrow> u32 option \<times> drv" where
  "discover_unit e r ns s =
     (case AllocVec e (k_sizeof_NVMeUnit e) s of (p, s1) \<Rightarrow>
        if p = 0 then (None, s1)
        else case build_unit e (upd_unit (\<lambda>_. new_unit (num_global_units r) ns (num_units r) (ctrl_st s1)) s1) of
            (ok, s2) \<Rightarrow> if ok then (Some p, s2) else (None, FreeVec p s2))"

definition register :: "u32 \<Rightarrow> NVMeUnit \<Rightarrow> registry \<Rightarrow> registry" where
  "register p u r = r\<lparr>units := units r @ [p], num_units := num_units r + 1,
     global_units := global_units r @ [(p, u)], num_global_units := num_global_units r + 1\<rparr>"

primrec discover_loop :: "env \<Rightarrow> u32 list \<Rightarrow> registry \<Rightarrow> u32 \<Rightarrow> drv \<Rightarrow> registry \<times> u32 \<times> drv" where
  "discover_loop e [] r brought_up s = (r, brought_up, s)"
| "discover_loop e (ns # nss) r brought_up s =
     (if num_global_units r \<ge> of_nat NVME_MAX_GLOBAL_UNITS then (r, brought_up, s)
      else case discover_unit e r ns s of
          (None, s1) \<Rightarrow> discover_loop e nss r brought_up s1
        | (Some p, s1) \<Rightarrow> discover_loop e nss (register p (unit_st s1) r) (brought_up + 1) s1)"

text \<open>The announcement of the units from the first new one on, if mounter.library is there.\<close>

definition announce :: "env \<Rightarrow> registry \<Rightarrow> u32 \<Rightarrow> drv \<Rightarrow> drv" where
  "announce e r brought_up s =
     (if e_mounter e then
        fold (\<lambda>p. log_ev (EvAnnounce (unit_num (the (map_of (global_units r) p)))))
          (drop (unat (num_units r - brought_up)) (take (unat (num_units r)) (units r))) s
      else s)"

definition DiscoverUnits :: "env \<Rightarrow> registry \<Rightarrow> drv \<Rightarrow> u32 \<times> registry \<times> drv" where
  "DiscoverUnits e r s =
     (case NVMe_IdentifyNSList e NVME_MAX_UNITS_PER_CTRL s of (nsids, s1) \<Rightarrow>
        if nsids = [] then (0, r, s1)
        else case discover_loop e nsids r 0 s1 of (r1, brought_up, s2) \<Rightarrow>
          if brought_up = 0 then (0, r1, s2) else (brought_up, r1, announce e r1 brought_up s2))"

section \<open>The account of a unit's queues\<close>

definition vecs_held :: "NVMeUnit \<Rightarrow> token multiset" where
  "vecs_held u = {#Tok_Vec (io_sq u), Tok_Vec (io_cq u)#}"

definition pins_held :: "env \<Rightarrow> NVMeUnit \<Rightarrow> token multiset" where
  "pins_held e u = {#Tok_Pin (io_sq u) io_sq_bytes (k_DMA_ReadFromRAM e), Tok_Pin (io_cq u) io_cq_bytes (k_DMA_ReadFromRAM e)#}"

definition queues_held :: "env \<Rightarrow> NVMeUnit \<Rightarrow> token multiset" where
  "queues_held e u = vecs_held u + pins_held e u"

text \<open>What the provision of the queues leaves alone.\<close>

definition queue_frame :: "drv \<Rightarrow> drv \<Rightarrow> bool" where
  "queue_frame s s' \<longleftrightarrow>
     (unit_st s')\<lparr>io_sq := 0, io_cq := 0, io_sq_phys := 0, io_cq_phys := 0, io_cq_phase := 0\<rparr> =
     (unit_st s)\<lparr>io_sq := 0, io_cq := 0, io_sq_phys := 0, io_cq_phys := 0, io_cq_phase := 0\<rparr> \<and>
     ring_frame (ctrl_st s) (ctrl_st s') \<and> reqs s' = reqs s"

lemma queue_frame_refl [simp]: "queue_frame s s"
  by (simp add: queue_frame_def)

lemma queue_frame_trans: "queue_frame s t \<Longrightarrow> queue_frame t u \<Longrightarrow> queue_frame s u"
  unfolding queue_frame_def using ring_frame_trans by metis

lemma queue_frame_log [simp]: "queue_frame s (log_ev ev t) = queue_frame s t"
  by (simp add: queue_frame_def)

lemma free_queues_moves: "moves s (free_queues s) (vecs_held (unit_st s) + R) R"
  by (simp add: free_queues_def vecs_held_def FreeVec_def moves_def)

lemma unmap_queues_moves: "moves s (unmap_queues e s) (pins_held e (unit_st s) + R) R"
  by (simp add: unmap_queues_def pins_held_def EndDMA_def moves_def)

lemma free_queues_kept [simp]: "unit_st (free_queues s) = unit_st s" "queue_frame r (free_queues s) = queue_frame r s"
  by (simp_all add: free_queues_def FreeVec_def)

lemma unmap_queues_kept [simp]: "unit_st (unmap_queues e s) = unit_st s" "queue_frame r (unmap_queues e s) = queue_frame r s"
  by (simp_all add: unmap_queues_def EndDMA_def)

lemma alloc_queues_result:
  assumes "alloc_queues e s = (ok, s')"
  shows "queue_frame s s'" and "if ok then moves s s' {#} (vecs_held (unit_st s')) \<and> io_sq (unit_st s') \<noteq> 0 \<and> io_cq (unit_st s') \<noteq> 0
    else moves s s' {#} {#}"
  using assms
  by (auto simp: alloc_queues_def Let_def AllocVec_def FreeVec_def queue_frame_def vecs_held_def moves_def split: if_splits)

lemma map_queues_result:
  assumes "map_queues e s = (ok, s')"
  shows "queue_frame s s'" and "io_sq (unit_st s') = io_sq (unit_st s)" and "io_cq (unit_st s') = io_cq (unit_st s)"
    and "moves s s' (vecs_held (unit_st s)) (if ok then queues_held e (unit_st s') else {#})"
    and "ok \<Longrightarrow> io_cq_phase (unit_st s') = 1"
  using assms
  by (auto simp: map_queues_def Let_def resource_defs queue_frame_def vecs_held_def queues_held_def pins_held_def moves_def
      free_queues_def unmap_queues_def split: if_splits)

lemma CreateIOCQ_kept:
  assumes "NVMe_CreateIOCQ e ph s = (ok, s')"
  shows "admin_kept s s'" and "ring_frame (ctrl_st s) (ctrl_st s')"
  using assms locked_cmd_kept [of s e] locked_cmd_frame [of s e] by (auto simp: NVMe_CreateIOCQ_def split: prod.splits) (metis snd_conv)+

lemma CreateIOSQ_kept:
  assumes "NVMe_CreateIOSQ e ph s = (ok, s')"
  shows "admin_kept s s'" and "ring_frame (ctrl_st s) (ctrl_st s')"
  using assms locked_cmd_kept [of s e] locked_cmd_frame [of s e] by (auto simp: NVMe_CreateIOSQ_def split: prod.splits) (metis snd_conv)+

lemma admin_queue_frame: "admin_kept s t \<Longrightarrow> ring_frame (ctrl_st s) (ctrl_st t) \<Longrightarrow> queue_frame s t"
  by (simp add: admin_kept_def queue_frame_def)

lemma create_queues_result:
  assumes "create_queues e s = (ok, s')"
  shows "queue_frame s s'" and "moves s s' (queues_held e (unit_st s)) (if ok then queues_held e (unit_st s') else {#})"
    and "unit_st s' = unit_st s"
proof -
  obtain ok1 s1 where c1: "NVMe_CreateIOCQ e (io_cq_phys (unit_st s)) s = (ok1, s1)" by fastforce
  obtain ok2 s2 where c2: "(if ok1 then NVMe_CreateIOSQ e (io_sq_phys (unit_st s1)) s1 else (False, s1)) = (ok2, s2)" by fastforce
  have k: "admin_kept s s1 \<and> ring_frame (ctrl_st s) (ctrl_st s1)" "admin_kept s1 s2 \<and> ring_frame (ctrl_st s1) (ctrl_st s2)"
    using CreateIOCQ_kept [OF c1] CreateIOSQ_kept [of e _ s1 ok2 s2] c2 by (auto split: if_splits)
  then have a: "admin_kept s s2" and f: "queue_frame s s2"
    using admin_kept_trans ring_frame_trans admin_queue_frame by blast+
  have u: "unit_st s2 = unit_st s" using a by (simp add: admin_kept_def)
  have r: "(ok, s') = (if ok2 then (True, s2) else (False, free_queues (unmap_queues e s2)))"
    using assms c1 c2 by (simp add: create_queues_def)
  have m: "moves s s2 (queues_held e (unit_st s)) (pins_held e (unit_st s2) + vecs_held (unit_st s2))"
    using moves_admin [OF a] u by (simp add: queues_held_def ac_simps)
  have "moves s (free_queues (unmap_queues e s2)) (queues_held e (unit_st s)) {#}"
    using moves_trans [OF moves_trans [OF m unmap_queues_moves]] free_queues_moves [of "unmap_queues e s2" "{#}"] by simp
  then show "queue_frame s s'" "moves s s' (queues_held e (unit_st s)) (if ok then queues_held e (unit_st s') else {#})"
    "unit_st s' = unit_st s"
    using r f u moves_admin [OF a] by (auto split: if_splits)
qed

lemma provision_queues_result:
  assumes "provision_queues e s = (ok, s')"
  shows "queue_frame s s'" and "moves s s' {#} (if ok then queues_held e (unit_st s') else {#})"
    and "ok \<Longrightarrow> io_cq_phase (unit_st s') = 1 \<and> io_sq (unit_st s') \<noteq> 0 \<and> io_cq (unit_st s') \<noteq> 0"
proof -
  obtain ok1 s1 where c1: "alloc_queues e s = (ok1, s1)" by fastforce
  obtain ok2 s2 where c2: "map_queues e s1 = (ok2, s2)" by fastforce
  obtain ok3 s3 where c3: "create_queues e s2 = (ok3, s3)" by fastforce
  have r: "(ok, s') = (if \<not> ok1 then (False, s1) else if \<not> ok2 then (False, s2) else (ok3, s3))"
    using assms by (auto simp: provision_queues_def c1 c2 c3 split: if_splits)
  note A = alloc_queues_result [OF c1] and M = map_queues_result [OF c2] and C = create_queues_result [OF c3]
  have m2: "moves s s2 {#} (if ok2 then queues_held e (unit_st s2) else {#})" if ok1
    using A(2) M(4) that by (auto intro: moves_trans)
  have m3: "moves s s3 {#} (if ok3 then queues_held e (unit_st s3) else {#})" if "ok1" "ok2"
    using m2 C(2) that by (auto intro: moves_trans)
  have "queue_frame s s2" "queue_frame s s3"
    using queue_frame_trans [OF A(1) M(1)] queue_frame_trans [OF queue_frame_trans [OF A(1) M(1)] C(1)] by blast+
  then show "queue_frame s s'" using r A(1) by (simp split: if_splits)
  show "moves s s' {#} (if ok then queues_held e (unit_st s') else {#})"
    using r A(2) m2 m3 by (auto split: if_splits)
  show "io_cq_phase (unit_st s') = 1 \<and> io_sq (unit_st s') \<noteq> 0 \<and> io_cq (unit_st s') \<noteq> 0" if ok
    using that r A(2) M(2,3,5) C(3) by (auto split: if_splits)
qed

text \<open>A unit that is online: its namespace has blocks, nothing runs and nothing is queued.\<close>

definition online :: "NVMeUnit \<Rightarrow> bool" where
  "online u \<longleftrightarrow> total_blocks u \<noteq> 0 \<and> unstarted u \<and> unit_ok u \<and> (\<forall>f\<in>set (inflight u). inf_ioreq f = 0) \<and>
     waiting u = [] \<and> io_cq_phase u = 1 \<and> io_sq_tail u = 0 \<and> io_cq_head u = 0 \<and> io_sq u \<noteq> 0 \<and> io_cq u \<noteq> 0 \<and>
     unit_task u = 0 \<and> io_port u = 0 \<and> open_count u = 0"

lemma IdentifyNamespace_result:
  assumes "NVMe_IdentifyNamespace e s = (ok, s')"
  shows "moves s s' R R" and "ring_frame (ctrl_st s) (ctrl_st s')" and "reqs s' = reqs s"
    and "\<exists>b. unit_st s' = (if ok then parse_namespace b (unit_st s) else unit_st s)"
proof -
  obtain st t where t: "locked_cmd e (identify_sqe (nsid (unit_st s)) (identify_phys (ctrl_st s)) NVME_ID_CNS_NAMESPACE) s = (st, t)"
    by fastforce
  have k: "admin_kept s t" "ring_frame (ctrl_st s) (ctrl_st t)"
    using locked_cmd_kept [of s e] locked_cmd_frame [of s e] t by (metis snd_conv)+
  show "moves s s' R R" "ring_frame (ctrl_st s) (ctrl_st s')" "reqs s' = reqs s"
    and "\<exists>b. unit_st s' = (if ok then parse_namespace b (unit_st s) else unit_st s)"
    using assms k moves_admin [OF k(1), of R] by (auto simp: NVMe_IdentifyNamespace_def t admin_kept_def split: if_splits)
qed

lemma build_unit_result:
  assumes "build_unit e s = (ok, s')" and "unit_st s = new_unit num ns local c" and "0 < io_queue_depth c"
  shows "moves s s' {#} (if ok then queues_held e (unit_st s') else {#})" and "ring_frame (ctrl_st s) (ctrl_st s')"
    and "reqs s' = reqs s"
    and "ok \<Longrightarrow> online (unit_st s') \<and> unit_num (unit_st s') = num \<and> nsid (unit_st s') = ns \<and>
      queue_id (unit_st s') = ucast (local + 1) \<and> queue_depth (unit_st s') = io_queue_depth c \<and> unit_ctrl (unit_st s') = ctrl_idx c"
proof -
  obtain ok1 s1 where c1: "NVMe_IdentifyNamespace e s = (ok1, s1)" by fastforce
  obtain ok2 s2 where c2: "provision_queues e s1 = (ok2, s2)" by fastforce
  note I = IdentifyNamespace_result [OF c1] and P = provision_queues_result [OF c2]
  have r: "(ok, s') = (if \<not> ok1 \<or> total_blocks (unit_st s1) = 0 then (False, s1) else (ok2, s2))"
    using assms(1) by (auto simp: build_unit_def c1 c2 split: if_splits)
  have m: "moves s s2 {#} (if ok2 then queues_held e (unit_st s2) else {#})" by (rule moves_trans [OF I(1) P(2)])
  show "moves s s' {#} (if ok then queues_held e (unit_st s') else {#})"
    using r m I(1) by (auto split: if_splits)
  show "ring_frame (ctrl_st s) (ctrl_st s')" "reqs s' = reqs s"
    using r I(2,3) P(1) ring_frame_trans [OF I(2), of "ctrl_st s2"] by (simp_all add: queue_frame_def split: if_splits)
  assume ok
  then have o: "ok1" "ok2" "s' = s2" "total_blocks (unit_st s1) \<noteq> 0" using r by (auto split: if_splits)
  obtain b where b: "unit_st s1 = parse_namespace b (new_unit num ns local c)" using I(4) o(1) assms(2) by auto
  have "unit_st s' = (unit_st s1)\<lparr>io_sq := io_sq (unit_st s'), io_cq := io_cq (unit_st s'), io_sq_phys := io_sq_phys (unit_st s'),
      io_cq_phys := io_cq_phys (unit_st s'), io_cq_phase := 1\<rparr>"
    using P(1,3) o by (cases "unit_st s1"; cases "unit_st s'") (simp add: queue_frame_def)
  then obtain sq cq ph_s ph_c where u: "unit_st s' = (unit_st s1)\<lparr>io_sq := sq, io_cq := cq, io_sq_phys := ph_s, io_cq_phys := ph_c, io_cq_phase := 1\<rparr>"
    by blast
  have "sq \<noteq> 0" "cq \<noteq> 0" using u P(3) o by simp_all
  then show "online (unit_st s') \<and> unit_num (unit_st s') = num \<and> nsid (unit_st s') = ns \<and>
      queue_id (unit_st s') = ucast (local + 1) \<and> queue_depth (unit_st s') = io_queue_depth c \<and> unit_ctrl (unit_st s') = ctrl_idx c"
    using o(4) assms(3) unfolding u b
    by (simp add: online_def parse_namespace_def Let_def new_unit_def zero_unit_def unstarted_def unit_ok_def slot_ok_def
        zero_slot_def waiting_def occupied_def zero_stats_def)
qed

text \<open>One namespace: a unit that goes online holds its memory, its queues and their mappings; otherwise nothing is held.\<close>

definition unit_held :: "env \<Rightarrow> u32 \<times> NVMeUnit \<Rightarrow> token multiset" where
  "unit_held e x = add_mset (Tok_Vec (fst x)) (queues_held e (snd x))"

lemma discover_unit_result:
  assumes "discover_unit e r ns s = (res, s')" and "0 < io_queue_depth (ctrl_st s)"
  shows "ring_frame (ctrl_st s) (ctrl_st s')" and "reqs s' = reqs s"
    and "case res of None \<Rightarrow> moves s s' {#} {#}
      | Some p \<Rightarrow> moves s s' {#} (unit_held e (p, unit_st s')) \<and> p \<noteq> 0 \<and> online (unit_st s') \<and>
          unit_num (unit_st s') = num_global_units r \<and> nsid (unit_st s') = ns \<and>
          queue_id (unit_st s') = ucast (num_units r + 1) \<and> queue_depth (unit_st s') = io_queue_depth (ctrl_st s) \<and>
          unit_ctrl (unit_st s') = ctrl_idx (ctrl_st s)"
proof -
  define p where "p = e_AllocVec e (trace s) (k_sizeof_NVMeUnit e)"
  define s1 where "s1 = upd_unit (\<lambda>_. new_unit (num_global_units r) ns (num_units r) (ctrl_st s)) (log_ev (EvAllocVec p) s)"
  obtain ok s2 where c: "build_unit e s1 = (ok, s2)" by fastforce
  have u: "unit_st s1 = new_unit (num_global_units r) ns (num_units r) (ctrl_st s)" by (simp add: s1_def)
  note B = build_unit_result [OF c u assms(2)]
  have r: "(res, s') = (if p = 0 then (None, log_ev (EvAllocVec p) s) else if ok then (Some p, s2) else (None, FreeVec p s2))"
    using assms(1) c by (auto simp: discover_unit_def AllocVec_def Let_def p_def s1_def split: if_splits)
  have m: "moves s s2 {#} (if ok then unit_held e (p, unit_st s2) else {#Tok_Vec p#})" if "p \<noteq> 0"
  proof (rule moves_trans)
    show "moves s s1 {#} {#Tok_Vec p#}" using that by (simp add: s1_def moves_def)
    show "moves s1 s2 {#Tok_Vec p#} (if ok then unit_held e (p, unit_st s2) else {#Tok_Vec p#})"
      using moves_frame [OF B(1), of "{#Tok_Vec p#}"] by (simp add: unit_held_def split: if_splits)
  qed
  have c1: "ctrl_st s1 = ctrl_st s" "reqs s1 = reqs s" by (simp_all add: s1_def)
  have "moves s (FreeVec p s2) {#} {#}" if "p \<noteq> 0" "\<not> ok"
    using m [OF that(1)] that(2) by (simp add: FreeVec_def moves_def)
  then show "ring_frame (ctrl_st s) (ctrl_st s')" and "reqs s' = reqs s"
    and "case res of None \<Rightarrow> moves s s' {#} {#}
      | Some p \<Rightarrow> moves s s' {#} (unit_held e (p, unit_st s')) \<and> p \<noteq> 0 \<and> online (unit_st s') \<and>
          unit_num (unit_st s') = num_global_units r \<and> nsid (unit_st s') = ns \<and>
          queue_id (unit_st s') = ucast (num_units r + 1) \<and> queue_depth (unit_st s') = io_queue_depth (ctrl_st s) \<and>
          unit_ctrl (unit_st s') = ctrl_idx (ctrl_st s)"
    using r B(2-4) m c1 by (auto simp: FreeVec_def moves_def split: if_splits)
qed

section \<open>All namespaces\<close>

text \<open>The counters are the lengths of the tables, which never overflow.\<close>

definition registry_ok :: "registry \<Rightarrow> bool" where
  "registry_ok r \<longleftrightarrow> num_units r = of_nat (length (units r)) \<and> num_global_units r = of_nat (length (global_units r)) \<and>
     length (units r) \<le> NVME_MAX_UNITS_PER_CTRL \<and> length (global_units r) \<le> NVME_MAX_GLOBAL_UNITS"

text \<open>The unit at place \<open>g\<close> of the flat table and place \<open>i\<close> of its controller.\<close>

definition placed :: "NVMeController \<Rightarrow> nat \<Rightarrow> nat \<Rightarrow> u32 \<times> NVMeUnit \<Rightarrow> bool" where
  "placed c g i x \<longleftrightarrow> fst x \<noteq> 0 \<and> online (snd x) \<and> unit_num (snd x) = of_nat g \<and>
     queue_id (snd x) = of_nat (i + 1) \<and> queue_depth (snd x) = io_queue_depth c \<and> unit_ctrl (snd x) = ctrl_idx c"

fun placed_all :: "NVMeController \<Rightarrow> nat \<Rightarrow> nat \<Rightarrow> (u32 \<times> NVMeUnit) list \<Rightarrow> bool" where
  "placed_all c g i [] \<longleftrightarrow> True"
| "placed_all c g i (x # xs) \<longleftrightarrow> placed c g i x \<and> placed_all c (Suc g) (Suc i) xs"

lemma placed_cong:
  assumes "caps_frame c d"
  shows "placed d = placed c" and "placed_all d = placed_all c"
proof -
  show p: "placed d = placed c" using assms by (intro ext) (simp add: placed_def caps_frame_def)
  have "placed_all d g i xs = placed_all c g i xs" for g i xs
    by (induction xs arbitrary: g i) (simp_all add: p)
  then show "placed_all d = placed_all c" by (intro ext)
qed

lemma placed_all_nth: "placed_all c g i xs \<Longrightarrow> j < length xs \<Longrightarrow> placed c (g + j) (i + j) (xs ! j)"
proof (induction xs arbitrary: g i j)
  case (Cons x xs)
  then show ?case by (cases j) fastforce+
qed simp

definition units_held :: "env \<Rightarrow> (u32 \<times> NVMeUnit) list \<Rightarrow> token multiset" where
  "units_held e xs = (\<Sum>x\<leftarrow>xs. unit_held e x)"

lemma full_iff:
  assumes "registry_ok r"
  shows "num_global_units r \<ge> of_nat NVME_MAX_GLOBAL_UNITS \<longleftrightarrow> length (global_units r) = NVME_MAX_GLOBAL_UNITS"
proof -
  have "length (global_units r) \<le> 32" using assms by (simp add: registry_ok_def NVME_MAX_GLOBAL_UNITS_def NVME_MAX_CONTROLLERS_def
      NVME_MAX_UNITS_PER_CTRL_def)
  moreover from this have "unat (of_nat (length (global_units r)) :: u32) = length (global_units r)"
    by (intro unat_of_nat_small) simp
  ultimately show ?thesis
    using assms by (simp add: registry_ok_def word_le_nat_alt NVME_MAX_GLOBAL_UNITS_def NVME_MAX_CONTROLLERS_def
        NVME_MAX_UNITS_PER_CTRL_def)
qed

lemma queue_id_cast: "n < NVME_MAX_UNITS_PER_CTRL \<Longrightarrow> (ucast (of_nat n + 1 :: u32) :: u16) = of_nat (n + 1)"
  by (simp add: word_unat_eq_iff unsigned_ucast_eq take_bit_nat_def NVME_MAX_UNITS_PER_CTRL_def unat_word_ariths unat_of_nat)

lemma discover_loop_result:
  assumes "discover_loop e nss r b s = (r', b', s')" and "registry_ok r" and "0 < io_queue_depth (ctrl_st s)"
    and "length (units r) + length nss \<le> NVME_MAX_UNITS_PER_CTRL"
  shows "\<exists>new. length new \<le> length nss \<and> global_units r' = global_units r @ new \<and> units r' = units r @ map fst new \<and>
     registry_ok r' \<and> b' = b + of_nat (length new) \<and> moves s s' {#} (units_held e new) \<and> reqs s' = reqs s \<and>
     ring_frame (ctrl_st s) (ctrl_st s') \<and>
     placed_all (ctrl_st s) (length (global_units r)) (length (units r)) new"
  using assms
proof (induction nss arbitrary: r b s)
  case Nil
  then show ?case by (intro exI [of _ "[]"]) (simp add: units_held_def)
next
  case (Cons ns nss)
  show ?case
  proof (cases "num_global_units r \<ge> of_nat NVME_MAX_GLOBAL_UNITS")
    case True
    then show ?thesis using Cons.prems by (intro exI [of _ "[]"]) (simp add: units_held_def)
  next
    case False
    obtain res s1 where c: "discover_unit e r ns s = (res, s1)" by fastforce
    note D = discover_unit_result [OF c Cons.prems(3)]
    have d: "io_queue_depth (ctrl_st s1) = io_queue_depth (ctrl_st s)"
      using ring_frameD(7) [OF D(1)] by (simp add: caps_frame_def)
    have pc: "placed_all (ctrl_st s1) = placed_all (ctrl_st s)" by (rule placed_cong(2) [OF ring_frameD(7) [OF D(1)]])
    have lg: "length (global_units r) < NVME_MAX_GLOBAL_UNITS"
      using False full_iff [OF Cons.prems(2)] Cons.prems(2) by (simp add: registry_ok_def le_less)
    show ?thesis
    proof (cases res)
      case None
      have "discover_loop e nss r b s1 = (r', b', s')" using Cons.prems(1) False c None by simp
      from Cons.IH [OF this Cons.prems(2)] obtain new where
        n: "length new \<le> length nss" "global_units r' = global_units r @ new" "units r' = units r @ map fst new"
          "registry_ok r'" "b' = b + of_nat (length new)" "moves s1 s' {#} (units_held e new)" "reqs s' = reqs s1"
          "ring_frame (ctrl_st s1) (ctrl_st s')"
          "placed_all (ctrl_st s) (length (global_units r)) (length (units r)) new"
        using Cons.prems d pc by auto
      moreover have "moves s s1 {#} {#}" using D(3) None by simp
      ultimately show ?thesis
        using D(1,2) moves_trans ring_frame_trans by (intro exI [of _ new]) auto
    next
      case (Some p)
      let ?u = "unit_st s1"
      let ?r = "register p ?u r"
      have l: "discover_loop e nss ?r (b + 1) s1 = (r', b', s')" using Cons.prems(1) False c Some by simp
      have "registry_ok ?r" "length (units ?r) + length nss \<le> NVME_MAX_UNITS_PER_CTRL"
        using Cons.prems(2,4) lg by (simp_all add: registry_ok_def register_def)
      from Cons.IH [OF l this(1) _ this(2)] obtain new where
        n: "length new \<le> length nss" "global_units r' = global_units ?r @ new" "units r' = units ?r @ map fst new"
          "registry_ok r'" "b' = b + 1 + of_nat (length new)" "moves s1 s' {#} (units_held e new)" "reqs s' = reqs s1"
          "ring_frame (ctrl_st s1) (ctrl_st s')"
          "placed_all (ctrl_st s) (length (global_units ?r)) (length (units ?r)) new"
        using Cons.prems d pc by auto
      have m: "moves s s1 {#} (unit_held e (p, ?u))" and u: "p \<noteq> 0" "online ?u" "unit_num ?u = num_global_units r"
          "queue_id ?u = ucast (num_units r + 1)" "queue_depth ?u = io_queue_depth (ctrl_st s)" "unit_ctrl ?u = ctrl_idx (ctrl_st s)"
        using D(3) Some by simp_all
      have "length (units r) < NVME_MAX_UNITS_PER_CTRL" using Cons.prems(4) by simp
      then have "placed (ctrl_st s) (length (global_units r)) (length (units r)) (p, ?u)"
        using u Cons.prems(2) queue_id_cast by (simp add: placed_def registry_ok_def)
      moreover have "moves s s' {#} (units_held e ((p, ?u) # new))"
        using moves_trans [OF m moves_from [OF n(6)]] by (simp add: units_held_def ac_simps)
      ultimately show ?thesis
        using n D(1,2) ring_frame_trans [OF D(1) n(8)] by (intro exI [of _ "(p, ?u) # new"]) (simp add: register_def)
    qed
  qed
qed

lemma ns_scan_length: "length (ns_scan b i n k) \<le> k"
proof (induction b i n k rule: ns_scan.induct)
  case (2 b i left k)
  then show ?case by (auto simp: Let_def)
qed simp

lemma IdentifyNSList_result:
  assumes "NVMe_IdentifyNSList e n s = (xs, s')"
  shows "length xs \<le> n" and "moves s s' R R" and "ring_frame (ctrl_st s) (ctrl_st s')" and "reqs s' = reqs s"
proof -
  obtain st t where t: "locked_cmd e (identify_sqe 0 (identify_phys (ctrl_st s)) NVME_ID_CNS_NS_LIST) s = (st, t)" by fastforce
  have k: "admin_kept s t" "ring_frame (ctrl_st s) (ctrl_st t)"
    using locked_cmd_kept [of s e] locked_cmd_frame [of s e] t by (metis snd_conv)+
  show "length xs \<le> n" "moves s s' R R" "ring_frame (ctrl_st s) (ctrl_st s')" "reqs s' = reqs s"
    using assms k moves_admin [OF k(1), of R] by (auto simp: NVMe_IdentifyNSList_def t ns_scan_length admin_kept_def split: if_splits)
qed

lemma announce_kept: "moves s (announce e r b s) R R" "ctrl_st (announce e r b s) = ctrl_st s" "reqs (announce e r b s) = reqs s"
proof -
  have "moves s (fold (\<lambda>p. log_ev (EvAnnounce (f p))) ps t) R R = moves s t R R \<and>
      ctrl_st (fold (\<lambda>p. log_ev (EvAnnounce (f p))) ps t) = ctrl_st t \<and>
      reqs (fold (\<lambda>p. log_ev (EvAnnounce (f p))) ps t) = reqs t" for f and ps :: "u32 list" and t
    by (induction ps arbitrary: t) simp_all
  then show "moves s (announce e r b s) R R" "ctrl_st (announce e r b s) = ctrl_st s" "reqs (announce e r b s) = reqs s"
    by (simp_all add: announce_def)
qed

lemma DiscoverUnits_result:
  assumes "DiscoverUnits e r s = (n, r', s')" and "registry_ok r" and "units r = []" and "0 < io_queue_depth (ctrl_st s)"
  shows "\<exists>new. length new \<le> NVME_MAX_UNITS_PER_CTRL \<and> global_units r' = global_units r @ new \<and> units r' = map fst new \<and>
     registry_ok r' \<and> n = of_nat (length new) \<and> moves s s' {#} (units_held e new) \<and> reqs s' = reqs s \<and>
     ring_frame (ctrl_st s) (ctrl_st s') \<and> placed_all (ctrl_st s) (length (global_units r)) 0 new"
proof -
  obtain xs s1 where i: "NVMe_IdentifyNSList e NVME_MAX_UNITS_PER_CTRL s = (xs, s1)" by fastforce
  note I = IdentifyNSList_result [OF i]
  have d: "io_queue_depth (ctrl_st s1) = io_queue_depth (ctrl_st s)"
    using ring_frameD(7) [OF I(3)] by (simp add: caps_frame_def)
  have pc: "placed_all (ctrl_st s1) = placed_all (ctrl_st s)" by (rule placed_cong(2) [OF ring_frameD(7) [OF I(3)]])
  obtain r1 b s2 where l: "discover_loop e xs r 0 s1 = (r1, b, s2)" by (cases "discover_loop e xs r 0 s1")
  obtain new where new: "length new \<le> length xs" "global_units r1 = global_units r @ new" "units r1 = map fst new"
     "registry_ok r1" "b = of_nat (length new)" "moves s1 s2 {#} (units_held e new)" "reqs s2 = reqs s1"
     "ring_frame (ctrl_st s1) (ctrl_st s2)" "placed_all (ctrl_st s) (length (global_units r)) 0 new"
    using discover_loop_result [OF l assms(2)] assms(3,4) I(1) d pc by auto
  show ?thesis
  proof (cases "xs = []")
    case True
    then show ?thesis using assms i I by (intro exI [of _ "[]"]) (simp add: DiscoverUnits_def units_held_def)
  next
    case False
    have r: "n = b" "r' = r1" "s' = s2 \<or> s' = announce e r1 b s2"
      using assms(1) i l False by (auto simp: DiscoverUnits_def split: if_splits)
    have m: "moves s s2 {#} (units_held e new)" by (rule moves_trans [OF I(2) new(6)])
    have "moves s s' {#} (units_held e new) \<and> reqs s' = reqs s \<and> ring_frame (ctrl_st s) (ctrl_st s')"
      using r(3) m announce_kept moves_trans [OF m] new(7) I(3,4) ring_frame_trans [OF I(3) new(8)] by auto
    then show ?thesis using new r I(1) by (intro exI [of _ new]) simp
  qed
qed

end
