(* ===== verification/Nvme_Irq.thy ===== *)
theory Nvme_Irq
  imports Nvme_Resources Nvme_Unit_Task
begin

text \<open>
  The interrupt server of a controller (src/src/nvme/nvme_irq.c). It runs on the array of the
  controller's units, each with its completion queue; \<open>None\<close> is an empty place of the array.
\<close>

definition isr_peek :: "NVMeUnit \<Rightarrow> buf \<Rightarrow> bool" where
  "isr_peek u cq \<longleftrightarrow> io_cq u \<noteq> 0 \<and> NVME_CQE_PHASE (cqe_status cq (unat (io_cq_head u))) = ucast (io_cq_phase u)"

primrec isr_scan :: "(NVMeUnit \<times> buf) option list \<Rightarrow> bool" where
  "isr_scan [] = False"
| "isr_scan (x # xs) = (case x of Some (u, cq) \<Rightarrow> if isr_peek u cq then True else isr_scan xs | None \<Rightarrow> isr_scan xs)"

primrec signal_units :: "(NVMeUnit \<times> buf) option list \<Rightarrow> drv \<Rightarrow> drv" where
  "signal_units [] s = s"
| "signal_units (x # xs) s =
     (case x of
        Some (u, cq) \<Rightarrow> signal_units xs
          (if io_wait_task u \<noteq> 0 then log_ev (EvSignal (io_wait_task u) (io_signal_mask u)) s else s)
      | None \<Rightarrow> signal_units xs s)"

definition nvme_irq_handler :: "(NVMeUnit \<times> buf) option list \<Rightarrow> drv \<Rightarrow> bool \<times> drv" where
  "nvme_irq_handler units s =
     (let s1 = s\<lparr>isr_count := isr_count s + 1\<rparr> in
      if \<not> isr_scan units then (False, s1\<lparr>isr_not_ours := isr_not_ours s1 + 1\<rparr>)
      else let s2 = s1\<lparr>isr_claimed := isr_claimed s1 + 1\<rparr>;
               s3 = nvme_w32 (iobase (ctrl_st s2) + NVME_REG_INTMS) 1 s2
           in (True, signal_units units s3))"

definition InstallNVMeInterrupt :: "env \<Rightarrow> drv \<Rightarrow> bool \<times> drv" where
  "InstallNVMeInterrupt e s =
     (let s1 = upd_ctrl (\<lambda>c. c\<lparr>polling_mode := True, irq_installed := False\<rparr>) s in
      if pciDevice (ctrl_st s1) = 0 then (False, s1)
      else let irq = e_MapInterrupt e in
        if irq = 0 then (False, s1)
        else let ok = e_AddIntServer e (trace s1) irq; s2 = log_ev (EvAddIntServer irq ok) s1 in
          if \<not> ok then (False, s2)
          else (True, upd_ctrl (\<lambda>c. c\<lparr>irq_vector := irq, irq_installed := True, polling_mode := False\<rparr>) s2))"

definition RemoveNVMeInterrupt :: "drv \<Rightarrow> drv" where
  "RemoveNVMeInterrupt s =
     (if \<not> irq_installed (ctrl_st s) then s
      else let s1 = nvme_w32 (iobase (ctrl_st s) + NVME_REG_INTMS) 1 s;
               s2 = log_ev (EvRemIntServer (irq_vector (ctrl_st s1))) s1
           in upd_ctrl (\<lambda>c. c\<lparr>irq_installed := False, polling_mode := True\<rparr>) s2)"

section \<open>What the server does\<close>

lemma isr_scan_iff: "isr_scan xs \<longleftrightarrow> (\<exists>u cq. Some (u, cq) \<in> set xs \<and> isr_peek u cq)"
  by (induction xs) (auto split: option.splits)

definition task_signals :: "(NVMeUnit \<times> buf) option list \<Rightarrow> event list" where
  "task_signals xs = map (\<lambda>(u, cq). EvSignal (io_wait_task u) (io_signal_mask u))
     (filter (\<lambda>(u, cq). io_wait_task u \<noteq> 0) (List.map_filter id xs))"

lemma signal_units_eq: "signal_units xs s = s\<lparr>trace := trace s @ task_signals xs\<rparr>"
proof (induction xs arbitrary: s)
  case Nil
  then show ?case by (simp add: task_signals_def map_filter_simps)
next
  case (Cons x xs)
  then show ?case by (cases x) (auto simp: task_signals_def map_filter_simps log_ev_def)
qed

text \<open>The test of the server is the test of the harvest: there is an entry to consume.\<close>

lemma isr_peek_ready: "io_cq (unit_st s) \<noteq> 0 \<Longrightarrow> isr_peek (unit_st s) (cq_mem (ram s)) \<longleftrightarrow> cq_ready s"
  by (simp add: isr_peek_def cq_ready_def cq_status_def)

section \<open>The account of the server\<close>

definition int_held :: "NVMeController \<Rightarrow> token multiset" where
  "int_held c = tok_if (irq_installed c) (Tok_Int (irq_vector c))"

text \<open>Only the three fields of the interrupt are touched.\<close>

definition irq_frame :: "NVMeController \<Rightarrow> NVMeController \<Rightarrow> bool" where
  "irq_frame c c' \<longleftrightarrow> c'\<lparr>irq_vector := 0, irq_installed := False, polling_mode := False\<rparr> =
     c\<lparr>irq_vector := 0, irq_installed := False, polling_mode := False\<rparr>"

lemma InstallNVMeInterrupt_result:
  assumes "InstallNVMeInterrupt e s = (ok, s')"
  shows "moves s s' {#} (int_held (ctrl_st s'))" and "irq_installed (ctrl_st s') = ok" and "polling_mode (ctrl_st s') = (\<not> ok)"
    and "unit_st s' = unit_st s" and "reqs s' = reqs s" and "irq_frame (ctrl_st s) (ctrl_st s')"
  using assms
  by (auto simp: InstallNVMeInterrupt_def Let_def int_held_def irq_frame_def moves_def split: if_splits)

lemma RemoveNVMeInterrupt_moves: "moves s (RemoveNVMeInterrupt s) (int_held (ctrl_st s) + R) R"
  by (simp add: RemoveNVMeInterrupt_def Let_def int_held_def moves_def)

lemma RemoveNVMeInterrupt_frame: "irq_frame (ctrl_st s) (ctrl_st (RemoveNVMeInterrupt s))"
  by (simp add: RemoveNVMeInterrupt_def Let_def irq_frame_def)

end
