(* ===== verification/Nvme_Pci.thy ===== *)
theory Nvme_Pci
  imports Nvme_Init Nvme_Irq
begin

text \<open>
  The search for the controllers: platform detection and the probe of the registers
  (src/src/pci/platform_detect.c), the attributes of the register range (src/src/nvme_mmu.c) and
  the enumeration (src/src/pci/pci_discovery.c). The PCI bus is part of the environment:
  configuration registers, device handles and resource ranges. \<open>NVMeBase\<close> is the library base;
  \<open>controllers\<close> are the used places of its array of controllers, with their tables of units, and
  \<open>spare\<close> the places after them.
\<close>

section \<open>The base\<close>

datatype NVMePlatform =
    NVME_PLATFORM_UNKNOWN | NVME_PLATFORM_PEGASOS2 | NVME_PLATFORM_SAM440 | NVME_PLATFORM_SAM460EX
  | NVME_PLATFORM_X1000 | NVME_PLATFORM_X5000 | NVME_PLATFORM_A1222 | NVME_PLATFORM_AMIGAONE_XE
  | NVME_PLATFORM_UNSUPPORTED

record NVMeBase =
  ExpansionBase :: u32
  IPCI :: u32
  UtilityBase :: u32
  IUtility :: u32
  platform :: NVMePlatform
  controllers :: "(NVMeController \<times> u32 list) list"
  spare :: "(NVMeController \<times> u32 list) list"
  base_units :: "(u32 \<times> NVMeUnit) list"
  base_num :: u32
  lib_OpenCnt :: u16
  lib_delexp :: bool

definition load_ctrl :: "NVMeController \<Rightarrow> drv \<Rightarrow> drv" where
  "load_ctrl c = upd_ctrl (\<lambda>_. c)"

section \<open>The platform\<close>

definition bridge_table :: "(u16 \<times> u16 \<times> NVMePlatform \<times> string) list" where
  "bridge_table =
    [(0x11AB, 0x6460, NVME_PLATFORM_PEGASOS2, ''Pegasos II (MV64361)''),
     (0x10CC, 0x0660, NVME_PLATFORM_AMIGAONE_XE, ''AmigaOne XE (Articia S)''),
     (0x10E8, 0x7460, NVME_PLATFORM_SAM460EX, ''Sam460ex (AMCC 460EX)''),
     (0x10E8, 0x7440, NVME_PLATFORM_SAM440, ''Sam440ep (AMCC 440EP)''),
     (0x1959, 0x000A, NVME_PLATFORM_X1000, ''X1000 (PA6T Nemo)''),
     (0x1957, 0x0420, NVME_PLATFORM_X5000, ''X5000 (QorIQ P5020)''),
     (0x1957, 0x0440, NVME_PLATFORM_X5000, ''X5000 (QorIQ P5040)''),
     (0x1957, 0x0109, NVME_PLATFORM_A1222, ''A1222 (QorIQ P1022)'')]"

fun NVMe_PlatformName :: "NVMePlatform \<Rightarrow> string" where
  "NVMe_PlatformName NVME_PLATFORM_PEGASOS2 = ''Pegasos II''"
| "NVMe_PlatformName NVME_PLATFORM_SAM440 = ''Sam440ep''"
| "NVMe_PlatformName NVME_PLATFORM_SAM460EX = ''Sam460ex''"
| "NVMe_PlatformName NVME_PLATFORM_X1000 = ''X1000''"
| "NVMe_PlatformName NVME_PLATFORM_X5000 = ''X5000''"
| "NVMe_PlatformName NVME_PLATFORM_A1222 = ''A1222''"
| "NVMe_PlatformName NVME_PLATFORM_AMIGAONE_XE = ''AmigaOne XE (Articia S)''"
| "NVMe_PlatformName NVME_PLATFORM_UNSUPPORTED = ''unsupported bridge''"
| "NVMe_PlatformName NVME_PLATFORM_UNKNOWN = ''unknown''"

definition ReadConfig :: "env \<Rightarrow> u32 \<Rightarrow> u32 \<Rightarrow> drv \<Rightarrow> u32 \<times> drv" where
  "ReadConfig e d r s = (e_ReadConfig e (trace s) d r, log_ev (EvReadConfig d r) s)"

definition WriteConfig :: "u32 \<Rightarrow> u32 \<Rightarrow> u32 \<Rightarrow> drv \<Rightarrow> drv" where
  "WriteConfig d r v = log_ev (EvWriteConfig d r v)"

primrec bridge_scan :: "u16 \<Rightarrow> u16 \<Rightarrow> (u16 \<times> u16 \<times> NVMePlatform \<times> string) list \<Rightarrow> NVMePlatform" where
  "bridge_scan vid did [] = NVME_PLATFORM_UNKNOWN"
| "bridge_scan vid did (x # xs) =
     (case x of (v, d, p, n) \<Rightarrow> if v = vid \<and> d = did then p else bridge_scan vid did xs)"

definition NVMe_PlatformDetect :: "env \<Rightarrow> u32 \<Rightarrow> drv \<Rightarrow> NVMePlatform \<times> drv" where
  "NVMe_PlatformDetect e ipci s =
     (if ipci = 0 then (NVME_PLATFORM_UNKNOWN, s)
      else let bridge = e_FindBridge e (trace s); s1 = log_ev (EvFindDevice bridge) s in
        if bridge = 0 then (NVME_PLATFORM_UNKNOWN, s1)
        else case ReadConfig e bridge (k_PCI_VENDOR_ID e) s1 of (vid, s2) \<Rightarrow>
          case ReadConfig e bridge (k_PCI_DEVICE_ID e) s2 of (did, s3) \<Rightarrow>
            (bridge_scan (ucast vid) (ucast did) bridge_table, log_ev (EvFreeDevice bridge) s3))"

section \<open>The probe\<close>

definition NVMe_MMIOProbe :: "env \<Rightarrow> u32 \<Rightarrow> drv \<Rightarrow> bool \<times> u32 \<times> drv" where
  "NVMe_MMIOProbe e io s =
     (case nvme_r32 e (io + NVME_REG_CAP_LO) s of (cap_lo, s1) \<Rightarrow>
        if cap_lo = 0 then (False, cap_lo, s1)
        else if cap_lo = 0xFFFFFFFF then (False, cap_lo, s1)
        else if cap_lo = 0xA5A55A5A then (False, cap_lo, s1)
        else if NVME_CAP_MQES cap_lo = 0 then (False, cap_lo, s1)
        else case nvme_r32 e (io + NVME_REG_VS) s1 of (vs, s2) \<Rightarrow>
          let mjr = drop_bit 16 vs AND 0xFFFF; mnr = drop_bit 8 vs AND 0xFF
          in (if mjr < 1 \<or> mjr > 2 \<or> mnr > 15 then (False, cap_lo, s2) else (True, cap_lo, s2)))"

text \<open>Caching off for the registers; without the MMU interface nothing is changed.\<close>

definition NVMe_MMU_SetupBAR :: "env \<Rightarrow> u32 \<Rightarrow> drv \<Rightarrow> drv" where
  "NVMe_MMU_SetupBAR e bar s =
     (let r = e_range e bar in
      if bar = 0 \<or> range_Flags r AND k_PCI_RANGE_MEMORY e = 0 then s
      else let p = e_GetInterface e (trace s) (k_SysBase e) ''mmu''; s1 = log_ev (EvGetInterface p) s in
        if p = 0 then s1
        else let s2 = log_ev EvForbid s1;
                 attrs = e_GetMemoryAttrs e (trace s2) (BaseAddress r) OR k_MEMATTRF_CACHEINHIBIT e OR k_MEMATTRF_GUARDED e;
                 s3 = log_ev (EvSetMemoryAttrs (BaseAddress r) (range_Size r) attrs) s2
          in log_ev (EvDropInterface p) (log_ev EvPermit s3))"

section \<open>One device\<close>

definition NVME_PCI_CLASS :: u32 where "NVME_PCI_CLASS = 0x010802"
definition NVME_PCI_CLASS_MASK :: u32 where "NVME_PCI_CLASS_MASK = 0x00FFFFFF"
definition NVME_BAR0_MIN_SIZE :: u32 where "NVME_BAR0_MIN_SIZE = 0x2000"

text \<open>Memory and bus mastering on, interrupts not disabled.\<close>

definition enable_device :: "env \<Rightarrow> u32 \<Rightarrow> drv \<Rightarrow> drv" where
  "enable_device e d s =
     (case ReadConfig e d (k_PCI_COMMAND e) s of (v, s1) \<Rightarrow>
        let cmd = (ucast v :: u16) OR (k_PCI_COMMAND_MEMORY e OR k_PCI_COMMAND_MASTER e)
        in WriteConfig d (k_PCI_COMMAND e) (ucast (cmd AND NOT (k_PCI_COMMAND_INT_DISABLE e))) s1)"

text \<open>The upper half of a 64-bit BAR that still holds the sizing pattern is zeroed.\<close>

definition repair_bar :: "env \<Rightarrow> u32 \<Rightarrow> drv \<Rightarrow> drv" where
  "repair_bar e d s =
     (case ReadConfig e d (k_PCI_BASE_ADDRESS_0 e) s of (lo, s1) \<Rightarrow>
        if lo AND 7 = 4 then
          (case ReadConfig e d (k_PCI_BASE_ADDRESS_1 e) s1 of (hi, s2) \<Rightarrow>
             if hi = 0xFFFFFFFF then WriteConfig d (k_PCI_BASE_ADDRESS_1 e) 0 s2 else s2)
        else s1)"

definition drop_device :: "u32 \<Rightarrow> drv \<Rightarrow> drv" where
  "drop_device d s = upd_ctrl (\<lambda>c. c\<lparr>pciDevice := 0\<rparr>) (log_ev (EvFreeDevice d) s)"

definition drop_range :: "u32 \<Rightarrow> drv \<Rightarrow> drv" where
  "drop_range d s = upd_ctrl (\<lambda>c. c\<lparr>bar0 := 0\<rparr>) (log_ev (EvFreeRange d (bar0 (ctrl_st s))) s)"

definition probe_slot :: "env \<Rightarrow> u32 \<Rightarrow> u32 \<Rightarrow> drv \<Rightarrow> bool \<times> drv" where
  "probe_slot e d n s0 =
     (let s1 = upd_ctrl (\<lambda>c. c\<lparr>ctrl_idx := n, pciDevice := d\<rparr>) s0;
          s2 = snd (ReadConfig e d (k_PCI_DEVICE_ID e) (snd (ReadConfig e d (k_PCI_VENDOR_ID e) s1)));
          s3 = repair_bar e d (enable_device e d s2);
          bar = e_GetResourceRange e (trace s3) d;
          s4 = upd_ctrl (\<lambda>c. c\<lparr>bar0 := bar\<rparr>) (log_ev (EvGetRange d bar) s3);
          r = e_range e bar in
      if bar = 0 then (False, drop_device d s4)
      else if range_Size r \<noteq> 0 \<and> range_Size r < NVME_BAR0_MIN_SIZE then (False, drop_device d (drop_range d s4))
      else
        let s5 = upd_ctrl (\<lambda>c. c\<lparr>iobase := (if BaseAddress r \<noteq> 0 then BaseAddress r else Physical r)\<rparr>) s4
        in case NVMe_MMIOProbe e (iobase (ctrl_st s5)) (NVMe_MMU_SetupBAR e bar s5) of (ok, cap_lo, s6) \<Rightarrow>
             if \<not> ok then (False, drop_device d (drop_range d s6)) else (True, s6))"

section \<open>The enumeration\<close>

text \<open>
  The place after the used ones is filled in; it becomes a used one if the device passes. The
  search goes on to the next device of the class, and ends where there is none.
\<close>

primrec find_ctrls :: "env \<Rightarrow> nat list \<Rightarrow> NVMeBase \<Rightarrow> drv \<Rightarrow> NVMeBase \<times> drv" where
  "find_ctrls e [] b s = (b, s)"
| "find_ctrls e (i # is) b s =
     (let d = e_FindClass e (trace s) NVME_PCI_CLASS NVME_PCI_CLASS_MASK (of_nat i); s1 = log_ev (EvFindDevice d) s in
      if d = 0 then (b, s1)
      else case hd (spare b) of (c, us) \<Rightarrow>
        case probe_slot e d (of_nat (length (controllers b))) (load_ctrl c s1) of (ok, s2) \<Rightarrow>
          find_ctrls e is
            (if ok then b\<lparr>controllers := controllers b @ [(ctrl_st s2, us)], spare := tl (spare b)\<rparr>
             else b\<lparr>spare := (ctrl_st s2, us) # tl (spare b)\<rparr>) s2)"

definition DiscoverNVMe :: "env \<Rightarrow> NVMeBase \<Rightarrow> drv \<Rightarrow> bool \<times> NVMeBase \<times> drv" where
  "DiscoverNVMe e b s =
     (case NVMe_PlatformDetect e (IPCI b) s of (p, s1) \<Rightarrow>
      case find_ctrls e [0..<NVME_MAX_CONTROLLERS]
          (b\<lparr>platform := p, controllers := [], spare := controllers b @ spare b\<rparr>) s1 of (b1, s2) \<Rightarrow>
        (controllers b1 \<noteq> [], b1, s2))"

section \<open>The probe decides\<close>

definition valid_cap :: "u32 \<Rightarrow> bool" where
  "valid_cap cap_lo \<longleftrightarrow> cap_lo \<notin> {0, 0xFFFFFFFF, 0xA5A55A5A} \<and> NVME_CAP_MQES cap_lo \<noteq> 0"

definition valid_version :: "u32 \<Rightarrow> bool" where
  "valid_version vs \<longleftrightarrow> drop_bit 16 vs AND 0xFFFF \<in> {1, 2} \<and> drop_bit 8 vs AND 0xFF \<le> 15"

lemma valid_version_iff:
  "valid_version vs \<longleftrightarrow> \<not> (drop_bit 16 vs AND 0xFFFF < 1 \<or> drop_bit 16 vs AND 0xFFFF > 2 \<or> drop_bit 8 vs AND 0xFF > 15)"
proof -
  have "x \<in> {1, 2} \<longleftrightarrow> \<not> (x < 1 \<or> x > 2)" for x :: u32
  proof -
    have n: "unat (1 :: u32) = 1" "unat (2 :: u32) = 2" by simp_all
    have "x = 1 \<longleftrightarrow> unat x = unat (1 :: u32)" "x = 2 \<longleftrightarrow> unat x = unat (2 :: u32)"
      by (rule word_eq_iff_unsigned)+
    moreover have "unat x = 1 \<or> unat x = 2 \<longleftrightarrow> \<not> (unat x < 1 \<or> 2 < unat x)" by presburger
    ultimately show ?thesis by (simp only: word_less_nat_alt insert_iff empty_iff n simp_thms)
  qed
  from this [of "drop_bit 16 vs AND 0xFFFF"] show ?thesis unfolding valid_version_def by (simp only: not_less de_Morgan_disj conj_assoc)
qed

text \<open>The device behind a register base answers like a controller.\<close>

definition answers :: "env \<Rightarrow> u32 \<Rightarrow> bool" where
  "answers e io \<longleftrightarrow> (\<exists>tr tr'. valid_cap (e_mmio e tr (io + NVME_REG_CAP_LO)) \<and> valid_version (e_mmio e tr' (io + NVME_REG_VS)))"

lemma MMIOProbe_result:
  assumes "NVMe_MMIOProbe e io s = (ok, cap_lo, s')"
  shows "only_trace s s'" and "moves s s' R R"
    and "ok \<longleftrightarrow> valid_cap (e_mmio e (trace s) (io + NVME_REG_CAP_LO)) \<and>
      valid_version (e_mmio e (trace s @ [EvR32 (io + NVME_REG_CAP_LO)]) (io + NVME_REG_VS))"
    and "ok \<Longrightarrow> answers e io"
proof -
  show "only_trace s s'" "moves s s' R R"
    using assms by (auto simp: NVMe_MMIOProbe_def nvme_r32_def Let_def split: if_splits)
  show iff: "ok \<longleftrightarrow> valid_cap (e_mmio e (trace s) (io + NVME_REG_CAP_LO)) \<and>
      valid_version (e_mmio e (trace s @ [EvR32 (io + NVME_REG_CAP_LO)]) (io + NVME_REG_VS))"
    using assms by (auto simp del: word_less_1 simp: NVMe_MMIOProbe_def nvme_r32_def Let_def valid_cap_def valid_version_iff split: if_splits)
  show "ok \<Longrightarrow> answers e io" using iff by (auto simp: answers_def)
qed

lemma MMU_SetupBAR_kept: "only_trace s (NVMe_MMU_SetupBAR e bar s)" "moves s (NVMe_MMU_SetupBAR e bar s) R R"
  by (simp_all add: NVMe_MMU_SetupBAR_def Let_def moves_def)

lemma PlatformDetect_kept:
  assumes "NVMe_PlatformDetect e ipci s = (p, s')"
  shows "only_trace s s'" and "moves s s' R R"
  using assms by (auto simp: NVMe_PlatformDetect_def ReadConfig_def Let_def moves_def split: if_splits)

text \<open>The keys of the table are distinct, so the order of the search does not matter.\<close>

lemma bridge_scan_iff:
  assumes "distinct (map (\<lambda>(v, d, p, n). (v, d)) xs)" and "(v, d, p, n) \<in> set xs"
  shows "bridge_scan v d xs = p"
  using assms by (induction xs) (force split: prod.splits)+

lemma bridge_table_keys: "distinct (map (\<lambda>(v, d, p, n). (v, d)) bridge_table)"
  by (simp add: bridge_table_def)

section \<open>The account of the enumeration\<close>

definition pci_held :: "NVMeController \<Rightarrow> token multiset" where
  "pci_held c = tok_if (pciDevice c \<noteq> 0) (Tok_Dev (pciDevice c)) + tok_if (bar0 c \<noteq> 0) (Tok_Range (pciDevice c) (bar0 c))"

text \<open>Only the location of the controller is filled in.\<close>

definition pci_frame :: "NVMeController \<Rightarrow> NVMeController \<Rightarrow> bool" where
  "pci_frame c c' \<longleftrightarrow> c'\<lparr>ctrl_idx := 0, pciDevice := 0, bar0 := 0, iobase := 0\<rparr> = c\<lparr>ctrl_idx := 0, pciDevice := 0, bar0 := 0, iobase := 0\<rparr>"

definition located :: "env \<Rightarrow> NVMeController \<Rightarrow> bool" where
  "located e c \<longleftrightarrow> pciDevice c \<noteq> 0 \<and> bar0 c \<noteq> 0 \<and> answers e (iobase c) \<and>
     iobase c = (if BaseAddress (e_range e (bar0 c)) \<noteq> 0 then BaseAddress (e_range e (bar0 c)) else Physical (e_range e (bar0 c))) \<and>
     (range_Size (e_range e (bar0 c)) = 0 \<or> NVME_BAR0_MIN_SIZE \<le> range_Size (e_range e (bar0 c)))"

lemma config_kept:
  "ctrl_st (enable_device e d s) = ctrl_st s" "unit_st (enable_device e d s) = unit_st s" "reqs (enable_device e d s) = reqs s"
  "ctrl_st (repair_bar e d s) = ctrl_st s" "unit_st (repair_bar e d s) = unit_st s" "reqs (repair_bar e d s) = reqs s"
  "moves t (enable_device e d s) R A = moves t s R A" "moves t (repair_bar e d s) R A = moves t s R A"
  by (simp_all add: enable_device_def repair_bar_def ReadConfig_def WriteConfig_def Let_def)

lemma probe_slot_result:
  assumes "probe_slot e d n s = (ok, s')" and "d \<noteq> 0" and "bar0 (ctrl_st s) = 0"
  shows "pci_frame (ctrl_st s) (ctrl_st s')" and "unit_st s' = unit_st s" and "reqs s' = reqs s" and "ctrl_idx (ctrl_st s') = n"
    and "moves s s' {#Tok_Dev d#} (pci_held (ctrl_st s'))"
    and "if ok then located e (ctrl_st s') else pciDevice (ctrl_st s') = 0 \<and> bar0 (ctrl_st s') = 0"
proof -
  define s3 where "s3 = repair_bar e d (enable_device e d (snd (ReadConfig e d (k_PCI_DEVICE_ID e)
    (snd (ReadConfig e d (k_PCI_VENDOR_ID e) (upd_ctrl (\<lambda>c. c\<lparr>ctrl_idx := n, pciDevice := d\<rparr>) s))))))"
  have s3: "ctrl_st s3 = (ctrl_st s)\<lparr>ctrl_idx := n, pciDevice := d\<rparr>" "unit_st s3 = unit_st s" "reqs s3 = reqs s"
    "moves s s3 R A = moves s s R A" for R A
    by (simp_all add: s3_def config_kept ReadConfig_def)
  define bar where "bar = e_GetResourceRange e (trace s3) d"
  define io where "io = (if BaseAddress (e_range e bar) \<noteq> 0 then BaseAddress (e_range e bar) else Physical (e_range e bar))"
  define s5 where "s5 = upd_ctrl (\<lambda>c. c\<lparr>iobase := io\<rparr>) (upd_ctrl (\<lambda>c. c\<lparr>bar0 := bar\<rparr>) (log_ev (EvGetRange d bar) s3))"
  obtain ok2 cap s6 where p: "NVMe_MMIOProbe e io (NVMe_MMU_SetupBAR e bar s5) = (ok2, cap, s6)"
    by (cases "NVMe_MMIOProbe e io (NVMe_MMU_SetupBAR e bar s5)")
  note P = MMIOProbe_result [OF p]
  have k: "ctrl_st s6 = ctrl_st s5" "unit_st s6 = unit_st s" "reqs s6 = reqs s"
    using only_traceD [OF P(1)] only_traceD [OF MMU_SetupBAR_kept(1) [of s5 e bar]] s3 by (simp_all add: s5_def)
  have g: "moves s s5 {#Tok_Dev d#} ({#Tok_Dev d#} + tok_if (bar \<noteq> 0) (Tok_Range d bar))"
    using s3(4) [of "{#Tok_Dev d#}" "{#Tok_Dev d#}"] by (simp add: s5_def moves_def ac_simps)
  then have m: "moves s s6 {#Tok_Dev d#} ({#Tok_Dev d#} + tok_if (bar \<noteq> 0) (Tok_Range d bar))"
    using moves_trans [OF g moves_trans [OF MMU_SetupBAR_kept(2) P(2)]] by simp
  have c5: "ctrl_st s5 = (ctrl_st s)\<lparr>ctrl_idx := n, pciDevice := d, bar0 := bar, iobase := io\<rparr>" by (simp add: s5_def s3)
  have r: "(ok, s') = (if bar = 0 then (False, drop_device d (upd_ctrl (\<lambda>c. c\<lparr>bar0 := bar\<rparr>) (log_ev (EvGetRange d bar) s3)))
      else if range_Size (e_range e bar) \<noteq> 0 \<and> range_Size (e_range e bar) < NVME_BAR0_MIN_SIZE
      then (False, drop_device d (drop_range d (upd_ctrl (\<lambda>c. c\<lparr>bar0 := bar\<rparr>) (log_ev (EvGetRange d bar) s3))))
      else if \<not> ok2 then (False, drop_device d (drop_range d s6)) else (True, s6))"
    using assms(1) p by (auto simp: probe_slot_def Let_def s3_def bar_def io_def s5_def split: if_splits)
  consider "bar = 0" | "bar \<noteq> 0" "range_Size (e_range e bar) \<noteq> 0 \<and> range_Size (e_range e bar) < NVME_BAR0_MIN_SIZE"
    | "bar \<noteq> 0" "range_Size (e_range e bar) = 0 \<or> NVME_BAR0_MIN_SIZE \<le> range_Size (e_range e bar)" "\<not> ok2"
    | "bar \<noteq> 0" "range_Size (e_range e bar) = 0 \<or> NVME_BAR0_MIN_SIZE \<le> range_Size (e_range e bar)" ok2
    by (meson not_le)
  then have "pci_frame (ctrl_st s) (ctrl_st s') \<and> unit_st s' = unit_st s \<and> reqs s' = reqs s \<and> ctrl_idx (ctrl_st s') = n \<and>
     moves s s' {#Tok_Dev d#} (pci_held (ctrl_st s')) \<and>
     (if ok then located e (ctrl_st s') else pciDevice (ctrl_st s') = 0 \<and> bar0 (ctrl_st s') = 0)"
  proof cases
    case 1
    then have "(ok, s') = (False, drop_device d (upd_ctrl (\<lambda>c. c\<lparr>bar0 := 0\<rparr>) (log_ev (EvGetRange d 0) s3)))" using r by simp
    then show ?thesis using g 1 s3(1-3) by (simp add: drop_device_def pci_frame_def pci_held_def s5_def moves_def ac_simps)
  next
    case 2
    then have "(ok, s') = (False, drop_device d (drop_range d (upd_ctrl (\<lambda>c. c\<lparr>bar0 := bar\<rparr>) (log_ev (EvGetRange d bar) s3))))"
      using r by simp
    then show ?thesis
      using g 2 s3(1-3) by (simp add: drop_device_def drop_range_def pci_frame_def pci_held_def s5_def moves_def ac_simps)
  next
    case 3
    then have "(ok, s') = (False, drop_device d (drop_range d s6))" using r by auto
    then show ?thesis using 3 m k c5 by (simp add: drop_device_def drop_range_def pci_frame_def pci_held_def moves_def ac_simps)
  next
    case 4
    then have "(ok, s') = (True, s6)" using r by auto
    then show ?thesis
      using 4 m k c5 P(4) assms(2) by (simp add: pci_frame_def pci_held_def located_def io_def)
  qed
  then show "pci_frame (ctrl_st s) (ctrl_st s')" "unit_st s' = unit_st s" "reqs s' = reqs s" "ctrl_idx (ctrl_st s') = n"
    "moves s s' {#Tok_Dev d#} (pci_held (ctrl_st s'))"
    "if ok then located e (ctrl_st s') else pciDevice (ctrl_st s') = 0 \<and> bar0 (ctrl_st s') = 0"
    by blast+
qed

text \<open>A place of the array as the cleared base has it, and a controller as it waits for its bring-up.\<close>

definition vacant :: "NVMeController \<times> u32 list \<Rightarrow> bool" where
  "vacant x \<longleftrightarrow> fresh_ctrl (fst x) \<and> \<not> irq_installed (fst x) \<and> pciDevice (fst x) = 0 \<and> bar0 (fst x) = 0 \<and> snd x = []"

definition pending :: "nat \<Rightarrow> NVMeController \<times> u32 list \<Rightarrow> bool" where
  "pending i x \<longleftrightarrow> fresh_ctrl (fst x) \<and> \<not> irq_installed (fst x) \<and> ctrl_idx (fst x) = of_nat i \<and> snd x = []"

definition pcis_held :: "NVMeBase \<Rightarrow> token multiset" where
  "pcis_held b = (\<Sum>x\<leftarrow>controllers b. pci_held (fst x))"

text \<open>The base while the controllers are searched.\<close>

definition searched :: "env \<Rightarrow> NVMeBase \<Rightarrow> bool" where
  "searched e b \<longleftrightarrow> (\<forall>i<length (controllers b). pending i (controllers b ! i) \<and> located e (fst (controllers b ! i))) \<and>
     (\<forall>x\<in>set (spare b). vacant x)"

definition rest_of :: "NVMeBase \<Rightarrow> NVMeBase" where
  "rest_of b = b\<lparr>controllers := [], spare := []\<rparr>"

lemma pci_frame_fresh:
  assumes "pci_frame c c'"
  shows "fresh_ctrl c' = fresh_ctrl c" and "irq_installed c' = irq_installed c"
  using assms [unfolded pci_frame_def, THEN arg_cong, of fresh_ctrl] assms [unfolded pci_frame_def, THEN arg_cong, of irq_installed]
  by (simp_all add: fresh_ctrl_def)

lemma find_ctrls_result:
  assumes "find_ctrls e is b s = (b', s')" and "searched e b" and "length is \<le> length (spare b)"
  shows "searched e b' \<and> length (controllers b') \<le> length (controllers b) + length is \<and> rest_of b' = rest_of b \<and>
    moves s s' (pcis_held b) (pcis_held b') \<and> unit_st s' = unit_st s \<and> reqs s' = reqs s"
  using assms
proof (induction "is" arbitrary: b s)
  case (Cons i "is")
  define d where "d = e_FindClass e (trace s) NVME_PCI_CLASS NVME_PCI_CLASS_MASK (of_nat i)"
  define s1 where "s1 = log_ev (EvFindDevice d) s"
  show ?case
  proof (cases "d = 0")
    case True
    then have "b' = b \<and> s' = s1" using Cons.prems(1) by (simp add: Let_def s1_def flip: d_def)
    then show ?thesis using Cons.prems True by (simp add: s1_def)
  next
    case False
    obtain c us sp where sp: "spare b = (c, us) # sp" using Cons.prems(3) by (cases "spare b") auto
    have v: "vacant (c, us)" using Cons.prems(2) sp by (simp add: searched_def)
    obtain ok s2 where p: "probe_slot e d (of_nat (length (controllers b))) (load_ctrl c s1) = (ok, s2)" by fastforce
    have "bar0 (ctrl_st (load_ctrl c s1)) = 0" using v by (simp add: load_ctrl_def vacant_def)
    note P = probe_slot_result [OF p False this]
    let ?b = "if ok then b\<lparr>controllers := controllers b @ [(ctrl_st s2, us)], spare := sp\<rparr> else b\<lparr>spare := (ctrl_st s2, us) # sp\<rparr>"
    have r: "find_ctrls e is ?b s2 = (b', s')"
      using Cons.prems(1) False sp p by (cases ok) (simp_all add: Let_def flip: d_def s1_def)
    have f: "fresh_ctrl (ctrl_st s2)" "\<not> irq_installed (ctrl_st s2)" "us = []"
      using pci_frame_fresh [OF P(1)] v by (simp_all add: load_ctrl_def vacant_def)
    have "searched e ?b"
      using Cons.prems(2) sp f P(4,6) by (auto simp: searched_def nth_append less_Suc_eq vacant_def pending_def split: if_splits)
    from Cons.IH [OF r this] have
      I: "searched e b'" "length (controllers b') \<le> length (controllers ?b) + length is" "rest_of b' = rest_of ?b"
        "moves s2 s' (pcis_held ?b) (pcis_held b')" "unit_st s' = unit_st s2" "reqs s' = reqs s2"
      using Cons.prems(3) sp by (auto split: if_splits)
    have "moves s s1 (pcis_held b) ({#Tok_Dev d#} + pcis_held b)" using False by (simp add: s1_def moves_def ac_simps)
    also have "moves s1 s2 ({#Tok_Dev d#} + pcis_held b) (pcis_held ?b)"
    proof -
      have "moves s1 s2 {#Tok_Dev d#} (pci_held (ctrl_st s2))" using P(5) by (simp add: moves_def load_ctrl_def)
      moreover have "pcis_held ?b = pci_held (ctrl_st s2) + pcis_held b"
        using P(6) by (auto simp: pcis_held_def pci_held_def ac_simps split: if_splits)
      ultimately show ?thesis using moves_frame [of s1 s2 "{#Tok_Dev d#}" "pci_held (ctrl_st s2)" "pcis_held b"] by (simp only:)
    qed
    also note I(4)
    finally have "moves s s' (pcis_held b) (pcis_held b')" .
    moreover have "rest_of ?b = rest_of b" by (simp add: rest_of_def)
    moreover have "unit_st s2 = unit_st s" "reqs s2 = reqs s" using P(2,3) by (simp_all add: load_ctrl_def s1_def)
    moreover have "length (controllers ?b) \<le> Suc (length (controllers b))" by simp
    then have "length (controllers b') \<le> length (controllers b) + length (i # is)" using I(2) by (simp only: list.size)
    ultimately show ?thesis using I(1,3,5,6) by (simp only: simp_thms)
  qed
qed simp

lemma DiscoverNVMe_result:
  assumes "DiscoverNVMe e b s = (ok, b', s')" and "controllers b = []" and "\<forall>x\<in>set (spare b). vacant x"
    and "length (spare b) = NVME_MAX_CONTROLLERS"
  shows "searched e b'" and "length (controllers b') \<le> NVME_MAX_CONTROLLERS" and "ok \<longleftrightarrow> controllers b' \<noteq> []"
    and "moves s s' {#} (pcis_held b')" and "unit_st s' = unit_st s" and "reqs s' = reqs s"
    and "rest_of (b'\<lparr>platform := platform b\<rparr>) = rest_of b"
proof -
  obtain p s1 where p: "NVMe_PlatformDetect e (IPCI b) s = (p, s1)" by fastforce
  note P = PlatformDetect_kept [OF p]
  let ?b = "b\<lparr>platform := p, controllers := [], spare := controllers b @ spare b\<rparr>"
  obtain b1 s2 where f: "find_ctrls e [0..<NVME_MAX_CONTROLLERS] ?b s1 = (b1, s2)" by fastforce
  have "searched e ?b" using assms(2,3) by (simp add: searched_def)
  from find_ctrls_result [OF f this] have
    F: "searched e b1" "length (controllers b1) \<le> NVME_MAX_CONTROLLERS" "rest_of b1 = rest_of ?b"
      "moves s1 s2 {#} (pcis_held b1)" "unit_st s2 = unit_st s1" "reqs s2 = reqs s1"
    using assms(2,4) by (simp_all add: pcis_held_def)
  have r: "b' = b1" "s' = s2" "ok \<longleftrightarrow> controllers b1 \<noteq> []"
    using assms(1) p f by (auto simp: DiscoverNVMe_def)
  show "searched e b'" "length (controllers b') \<le> NVME_MAX_CONTROLLERS" "ok \<longleftrightarrow> controllers b' \<noteq> []"
    using F r by simp_all
  show "moves s s' {#} (pcis_held b')" using moves_trans [OF P(2) F(4)] r by simp
  show "unit_st s' = unit_st s" "reqs s' = reqs s" using F(5,6) only_traceD [OF P(1)] r by simp_all
  have "rest_of (b1\<lparr>platform := platform b\<rparr>) = (rest_of b1)\<lparr>platform := platform b\<rparr>" by (simp add: rest_of_def)
  also have "\<dots> = rest_of b" unfolding F(3) by (simp add: rest_of_def)
  finally show "rest_of (b'\<lparr>platform := platform b\<rparr>) = rest_of b" using r by simp
qed

end
