(* ===== verification/Nvme_Library.thy ===== *)
theory Nvme_Library
  imports Nvme_Discovery Nvme_Pci
begin

text \<open>
  The life of the driver as a library: loading it (src/src/Init.c), opening and closing units
  (src/src/Open.c, src/src/Close.c) and unloading it (src/src/Expunge.c). The controller and the
  unit an operation works on are loaded into \<open>ctrl_st\<close> and \<open>unit_st\<close> and stored back. The
  fields of exec's library node other than the open count and the flag of a deferred Expunge
  are left out.
\<close>

section \<open>The places of the base\<close>

definition put_ctrl :: "nat \<Rightarrow> NVMeController \<Rightarrow> NVMeBase \<Rightarrow> NVMeBase" where
  "put_ctrl i c b = b\<lparr>controllers := (controllers b)[i := (c, snd (controllers b ! i))]\<rparr>"

text \<open>The unit at place \<open>k\<close> of the flat table, with its controller.\<close>

definition load_unit :: "NVMeBase \<Rightarrow> nat \<Rightarrow> drv \<Rightarrow> drv" where
  "load_unit b k s = (let u = snd (base_units b ! k) in
     load_ctrl (fst (controllers b ! unat (unit_ctrl u))) (upd_unit (\<lambda>_. u) s))"

definition put_unit :: "nat \<Rightarrow> drv \<Rightarrow> NVMeBase \<Rightarrow> NVMeBase" where
  "put_unit k s b = put_ctrl (unat (unit_ctrl (unit_st s))) (ctrl_st s)
     (b\<lparr>base_units := (base_units b)[k := (fst (base_units b ! k), unit_st s)]\<rparr>)"

section \<open>Init\<close>

definition registry_of :: "NVMeBase \<Rightarrow> nat \<Rightarrow> registry" where
  "registry_of b i = \<lparr>units = snd (controllers b ! i), num_units = of_nat (length (snd (controllers b ! i))),
     global_units = base_units b, num_global_units = base_num b\<rparr>"

definition put_registry :: "nat \<Rightarrow> NVMeController \<Rightarrow> registry \<Rightarrow> NVMeBase \<Rightarrow> NVMeBase" where
  "put_registry i c r b = b\<lparr>controllers := (controllers b)[i := (c, units r)],
     base_units := global_units r, base_num := num_global_units r\<rparr>"

text \<open>The loop over the controllers goes on past one that fails.\<close>

primrec init_ctrls :: "env \<Rightarrow> nat list \<Rightarrow> NVMeBase \<Rightarrow> u32 \<Rightarrow> drv \<Rightarrow> NVMeBase \<times> u32 \<times> drv" where
  "init_ctrls e [] b ctrls_up s = (b, ctrls_up, s)"
| "init_ctrls e (i # is) b ctrls_up s =
     (case InitNVMe e (load_ctrl (fst (controllers b ! i)) s) of (ok, s1) \<Rightarrow>
        if \<not> ok then init_ctrls e is (put_ctrl i (ctrl_st s1) b) ctrls_up s1
        else case DiscoverUnits e (registry_of b i) (snd (InstallNVMeInterrupt e s1)) of (n, r, s2) \<Rightarrow>
          init_ctrls e is (put_registry i (ctrl_st s2) r b) (ctrls_up + 1) s2)"

primrec quiesce :: "env \<Rightarrow> nat list \<Rightarrow> NVMeBase \<Rightarrow> drv \<Rightarrow> NVMeBase \<times> drv" where
  "quiesce e [] b s = (b, s)"
| "quiesce e (i # is) b s =
     (let s1 = CleanupNVMe e (RemoveNVMeInterrupt (load_ctrl (fst (controllers b ! i)) s))
      in quiesce e is (put_ctrl i (ctrl_st s1) b) s1)"

definition all_ctrls :: "NVMeBase \<Rightarrow> nat list" where
  "all_ctrls b = [0..<length (controllers b)]"

text \<open>The bring-up of all controllers; without a unit everything is taken down again.\<close>

definition bring_up_all :: "env \<Rightarrow> NVMeBase \<Rightarrow> drv \<Rightarrow> bool \<times> NVMeBase \<times> drv" where
  "bring_up_all e b s =
     (case init_ctrls e (all_ctrls b) b 0 s of (b1, ctrls_up, s1) \<Rightarrow>
        if ctrls_up = 0 \<or> base_num b1 = 0 then (case quiesce e (all_ctrls b1) b1 s1 of (b2, s2) \<Rightarrow> (False, b2, s2))
        else (True, b1, s1))"

definition OpenLibrary :: "env \<Rightarrow> string \<Rightarrow> u32 \<Rightarrow> drv \<Rightarrow> u32 \<times> drv" where
  "OpenLibrary e name v s = (let p = e_OpenLibrary e (trace s) name v in (p, log_ev (EvOpenLibrary p) s))"

definition GetInterface :: "env \<Rightarrow> u32 \<Rightarrow> string \<Rightarrow> drv \<Rightarrow> u32 \<times> drv" where
  "GetInterface e lib name s = (let p = e_GetInterface e (trace s) lib name in (p, log_ev (EvGetInterface p) s))"

definition CloseLibrary :: "u32 \<Rightarrow> drv \<Rightarrow> drv" where
  "CloseLibrary p = log_ev (EvCloseLibrary p)"

definition DropInterface :: "u32 \<Rightarrow> drv \<Rightarrow> drv" where
  "DropInterface p = log_ev (EvDropInterface p)"

text \<open>The PCI resources of one controller, of all controllers.\<close>

definition release_pci :: "drv \<Rightarrow> drv" where
  "release_pci s =
     (let d = pciDevice (ctrl_st s) in
      if d \<noteq> 0 then
        let s1 = (if bar0 (ctrl_st s) \<noteq> 0 then log_ev (EvFreeRange d (bar0 (ctrl_st s))) s else s)
        in upd_ctrl (\<lambda>c. c\<lparr>pciDevice := 0, bar0 := 0\<rparr>) (log_ev (EvFreeDevice d) s1)
      else s)"

primrec release_pcis :: "nat list \<Rightarrow> NVMeBase \<Rightarrow> drv \<Rightarrow> NVMeBase \<times> drv" where
  "release_pcis [] b s = (b, s)"
| "release_pcis (i # is) b s =
     (let s1 = release_pci (load_ctrl (fst (controllers b ! i)) s) in release_pcis is (put_ctrl i (ctrl_st s1) b) s1)"

text \<open>What has been done when the jump to \<open>err\<close> is taken, and the code there.\<close>

record loaded =
  have_expansion :: bool
  have_ipci :: bool
  have_discovery :: bool
  have_utility :: bool
  have_iutility :: bool

definition load_err :: "loaded \<Rightarrow> NVMeBase \<Rightarrow> drv \<Rightarrow> bool \<times> NVMeBase \<times> drv" where
  "load_err h b s =
     (let s1 = (if have_iutility h then DropInterface (IUtility b) s else s);
          s2 = (if have_utility h then CloseLibrary (UtilityBase b) s1 else s1) in
      case (if have_discovery h then release_pcis (all_ctrls b) b s2 else (b, s2)) of (b1, s3) \<Rightarrow>
        let s4 = (if have_ipci h then DropInterface (IPCI b1) s3 else s3);
            s5 = (if have_expansion h then CloseLibrary (ExpansionBase b1) s4 else s4)
        in (False, b1, s5))"

definition nothing_loaded :: loaded where
  "nothing_loaded = \<lparr>have_expansion = False, have_ipci = False, have_discovery = False, have_utility = False, have_iutility = False\<rparr>"

definition load_utility :: "env \<Rightarrow> loaded \<Rightarrow> NVMeBase \<Rightarrow> drv \<Rightarrow> bool \<times> NVMeBase \<times> drv" where
  "load_utility e h b s =
     (case OpenLibrary e ''utility.library'' 50 s of (p, s1) \<Rightarrow>
        let b1 = b\<lparr>UtilityBase := p\<rparr> in
        if p = 0 then load_err h b1 s1
        else case GetInterface e p ''main'' s1 of (i, s2) \<Rightarrow>
          let h1 = h\<lparr>have_utility := True\<rparr>; b2 = b1\<lparr>IUtility := i\<rparr> in
          if i = 0 then load_err h1 b2 s2
          else case bring_up_all e (b2\<lparr>lib_delexp := False\<rparr>) s2 of (ok, b3, s3) \<Rightarrow>
            if \<not> ok then load_err (h1\<lparr>have_iutility := True\<rparr>) b3 s3 else (True, b3, s3))"

definition manager_Init :: "env \<Rightarrow> NVMeBase \<Rightarrow> drv \<Rightarrow> bool \<times> NVMeBase \<times> drv" where
  "manager_Init e b s =
     (let b0 = b\<lparr>controllers := [], spare := controllers b @ spare b, base_units := [], base_num := 0\<rparr> in
      case OpenLibrary e ''expansion.library'' 54 s of (p, s1) \<Rightarrow>
        let b1 = b0\<lparr>ExpansionBase := p\<rparr>; h = nothing_loaded in
        if p = 0 then load_err h b1 s1
        else case GetInterface e p ''pci'' s1 of (i, s2) \<Rightarrow>
          let b2 = b1\<lparr>IPCI := i\<rparr>; h1 = h\<lparr>have_expansion := True\<rparr> in
          if i = 0 then load_err h1 b2 s2
          else case DiscoverNVMe e b2 s2 of (ok, b3, s3) \<Rightarrow>
            let h2 = h1\<lparr>have_ipci := True\<rparr> in
            if \<not> ok then load_err h2 b3 s3 else load_utility e (h2\<lparr>have_discovery := True\<rparr>) b3 s3)"

section \<open>Expunge\<close>

primrec shutdown_units :: "env \<Rightarrow> (drv \<Rightarrow> drv) \<Rightarrow> nat list \<Rightarrow> NVMeBase \<Rightarrow> drv \<Rightarrow> NVMeBase \<times> drv" where
  "shutdown_units e run [] b s = (b, s)"
| "shutdown_units e run (k # ks) b s =
     (if fst (base_units b ! k) = 0 then shutdown_units e run ks b s
      else let s1 = UnitTask_Shutdown e run (load_unit b k s) in shutdown_units e run ks (put_unit k s1 b) s1)"

definition free_queue :: "env \<Rightarrow> u32 \<Rightarrow> u32 \<Rightarrow> drv \<Rightarrow> drv" where
  "free_queue e q n s = (if q \<noteq> 0 then FreeVec q (EndDMA q n (k_DMA_ReadFromRAM e) s) else s)"

definition free_unit :: "env \<Rightarrow> u32 \<times> NVMeUnit \<Rightarrow> drv \<Rightarrow> drv" where
  "free_unit e x s =
     (if fst x = 0 then s
      else FreeVec (fst x) (free_queue e (io_cq (snd x)) io_cq_bytes (free_queue e (io_sq (snd x)) io_sq_bytes s)))"

text \<open>The tasks end, the controllers stop, and then the memory they could still write to is freed.\<close>

definition tear_down :: "env \<Rightarrow> (drv \<Rightarrow> drv) \<Rightarrow> NVMeBase \<Rightarrow> drv \<Rightarrow> NVMeBase \<times> drv" where
  "tear_down e run b s =
     (case shutdown_units e run [0..<unat (base_num b)] b s of (b1, s1) \<Rightarrow>
        case quiesce e (all_ctrls b1) b1 s1 of (b2, s2) \<Rightarrow>
          (b2\<lparr>base_units := [], base_num := 0\<rparr>, fold (free_unit e) (take (unat (base_num b2)) (base_units b2)) s2))"

definition close_libraries :: "NVMeBase \<Rightarrow> drv \<Rightarrow> drv" where
  "close_libraries b s =
     (let s1 = (if IUtility b \<noteq> 0 then DropInterface (IUtility b) s else s);
          s2 = (if UtilityBase b \<noteq> 0 then CloseLibrary (UtilityBase b) s1 else s1);
          s3 = (if IPCI b \<noteq> 0 then DropInterface (IPCI b) s2 else s2)
      in if ExpansionBase b \<noteq> 0 then CloseLibrary (ExpansionBase b) s3 else s3)"

definition manager_Expunge :: "env \<Rightarrow> (drv \<Rightarrow> drv) \<Rightarrow> NVMeBase \<Rightarrow> drv \<Rightarrow> bool \<times> NVMeBase \<times> drv" where
  "manager_Expunge e run b s =
     (if lib_OpenCnt b \<noteq> 0 then (False, b\<lparr>lib_delexp := True\<rparr>, s)
      else case tear_down e run b s of (b1, s1) \<Rightarrow>
        case release_pcis (all_ctrls b1) b1 s1 of (b2, s2) \<Rightarrow>
          (True, b2\<lparr>controllers := [], spare := map (\<lambda>(c, us). (c, [])) (controllers b2) @ spare b2\<rparr>,
            log_ev EvDeleteLibrary (close_libraries b2 s2)))"

section \<open>Open and Close\<close>

definition NO_UNIT :: u32 where "NO_UNIT = 0xFFFFFFFF"

definition open_fail :: "u32 \<Rightarrow> NVMeBase \<Rightarrow> drv \<Rightarrow> bool \<times> NVMeBase \<times> drv" where
  "open_fail req b s = (False, b\<lparr>lib_OpenCnt := lib_OpenCnt b - 1\<rparr>,
     upd_req req (\<lambda>r. r\<lparr>io_Unit := NO_UNIT\<rparr>) (set_error req IOERR_OPENFAIL s))"

definition manager_Open :: "env \<Rightarrow> u32 \<Rightarrow> u32 \<Rightarrow> NVMeBase \<Rightarrow> drv \<Rightarrow> bool \<times> NVMeBase \<times> drv" where
  "manager_Open e req unitNum b s =
     (let b1 = b\<lparr>lib_OpenCnt := lib_OpenCnt b + 1\<rparr>; k = unat unitNum in
      if unitNum \<ge> base_num b then open_fail req b1 s
      else if fst (base_units b ! k) = 0 then open_fail req b1 s
      else let s1 = load_unit b k s in
        case (if open_count (unit_st s1) = 0 then UnitTask_Start e s1 else (True, s1)) of (ok, s2) \<Rightarrow>
          if \<not> ok then open_fail req (put_unit k s2 b1) s2
          else let s3 = upd_unit (\<lambda>u. u\<lparr>open_count := open_count u + 1\<rparr>) s2;
                   s4 = set_error req IO_OK (upd_req req (\<lambda>r. r\<lparr>io_Unit := fst (base_units b ! k)\<rparr>) s3)
            in (True, (put_unit k s4 b1)\<lparr>lib_delexp := False\<rparr>, s4))"

text \<open>The unit a request points to; a pointer that is neither NULL nor \<open>NO_UNIT\<close> is a unit of the table.\<close>

definition find_unit :: "u32 \<Rightarrow> NVMeBase \<Rightarrow> nat option" where
  "find_unit p b = (if p = 0 \<or> p = NO_UNIT then None
     else List.find (\<lambda>k. fst (base_units b ! k) = p) [0..<length (base_units b)])"

definition close_unit :: "env \<Rightarrow> (drv \<Rightarrow> drv) \<Rightarrow> drv \<Rightarrow> drv" where
  "close_unit e run s =
     (if open_count (unit_st s) > 0 then
        let s1 = upd_unit (\<lambda>u. u\<lparr>open_count := open_count u - 1\<rparr>) s in
        if open_count (unit_st s1) = 0 then UnitTask_Shutdown e run (close_release s1) else s1
      else s)"

definition manager_Close :: "env \<Rightarrow> (drv \<Rightarrow> drv) \<Rightarrow> u32 \<Rightarrow> NVMeBase \<Rightarrow> drv \<Rightarrow> bool \<times> NVMeBase \<times> drv" where
  "manager_Close e run req b s =
     (let (b1, s1) = (case find_unit (io_Unit (reqs s req)) b of
            None \<Rightarrow> (b, s)
          | Some k \<Rightarrow> let t = close_unit e run (load_unit b k s) in (put_unit k t b, t));
          s2 = upd_req req (\<lambda>r. r\<lparr>io_Unit := NO_UNIT\<rparr>) s1;
          b2 = b1\<lparr>lib_OpenCnt := lib_OpenCnt b1 - 1\<rparr>
      in if lib_OpenCnt b2 = 0 \<and> lib_delexp b2 then manager_Expunge e run b2 s2 else (False, b2, s2))"

end
