(* ===== verification/Nvme_Lifetime.thy ===== *)
theory Nvme_Lifetime
  imports Nvme_Library
begin

text \<open>
  The account of the library: what Init, Open and Expunge acquire and release. \<open>base_held\<close> is
  what the controllers and the units name, \<open>pcis_held\<close> and \<open>libs_held\<close> what the base names of
  the PCI bus and of the system libraries.
\<close>

section \<open>The account of the library\<close>

definition ctrl_res :: "env \<Rightarrow> NVMeController \<Rightarrow> token multiset" where
  "ctrl_res e c = (if admin_sq c = 0 then {#} else ctrl_held (k_DMA_ReadFromRAM e) all_resources c) + int_held c"

definition base_held :: "env \<Rightarrow> NVMeBase \<Rightarrow> token multiset" where
  "base_held e b = (\<Sum>x\<leftarrow>controllers b. ctrl_res e (fst x)) + units_held e (base_units b)"

text \<open>A controller is up with all its resources, or has none.\<close>

definition ctrl_good :: "NVMeController \<Rightarrow> bool" where
  "ctrl_good c \<longleftrightarrow> admin_sq c = 0 \<or> progress 9 all_resources c"

lemma irq_frameD:
  assumes "irq_frame c c'"
  shows "admin_sq c' = admin_sq c" "ctrl_held fl b c' = ctrl_held fl b c" "progress n b c' = progress n b c"
    "io_queue_depth c' = io_queue_depth c" "ctrl_idx c' = ctrl_idx c" "pciDevice c' = pciDevice c" "bar0 c' = bar0 c"
proof -
  note f = assms [unfolded irq_frame_def]
  have p: "admin_sq c' = admin_sq c" "admin_cq c' = admin_cq c" "identify_buf c' = identify_buf c"
    "admin_sq_dma c' = admin_sq_dma c" "admin_cq_dma c' = admin_cq_dma c" "identify_dma c' = identify_dma c"
    using f [THEN arg_cong, of admin_sq] f [THEN arg_cong, of admin_cq] f [THEN arg_cong, of identify_buf]
      f [THEN arg_cong, of admin_sq_dma] f [THEN arg_cong, of admin_cq_dma] f [THEN arg_cong, of identify_dma] by simp_all
  then show "admin_sq c' = admin_sq c" "ctrl_held fl b c' = ctrl_held fl b c" "progress n b c' = progress n b c"
    by (simp_all add: ctrl_held_def progress_def)
  show "io_queue_depth c' = io_queue_depth c" "ctrl_idx c' = ctrl_idx c" "pciDevice c' = pciDevice c" "bar0 c' = bar0 c"
    using f [THEN arg_cong, of io_queue_depth] f [THEN arg_cong, of ctrl_idx] f [THEN arg_cong, of pciDevice]
      f [THEN arg_cong, of bar0] by simp_all
qed

lemma ring_frame_res:
  assumes "ring_frame c c'"
  shows "ctrl_res e c' = ctrl_res e c" and "ctrl_good c' = ctrl_good c"
  using ring_frameD [OF assms] by (simp_all add: ctrl_res_def ctrl_good_def ctrl_held_def progress_def int_held_def ident_frame_def)

lemma moves_same: "trace t = trace s \<Longrightarrow> moves s t R R"
  by (simp add: moves_def ac_simps)

lemma load_simps [simp]:
  "ctrl_st (load_ctrl c s) = c" "unit_st (load_ctrl c s) = unit_st s" "trace (load_ctrl c s) = trace s" "reqs (load_ctrl c s) = reqs s"
  "unit_st (load_unit b k s) = snd (base_units b ! k)" "trace (load_unit b k s) = trace s" "reqs (load_unit b k s) = reqs s"
  by (simp_all add: load_ctrl_def load_unit_def Let_def)

lemma put_ctrl_simps [simp]:
  "base_units (put_ctrl i c b) = base_units b" "base_num (put_ctrl i c b) = base_num b" "lib_OpenCnt (put_ctrl i c b) = lib_OpenCnt b"
  "lib_delexp (put_ctrl i c b) = lib_delexp b"
  "length (controllers (put_ctrl i c b)) = length (controllers b)"
  "j \<noteq> i \<Longrightarrow> controllers (put_ctrl i c b) ! j = controllers b ! j"
  "i < length (controllers b) \<Longrightarrow> controllers (put_ctrl i c b) ! i = (c, snd (controllers b ! i))"
  by (simp_all add: put_ctrl_def)

text \<open>What no bring-up and no shutdown of a controller changes: its location, and the libraries.\<close>

definition res_frame :: "NVMeBase \<Rightarrow> NVMeBase \<Rightarrow> bool" where
  "res_frame b b' \<longleftrightarrow> map (\<lambda>x. (pciDevice (fst x), bar0 (fst x))) (controllers b') = map (\<lambda>x. (pciDevice (fst x), bar0 (fst x))) (controllers b) \<and>
     ExpansionBase b' = ExpansionBase b \<and> IPCI b' = IPCI b \<and> UtilityBase b' = UtilityBase b \<and> IUtility b' = IUtility b \<and>
     lib_OpenCnt b' = lib_OpenCnt b"

lemma res_frame_refl [simp]: "res_frame b b"
  by (simp add: res_frame_def)

lemma res_frame_trans: "res_frame a b \<Longrightarrow> res_frame b c \<Longrightarrow> res_frame a c"
  by (simp add: res_frame_def)

lemma map_update_same: "(i < length xs \<Longrightarrow> f y = f (xs ! i)) \<Longrightarrow> map f (xs[i := y]) = map f xs"
  by (cases "i < length xs") (simp_all add: map_update list_update_same_conv list_update_beyond)

lemma res_frame_put:
  assumes "pciDevice c = pciDevice (fst (controllers b ! i))" and "bar0 c = bar0 (fst (controllers b ! i))"
  shows "res_frame b (put_ctrl i c b)" and "res_frame b (put_registry i c r b)"
  using assms by (simp_all add: res_frame_def put_ctrl_def put_registry_def map_update_same)

lemma Cleanup_location:
  "pciDevice (ctrl_st (CleanupNVMe e s)) = pciDevice (ctrl_st s)" "bar0 (ctrl_st (CleanupNVMe e s)) = bar0 (ctrl_st s)"
proof -
  have "ctrl_st (shutdown_ctrl e s) = ctrl_st s"
    using poll_csts_kept by (simp add: shutdown_ctrl_def nvme_r32_def)
  then show "pciDevice (ctrl_st (CleanupNVMe e s)) = pciDevice (ctrl_st s)" "bar0 (ctrl_st (CleanupNVMe e s)) = bar0 (ctrl_st s)"
    by (simp_all add: CleanupNVMe_def free_resources_def Let_def cleanup_identify_def resource_defs)
qed

lemma bring_down_moves:
  assumes "ctrl_good (ctrl_st s)"
  shows "moves s (CleanupNVMe e (RemoveNVMeInterrupt s)) (ctrl_res e (ctrl_st s) + R) R"
proof -
  define t where "t = RemoveNVMeInterrupt s"
  note f = irq_frameD [OF RemoveNVMeInterrupt_frame [of s], folded t_def]
  have i: "moves s t (int_held (ctrl_st s) + Q) Q" for Q unfolding t_def by (rule RemoveNVMeInterrupt_moves)
  show ?thesis
  proof (cases "admin_sq (ctrl_st s) = 0")
    case True
    then have "CleanupNVMe e t = t" using f(1) by (simp add: CleanupNVMe_def)
    then show ?thesis using i [of R] True by (simp add: ctrl_res_def flip: t_def)
  next
    case False
    then have "progress 9 all_resources (ctrl_st t)" using assms f(3) by (simp add: ctrl_good_def)
    from moves_frame [OF cleanup_moves [OF this, of e], of R]
    have "moves t (CleanupNVMe e t) (ctrl_held (k_DMA_ReadFromRAM e) all_resources (ctrl_st s) + R) R" using f(2) by simp
    from moves_trans [OF i this] show ?thesis using False by (simp add: ctrl_res_def ac_simps flip: t_def)
  qed
qed

definition res_at :: "env \<Rightarrow> NVMeBase \<Rightarrow> nat \<Rightarrow> token multiset" where
  "res_at e b i = ctrl_res e (fst (controllers b ! i))"

lemma base_held_at: "base_held e b = (\<Sum>i\<leftarrow>all_ctrls b. res_at e b i) + units_held e (base_units b)"
proof -
  have "map (\<lambda>x. ctrl_res e (fst x)) (controllers b) = map (res_at e b) (all_ctrls b)"
    by (rule nth_equalityI) (simp_all add: all_ctrls_def res_at_def)
  then show ?thesis by (simp add: base_held_def)
qed

lemma quiesce_moves:
  assumes "quiesce e is b s = (b', s')" and "distinct is" and "\<forall>i\<in>set is. ctrl_good (fst (controllers b ! i))"
  shows "moves s s' ((\<Sum>i\<leftarrow>is. res_at e b i) + R) R \<and> base_units b' = base_units b \<and> base_num b' = base_num b \<and> res_frame b b'"
  using assms
proof (induction "is" arbitrary: b s)
  case (Cons i "is")
  define t where "t = CleanupNVMe e (RemoveNVMeInterrupt (load_ctrl (fst (controllers b ! i)) s))"
  let ?b = "put_ctrl i (ctrl_st t) b"
  have q: "quiesce e is ?b t = (b', s')" using Cons.prems(1) by (simp add: t_def Let_def)
  have same: "controllers ?b ! j = controllers b ! j" if "j \<in> set is" for j
    by (rule put_ctrl_simps(6)) (use that Cons.prems(2) in auto)
  then have r: "map (res_at e ?b) is = map (res_at e b) is" by (simp add: res_at_def)
  have "moves (load_ctrl (fst (controllers b ! i)) s) t (res_at e b i + Q) Q" for Q
    using bring_down_moves [of "load_ctrl (fst (controllers b ! i)) s" e Q] Cons.prems(3) by (simp add: t_def res_at_def)
  then have m: "moves s t (res_at e b i + Q) Q" for Q by (simp add: moves_def)
  have "moves t s' ((\<Sum>i\<leftarrow>is. res_at e ?b i) + R) R \<and> base_units b' = base_units ?b \<and> base_num b' = base_num ?b \<and> res_frame ?b b'"
    by (rule Cons.IH [OF q]) (use Cons.prems same in auto)
  moreover from this have "moves t s' ((\<Sum>i\<leftarrow>is. res_at e b i) + R) R" unfolding r by blast
  from moves_trans [OF m this] have "moves s s' ((\<Sum>i\<leftarrow>i # is. res_at e b i) + R) R" by (simp only: list.map sum_list.Cons add.assoc)
  moreover have "res_frame b ?b"
    using irq_frameD(6,7) [OF RemoveNVMeInterrupt_frame] by (intro res_frame_put) (simp_all add: t_def Cleanup_location)
  ultimately show ?case using res_frame_trans by auto
qed simp

lemma all_ctrls_good: "\<forall>x\<in>set (controllers b). ctrl_good (fst x) \<Longrightarrow> \<forall>i\<in>set (all_ctrls b). ctrl_good (fst (controllers b ! i))"
  by (simp add: all_ctrls_def)

lemma free_unit_moves:
  assumes "fst x \<noteq> 0" and "io_sq (snd x) \<noteq> 0" and "io_cq (snd x) \<noteq> 0"
  shows "moves s (free_unit e x s) (unit_held e x + R) R"
  using assms by (simp add: free_unit_def free_queue_def FreeVec_def EndDMA_def unit_held_def queues_held_def vecs_held_def pins_held_def moves_def)

lemma free_units_moves:
  assumes "\<forall>x\<in>set xs. fst x \<noteq> 0 \<and> io_sq (snd x) \<noteq> 0 \<and> io_cq (snd x) \<noteq> 0"
  shows "moves s (fold (free_unit e) xs s) (units_held e xs + R) R"
  using assms
proof (induction xs arbitrary: s)
  case (Cons x xs)
  have "moves s (free_unit e x s) (unit_held e x + (units_held e xs + R)) (units_held e xs + R)"
    by (rule free_unit_moves) (use Cons.prems in auto)
  also have "moves (free_unit e x s) (fold (free_unit e) xs (free_unit e x s)) (units_held e xs + R) R"
    using Cons by simp
  finally show ?case by (simp add: units_held_def ac_simps)
qed (simp add: units_held_def)

text \<open>A unit without a task: the last close has ended it, or it was never opened.\<close>

definition stopped :: "u32 \<times> NVMeUnit \<Rightarrow> bool" where
  "stopped x \<longleftrightarrow> fst x \<noteq> 0 \<and> io_sq (snd x) \<noteq> 0 \<and> io_cq (snd x) \<noteq> 0 \<and> unit_task (snd x) = 0"

lemma put_load: "k < length (base_units b) \<Longrightarrow> put_unit k (load_unit b k s) b = b"
proof -
  assume k: "k < length (base_units b)"
  let ?i = "unat (unit_ctrl (snd (base_units b ! k)))"
  have "(controllers b)[?i := (fst (controllers b ! ?i), snd (controllers b ! ?i))] = controllers b"
    by (simp only: prod.collapse list_update_id)
  then show ?thesis by (simp add: put_unit_def put_ctrl_def load_unit_def load_ctrl_def Let_def)
qed

lemma shutdown_stopped:
  assumes "shutdown_units e run ks b s = (b', s')" and "\<forall>k\<in>set ks. k < length (base_units b) \<and> stopped (base_units b ! k)"
  shows "b' = b \<and> trace s' = trace s"
  using assms
proof (induction ks arbitrary: s)
  case (Cons k ks)
  have "UnitTask_Shutdown e run (load_unit b k s) = load_unit b k s"
    using Cons.prems(2) by (simp add: UnitTask_Shutdown_def stopped_def)
  then have "shutdown_units e run ks b (load_unit b k s) = (b', s')"
    using Cons.prems put_load [of k b s] by (simp add: Let_def stopped_def)
  from Cons.IH [OF this] show ?case using Cons.prems(2) by simp
qed simp

text \<open>The base between operations when no unit is open.\<close>

definition base_ok :: "NVMeBase \<Rightarrow> bool" where
  "base_ok b \<longleftrightarrow> (\<forall>x\<in>set (controllers b). ctrl_good (fst x)) \<and> (\<forall>x\<in>set (base_units b). stopped x) \<and>
     base_num b = of_nat (length (base_units b)) \<and> length (base_units b) \<le> NVME_MAX_GLOBAL_UNITS"

lemma unat_base_num: "base_ok b \<Longrightarrow> unat (base_num b) = length (base_units b)"
  unfolding base_ok_def NVME_MAX_GLOBAL_UNITS_def NVME_MAX_CONTROLLERS_def NVME_MAX_UNITS_PER_CTRL_def
  by (simp add: unat_of_nat)

lemma tear_down_moves:
  assumes "base_ok b" and "tear_down e run b s = (b', s')"
  shows "moves s s' (base_held e b + R) R" and "res_frame b b'" and "base_units b' = []"
proof -
  note n = unat_base_num [OF assms(1)]
  obtain b1 s1 where d: "shutdown_units e run [0..<unat (base_num b)] b s = (b1, s1)" by fastforce
  have "\<forall>k\<in>set [0..<unat (base_num b)]. k < length (base_units b) \<and> stopped (base_units b ! k)"
    using assms(1) n by (simp add: base_ok_def)
  from shutdown_stopped [OF d this] have b1: "b1 = b" "trace s1 = trace s" by simp_all
  obtain b2 s2 where q: "quiesce e (all_ctrls b) b s1 = (b2, s2)" by fastforce
  have "distinct (all_ctrls b)" "\<forall>i\<in>set (all_ctrls b). ctrl_good (fst (controllers b ! i))"
    using assms(1) all_ctrls_good [of b] by (simp_all add: all_ctrls_def base_ok_def)
  note Q = quiesce_moves [OF q this]
  have f: "take (unat (base_num b2)) (base_units b2) = base_units b" using Q n by simp
  have r: "b' = b2\<lparr>base_units := [], base_num := 0\<rparr>" "s' = fold (free_unit e) (base_units b) s2"
    using assms(2) d b1(1) q f by (simp_all add: tear_down_def)
  have "moves s s1 (base_held e b + R) (base_held e b + R)" by (rule moves_same [OF b1(2)])
  also have "moves s1 s2 (base_held e b + R) (units_held e (base_units b) + R)" using Q by (simp add: base_held_at add.assoc)
  also have "moves s2 s' (units_held e (base_units b) + R) R"
    using free_units_moves [of "base_units b" s2 e R] assms(1) r by (simp add: base_ok_def stopped_def)
  finally show "moves s s' (base_held e b + R) R" .
  show "res_frame b b'" "base_units b' = []" using Q r by (simp_all add: res_frame_def)
qed

section \<open>The bus and the libraries\<close>

definition libs_held :: "NVMeBase \<Rightarrow> token multiset" where
  "libs_held b = tok_if (IUtility b \<noteq> 0) (Tok_Iface (IUtility b)) + tok_if (UtilityBase b \<noteq> 0) (Tok_Lib (UtilityBase b)) +
     tok_if (IPCI b \<noteq> 0) (Tok_Iface (IPCI b)) + tok_if (ExpansionBase b \<noteq> 0) (Tok_Lib (ExpansionBase b))"

text \<open>A controller without a device has no register range either.\<close>

definition bus_ok :: "NVMeBase \<Rightarrow> bool" where
  "bus_ok b \<longleftrightarrow> (\<forall>x\<in>set (controllers b). pciDevice (fst x) = 0 \<longrightarrow> bar0 (fst x) = 0)"

lemma res_frame_held:
  assumes "res_frame b b'"
  shows "libs_held b' = libs_held b" and "pcis_held b' = pcis_held b" and "bus_ok b' = bus_ok b" and "lib_OpenCnt b' = lib_OpenCnt b"
proof -
  let ?k = "\<lambda>x :: NVMeController \<times> u32 list. (pciDevice (fst x), bar0 (fst x))"
  note f = assms [unfolded res_frame_def]
  then have k: "map ?k (controllers b') = map ?k (controllers b)" by blast
  show "libs_held b' = libs_held b" "lib_OpenCnt b' = lib_OpenCnt b" using f by (simp_all add: libs_held_def)
  have "map (\<lambda>x. pci_held (fst x)) xs = map (\<lambda>(d, r). tok_if (d \<noteq> 0) (Tok_Dev d) + tok_if (r \<noteq> 0) (Tok_Range d r)) (map ?k xs)"
    for xs :: "(NVMeController \<times> u32 list) list" by (simp add: pci_held_def)
  then show "pcis_held b' = pcis_held b" unfolding pcis_held_def by (simp only: k)
  have "(\<forall>x\<in>set xs. pciDevice (fst x) = 0 \<longrightarrow> bar0 (fst x) = 0) = (\<forall>(d, r)\<in>set (map ?k xs). d = 0 \<longrightarrow> r = 0)"
    for xs :: "(NVMeController \<times> u32 list) list" by auto
  then show "bus_ok b' = bus_ok b" unfolding bus_ok_def by (simp only: k)
qed

lemma library_moves:
  "moves s (CloseLibrary p t) R A = moves s (log_ev (EvCloseLibrary p) t) R A" "moves s (DropInterface p t) R A = moves s (log_ev (EvDropInterface p) t) R A"
  by (simp_all add: CloseLibrary_def DropInterface_def)

lemma close_libraries_moves: "moves s (close_libraries b s) (libs_held b + R) R"
  by (auto simp: close_libraries_def libs_held_def CloseLibrary_def DropInterface_def Let_def tok_if_def moves_def)

lemma release_pci_moves:
  assumes "pciDevice (ctrl_st s) = 0 \<longrightarrow> bar0 (ctrl_st s) = 0"
  shows "moves s (release_pci s) (pci_held (ctrl_st s) + R) R"
  using assms by (auto simp: release_pci_def pci_held_def Let_def tok_if_def moves_def)

lemma release_pcis_moves:
  assumes "release_pcis is b s = (b', s')" and "distinct is"
    and "\<forall>i\<in>set is. pciDevice (fst (controllers b ! i)) = 0 \<longrightarrow> bar0 (fst (controllers b ! i)) = 0"
  shows "moves s s' ((\<Sum>i\<leftarrow>is. pci_held (fst (controllers b ! i))) + R) R \<and> libs_held b' = libs_held b \<and>
    IPCI b' = IPCI b \<and> ExpansionBase b' = ExpansionBase b \<and> base_units b' = base_units b"
  using assms
proof (induction "is" arbitrary: b s)
  case (Cons i "is")
  define t where "t = release_pci (load_ctrl (fst (controllers b ! i)) s)"
  let ?b = "put_ctrl i (ctrl_st t) b"
  have r: "release_pcis is ?b t = (b', s')" using Cons.prems(1) by (simp add: t_def Let_def)
  have same: "controllers ?b ! j = controllers b ! j" if "j \<in> set is" for j
    by (rule put_ctrl_simps(6)) (use that Cons.prems(2) in auto)
  then have p: "map (\<lambda>i. pci_held (fst (controllers ?b ! i))) is = map (\<lambda>i. pci_held (fst (controllers b ! i))) is" by simp
  have "moves (load_ctrl (fst (controllers b ! i)) s) t (pci_held (fst (controllers b ! i)) + Q) Q" for Q
    using release_pci_moves [of "load_ctrl (fst (controllers b ! i)) s" Q] Cons.prems(3) by (simp add: t_def)
  then have m: "moves s t (pci_held (fst (controllers b ! i)) + Q) Q" for Q by (simp add: moves_def)
  have "moves t s' ((\<Sum>i\<leftarrow>is. pci_held (fst (controllers ?b ! i))) + R) R \<and> libs_held b' = libs_held ?b \<and>
    IPCI b' = IPCI ?b \<and> ExpansionBase b' = ExpansionBase ?b \<and> base_units b' = base_units ?b"
    by (rule Cons.IH [OF r]) (use Cons.prems same in auto)
  moreover from this have "moves t s' ((\<Sum>i\<leftarrow>is. pci_held (fst (controllers b ! i))) + R) R" unfolding p by blast
  from moves_trans [OF m this] have "moves s s' ((\<Sum>i\<leftarrow>i # is. pci_held (fst (controllers b ! i))) + R) R"
    by (simp only: list.map sum_list.Cons add.assoc)
  moreover have "libs_held ?b = libs_held b" "IPCI ?b = IPCI b" "ExpansionBase ?b = ExpansionBase b"
    by (simp_all add: libs_held_def put_ctrl_def)
  ultimately show ?case by simp
qed simp

lemma release_all_moves:
  assumes "release_pcis (all_ctrls b) b s = (b', s')" and "bus_ok b"
  shows "moves s s' (pcis_held b + R) R" and "libs_held b' = libs_held b" and "IPCI b' = IPCI b" and "ExpansionBase b' = ExpansionBase b"
    and "base_units b' = base_units b"
proof -
  have "map (\<lambda>x. pci_held (fst x)) (controllers b) = map (\<lambda>i. pci_held (fst (controllers b ! i))) (all_ctrls b)"
    by (rule nth_equalityI) (simp_all add: all_ctrls_def)
  then have h: "pcis_held b = (\<Sum>i\<leftarrow>all_ctrls b. pci_held (fst (controllers b ! i)))" by (simp add: pcis_held_def)
  have "distinct (all_ctrls b)" "\<forall>i\<in>set (all_ctrls b). pciDevice (fst (controllers b ! i)) = 0 \<longrightarrow> bar0 (fst (controllers b ! i)) = 0"
    using assms(2) by (simp_all add: all_ctrls_def bus_ok_def)
  note r = release_pcis_moves [OF assms(1) this, of R]
  then show "moves s s' (pcis_held b + R) R" "libs_held b' = libs_held b" "IPCI b' = IPCI b" "ExpansionBase b' = ExpansionBase b"
    "base_units b' = base_units b"
    unfolding h by blast+
qed

text \<open>Everything that the base names.\<close>

definition all_held :: "env \<Rightarrow> NVMeBase \<Rightarrow> token multiset" where
  "all_held e b = base_held e b + (pcis_held b + libs_held b)"

lemma Expunge_moves:
  assumes "base_ok b" and "bus_ok b" and "lib_OpenCnt b = 0" and "manager_Expunge e run b s = (ok, b', s')"
  shows "ok" and "moves s s' (all_held e b) {#}" and "base_units b' = []" and "controllers b' = []"
proof -
  obtain b1 s1 where t: "tear_down e run b s = (b1, s1)" by fastforce
  note T = tear_down_moves [OF assms(1) t]
  note F = res_frame_held [OF T(2)]
  obtain b2 s2 where p: "release_pcis (all_ctrls b1) b1 s1 = (b2, s2)" by fastforce
  have "bus_ok b1" using F(3) assms(2) by simp
  note P = release_all_moves [OF p this]
  have r: "ok" "s' = log_ev EvDeleteLibrary (close_libraries b2 s2)" "controllers b' = []" "base_units b' = base_units b2"
    using assms(3,4) t p by (auto simp: manager_Expunge_def)
  then show "ok" "controllers b' = []" by simp_all
  have "moves s s1 (all_held e b) (pcis_held b + libs_held b)" unfolding all_held_def by (rule T(1))
  also have "moves s1 s2 (pcis_held b + libs_held b) (libs_held b)" using P(1) [of "libs_held b"] F(2) by simp
  also have "moves s2 (close_libraries b2 s2) (libs_held b) {#}"
    using close_libraries_moves [of s2 b2 "{#}"] P(2) F(1) by simp
  finally show "moves s s' (all_held e b) {#}" using r by simp
  show "base_units b' = []" using r P(5) T(3) by simp
qed

section \<open>The bring-up of all controllers\<close>

definition queue_key :: "u32 \<times> NVMeUnit \<Rightarrow> u32 \<times> u16" where
  "queue_key x = (unit_ctrl (snd x), queue_id (snd x))"

text \<open>
  The tables while the controllers \<open>is\<close> are still to come: units are numbered by their place,
  no two have the same queue of the same controller, and none belongs to a controller to come.
\<close>

definition tables :: "nat list \<Rightarrow> NVMeBase \<Rightarrow> bool" where
  "tables is b \<longleftrightarrow> base_ok b \<and> length (controllers b) \<le> NVME_MAX_CONTROLLERS \<and>
     (\<forall>k<length (base_units b). unit_num (snd (base_units b ! k)) = of_nat k \<and> online (snd (base_units b ! k))) \<and>
     (\<forall>x\<in>set (base_units b). unat (unit_ctrl (snd x)) < length (controllers b)) \<and>
     distinct (map queue_key (base_units b)) \<and>
     (\<forall>i\<in>set is. i < length (controllers b) \<and> pending i (controllers b ! i) \<and>
        (\<forall>x\<in>set (base_units b). unit_ctrl (snd x) \<noteq> of_nat i))"

lemma base_held_put:
  assumes "i < length (controllers b)" and "ctrl_res e (fst (controllers b ! i)) = {#}"
  shows "base_held e (put_ctrl i c b) = base_held e b + ctrl_res e c"
    and "base_held e (put_registry i c r b) + units_held e (base_units b) = base_held e b + ctrl_res e c + units_held e (global_units r)"
proof -
  have u: "(\<Sum>x\<leftarrow>(controllers b)[i := y]. ctrl_res e (fst x)) = (\<Sum>x\<leftarrow>controllers b. ctrl_res e (fst x)) + ctrl_res e (fst y)" for y
    using sum_list_update_add [OF assms(1), of "\<lambda>x. ctrl_res e (fst x)" y] assms(2) by simp
  show "base_held e (put_ctrl i c b) = base_held e b + ctrl_res e c"
    by (simp add: base_held_def put_ctrl_def u ac_simps)
  show "base_held e (put_registry i c r b) + units_held e (base_units b) = base_held e b + ctrl_res e c + units_held e (global_units r)"
    by (simp add: base_held_def put_registry_def u ac_simps)
qed

lemma set_put: "x \<in> set (xs[i := y]) \<Longrightarrow> x = y \<or> x \<in> set xs"
  using set_update_subset_insert by fastforce

lemma of_nat_ctrl_inj:
  assumes "i < NVME_MAX_CONTROLLERS" and "j < NVME_MAX_CONTROLLERS" and "(of_nat i :: u32) = of_nat j"
  shows "i = j"
proof -
  have "unat (of_nat i :: u32) = i" "unat (of_nat j :: u32) = j"
    using assms(1,2) by (auto simp: NVME_MAX_CONTROLLERS_def intro!: unat_of_nat_small)
  then show ?thesis using assms(3) by metis
qed

lemma placed_keys:
  assumes "placed_all c g 0 new" and "length new \<le> NVME_MAX_UNITS_PER_CTRL"
  shows "distinct (map queue_key new)" and "\<forall>x\<in>set new. stopped x \<and> unit_ctrl (snd x) = ctrl_idx c"
    and "j < length new \<Longrightarrow> unit_num (snd (new ! j)) = of_nat (g + j) \<and> online (snd (new ! j))"
proof -
  have p: "placed c (g + j) j (new ! j)" if "j < length new" for j
    using placed_all_nth [OF assms(1) that] by simp
  show "j < length new \<Longrightarrow> unit_num (snd (new ! j)) = of_nat (g + j) \<and> online (snd (new ! j))"
    using p by (simp add: placed_def)
  show "\<forall>x\<in>set new. stopped x \<and> unit_ctrl (snd x) = ctrl_idx c"
  proof
    fix x
    assume "x \<in> set new"
    then obtain j where "j < length new" "x = new ! j" by (auto simp: in_set_conv_nth)
    then show "stopped x \<and> unit_ctrl (snd x) = ctrl_idx c" using p [of j] by (simp add: stopped_def placed_def online_def)
  qed
  have k: "unat (snd (queue_key (new ! j))) = Suc j" if "j < length new" for j
  proof -
    have "unat (of_nat (j + 1) :: u16) = j + 1"
      by (rule unat_of_nat_small) (use that assms(2) in \<open>simp add: NVME_MAX_UNITS_PER_CTRL_def\<close>)
    moreover have "queue_id (snd (new ! j)) = of_nat (j + 1)" using p [OF that] unfolding placed_def by blast
    ultimately show ?thesis by (simp only: queue_key_def snd_conv Suc_eq_plus1)
  qed
  have "i = j" if "i < length new" "j < length new" "queue_key (new ! i) = queue_key (new ! j)" for i j
    using k [OF that(1)] k [OF that(2)] unfolding that(3) by (metis nat.inject)
  then show "distinct (map queue_key new)" by (auto simp: distinct_conv_nth)
qed

text \<open>One controller: skipped, or online with its interrupt and its units.\<close>

lemma init_one_fail:
  assumes "tables (i # is) b" and "distinct (i # is)" and "init_outcome e (load_ctrl (fst (controllers b ! i)) s) False t"
  shows "tables is (put_ctrl i (ctrl_st t) b)" and "base_held e (put_ctrl i (ctrl_st t) b) = base_held e b" and "moves s t R R"
    and "res_frame b (put_ctrl i (ctrl_st t) b)"
proof -
  have p: "i < length (controllers b)" "pending i (controllers b ! i)" using assms(1) by (simp_all add: tables_def)
  have o: "ident_frame (fst (controllers b ! i)) (ctrl_st t)" "admin_sq (ctrl_st t) = 0"
    "moves (load_ctrl (fst (controllers b ! i)) s) t {#} {#}" using assms(3) by (simp_all add: init_outcome_def)
  show "res_frame b (put_ctrl i (ctrl_st t) b)" using o(1) by (intro res_frame_put) (simp_all add: ident_frame_def)
  have "ctrl_res e (fst (controllers b ! i)) = {#}" "ctrl_res e (ctrl_st t) = {#}"
    using p(2) o by (simp_all add: ctrl_res_def pending_def fresh_ctrl_def int_held_def ident_frame_def)
  then show "base_held e (put_ctrl i (ctrl_st t) b) = base_held e b" using base_held_put(1) [OF p(1)] by simp
  show "moves s t R R" using moves_frame [OF o(3), of R] by (simp add: moves_def)
  have "\<forall>x\<in>set (controllers (put_ctrl i (ctrl_st t) b)). ctrl_good (fst x)"
    using assms(1) o(2) by (auto simp: put_ctrl_def tables_def base_ok_def ctrl_good_def dest!: set_put)
  moreover have "controllers (put_ctrl i (ctrl_st t) b) ! j = controllers b ! j" if "j \<in> set is" for j
    by (rule put_ctrl_simps(6)) (use that assms(2) in auto)
  ultimately show "tables is (put_ctrl i (ctrl_st t) b)" using assms(1) by (simp add: tables_def base_ok_def)
qed

lemma init_one_ok:
  assumes tb: "tables (i # is) b" and d: "distinct (i # is)"
    and o: "init_outcome e (load_ctrl (fst (controllers b ! i)) s) True s1"
    and r: "DiscoverUnits e (registry_of b i) (snd (InstallNVMeInterrupt e s1)) = (n, r, s2)"
  defines "b' \<equiv> put_registry i (ctrl_st s2) r b"
  shows "tables is b'" and "moves s s2 (base_held e b) (base_held e b')" and "res_frame b b'"
proof -
  let ?c = "fst (controllers b ! i)"
  have p: "i < length (controllers b)" "pending i (controllers b ! i)" using tb by (simp_all add: tables_def)
  obtain ok t where t: "InstallNVMeInterrupt e s1 = (ok, t)" by fastforce
  note I = InstallNVMeInterrupt_result [OF t]
  note f = irq_frameD [OF I(6)]
  have s1: "moves (load_ctrl ?c s) s1 {#} (ctrl_held (k_DMA_ReadFromRAM e) all_resources (ctrl_st s1))"
    "progress 9 all_resources (ctrl_st s1)" "of_nat NVME_MAX_INFLIGHT < io_queue_depth (ctrl_st s1)"
    "ident_frame ?c (ctrl_st s1)"
    using o by (simp_all add: init_outcome_def)
  have "0 < io_queue_depth (ctrl_st t)" using s1(3) f(4) by (metis word_gt_0 word_not_simps(1))
  moreover have reg: "registry_ok (registry_of b i)" "units (registry_of b i) = []"
    using tb p(2) by (simp_all add: registry_of_def registry_ok_def tables_def base_ok_def pending_def)
  ultimately obtain new where new: "length new \<le> NVME_MAX_UNITS_PER_CTRL" "global_units r = base_units b @ new"
      "registry_ok r" "moves t s2 {#} (units_held e new)" "ring_frame (ctrl_st t) (ctrl_st s2)"
      "placed_all (ctrl_st t) (length (base_units b)) 0 new"
    using DiscoverUnits_result [of e "registry_of b i" t n r s2] r t by (auto simp: registry_of_def)
  note keys = placed_keys [OF new(6,1)]
  have idx: "ctrl_idx (ctrl_st t) = of_nat i" using f(5) s1(4) p(2) by (simp add: ident_frame_def pending_def)
  have "pciDevice (ctrl_st s2) = pciDevice ?c" "bar0 (ctrl_st s2) = bar0 ?c"
    using ring_frameD(8) [OF new(5)] f(6,7) s1(4) by (simp_all add: ident_frame_def)
  then show "res_frame b b'" unfolding b'_def by (rule res_frame_put(2))
  have nz: "admin_sq (ctrl_st s1) \<noteq> 0" using s1(2) by (simp add: progress_def)
  have res: "ctrl_res e (ctrl_st s2) = ctrl_held (k_DMA_ReadFromRAM e) all_resources (ctrl_st s1) + int_held (ctrl_st t)"
    using ring_frame_res(1) [OF new(5), of e] f nz by (simp add: ctrl_res_def)
  have good: "ctrl_good (ctrl_st s2)" using ring_frame_res(2) [OF new(5)] f s1(2) by (simp add: ctrl_good_def)
  have "ctrl_res e ?c = {#}" using p(2) by (simp add: ctrl_res_def pending_def fresh_ctrl_def int_held_def)
  from base_held_put(2) [OF p(1) this, of "ctrl_st s2" r]
  have held: "base_held e b' = base_held e b + ctrl_res e (ctrl_st s2) + units_held e new"
    using new(2) by (simp add: b'_def units_held_def)
  have "moves (load_ctrl ?c s) t {#} (ctrl_res e (ctrl_st s2))"
    using moves_trans [OF s1(1) moves_from [OF I(1)]] by (simp add: res add.commute)
  from moves_trans [OF this moves_from [OF new(4)]]
  have "moves (load_ctrl ?c s) s2 {#} (ctrl_res e (ctrl_st s2) + units_held e new)" by (simp add: add.commute)
  from moves_frame [OF this, of "base_held e b"]
  show "moves s s2 (base_held e b) (base_held e b')" by (simp add: moves_def held ac_simps)
  have bu: "base_units b' = base_units b @ new" "base_num b' = num_global_units r" "length (controllers b') = length (controllers b)"
    using new(2) by (simp_all add: b'_def put_registry_def)
  have "\<forall>x\<in>set (controllers b'). ctrl_good (fst x)"
    using tb good by (auto simp: b'_def put_registry_def tables_def base_ok_def dest!: set_put)
  then have ok: "base_ok b'"
    using tb new(2,3) keys(2) bu by (auto simp: base_ok_def tables_def registry_ok_def)
  have num: "unit_num (snd (base_units b' ! k)) = of_nat k \<and> online (snd (base_units b' ! k))" if "k < length (base_units b')" for k
    using that tb keys(3) [of "k - length (base_units b)"] by (auto simp: bu nth_append tables_def)
  have "unat (of_nat i :: u32) = i"
    by (rule unat_of_nat_small) (use p(1) tb in \<open>simp add: tables_def NVME_MAX_CONTROLLERS_def\<close>)
  then have ctrls: "\<forall>x\<in>set (base_units b'). unat (unit_ctrl (snd x)) < length (controllers b')"
    using tb keys(2) idx p(1) by (auto simp: bu tables_def)
  have old: "unit_ctrl (snd x) \<noteq> of_nat i" if "x \<in> set (base_units b)" for x using tb that by (simp add: tables_def)
  then have "queue_key x \<noteq> queue_key y" if "x \<in> set (base_units b)" "y \<in> set new" for x y
    using that keys(2) idx by (auto simp: queue_key_def)
  then have "queue_key ` set (base_units b) \<inter> queue_key ` set new = {}" by blast
  then have "distinct (map queue_key (base_units b'))"
    using tb keys(1) unfolding bu(1) map_append distinct_append set_map tables_def by blast
  moreover have "controllers b' ! j = controllers b ! j \<and> unit_ctrl (snd x) \<noteq> of_nat j" if "j \<in> set is" "x \<in> set new" for j x
  proof -
    have "j < length (controllers b)" "j \<noteq> i" using that(1) tb d by (auto simp: tables_def)
    then have "(of_nat j :: u32) \<noteq> of_nat i" using of_nat_ctrl_inj [of j i] p(1) tb by (auto simp: tables_def)
    then show ?thesis using keys(2) that(2) idx \<open>j \<noteq> i\<close> by (simp add: b'_def put_registry_def)
  qed
  moreover have "controllers b' ! j = controllers b ! j" if "j \<in> set is" for j
    using that d by (cases "j = i") (simp_all add: b'_def put_registry_def)
  ultimately show "tables is b'" using ok num ctrls tb bu by (auto simp: tables_def)
qed

lemma init_ctrls_result:
  assumes "init_ctrls e is b ctrls_up s = (b', n, s')" and "dma_never_refused e" and "tables is b" and "distinct is"
  shows "tables [] b' \<and> moves s s' (base_held e b) (base_held e b') \<and> res_frame b b' \<and>
    (\<exists>k\<le>length is. n = ctrls_up + of_nat k \<and> (k = 0 \<longrightarrow> base_units b' = base_units b))"
  using assms
proof (induction "is" arbitrary: b ctrls_up s)
  case (Cons i "is")
  let ?s = "load_ctrl (fst (controllers b ! i)) s"
  obtain ok s1 where i: "InitNVMe e ?s = (ok, s1)" by fastforce
  have "fresh_ctrl (ctrl_st ?s)" using Cons.prems(3) by (simp add: tables_def pending_def)
  note o = InitNVMe_outcome [OF Cons.prems(2) this i]
  have d: "distinct is" using Cons.prems(4) by simp
  show ?case
  proof (cases ok)
    case False
    let ?b = "put_ctrl i (ctrl_st s1) b"
    have r: "init_ctrls e is ?b ctrls_up s1 = (b', n, s')" using Cons.prems(1) i False by simp
    have "init_outcome e ?s False s1" using o False by simp
    note F = init_one_fail [OF Cons.prems(3,4) this]
    from Cons.IH [OF r Cons.prems(2) F(1) d] obtain k where
      k: "k \<le> length is" "n = ctrls_up + of_nat k" "k = 0 \<longrightarrow> base_units b' = base_units b"
      and m: "tables [] b'" "moves s1 s' (base_held e b) (base_held e b')" "res_frame ?b b'"
      using F(2) by auto
    then show ?thesis using moves_trans [OF F(3) m(2)] res_frame_trans [OF F(4) m(3)] by (auto intro!: exI [of _ k])
  next
    case True
    obtain n1 r s2 where v: "DiscoverUnits e (registry_of b i) (snd (InstallNVMeInterrupt e s1)) = (n1, r, s2)"
      by (cases "DiscoverUnits e (registry_of b i) (snd (InstallNVMeInterrupt e s1))")
    let ?b = "put_registry i (ctrl_st s2) r b"
    have r: "init_ctrls e is ?b (ctrls_up + 1) s2 = (b', n, s')" using Cons.prems(1) i v True by simp
    have "init_outcome e ?s True s1" using o True by simp
    note S = init_one_ok [OF Cons.prems(3,4) this v]
    from Cons.IH [OF r Cons.prems(2) S(1) d] obtain k where
      k: "k \<le> length is" "n = ctrls_up + 1 + of_nat k"
      and m: "tables [] b'" "moves s2 s' (base_held e ?b) (base_held e b')" "res_frame ?b b'"
      by auto
    then show ?thesis
      using moves_trans [OF S(2) m(2)] res_frame_trans [OF S(3) m(3)] by (auto simp: put_registry_def intro!: exI [of _ "Suc k"])
  qed
qed simp

lemma tables_start:
  assumes "\<forall>i<length (controllers b). pending i (controllers b ! i)" and "length (controllers b) \<le> NVME_MAX_CONTROLLERS"
    and "base_units b = []" and "base_num b = 0"
  shows "tables (all_ctrls b) b" and "base_held e b = {#}"
proof -
  have "ctrl_good (fst x) \<and> ctrl_res e (fst x) = {#}" if "x \<in> set (controllers b)" for x
  proof -
    obtain i where "i < length (controllers b)" "x = controllers b ! i" using \<open>x \<in> set (controllers b)\<close> by (auto simp: in_set_conv_nth)
    then show ?thesis using assms(1) by (simp add: pending_def fresh_ctrl_def ctrl_good_def ctrl_res_def int_held_def)
  qed
  moreover from this have "(\<Sum>x\<leftarrow>controllers b. ctrl_res e (fst x)) = (\<Sum>x\<leftarrow>controllers b. {#})"
    by (intro arg_cong [where f = sum_list] map_cong) simp_all
  ultimately show "tables (all_ctrls b) b" "base_held e b = {#}"
    using assms by (simp_all add: tables_def base_ok_def all_ctrls_def base_held_def units_held_def)
qed

lemma bring_up_all_result:
  assumes "bring_up_all e b s = (ok, b', s')" and "dma_never_refused e"
    and "\<forall>i<length (controllers b). pending i (controllers b ! i)" and "length (controllers b) \<le> NVME_MAX_CONTROLLERS"
    and "base_units b = []" and "base_num b = 0"
  shows "if ok then tables [] b' \<and> base_units b' \<noteq> [] \<and> moves s s' R (base_held e b' + R) else moves s s' R R" and "res_frame b b'"
proof -
  obtain b1 n s1 where i: "init_ctrls e (all_ctrls b) b 0 s = (b1, n, s1)" by (cases "init_ctrls e (all_ctrls b) b 0 s")
  have a: "distinct (all_ctrls b)" by (simp add: all_ctrls_def)
  obtain k where k: "k \<le> length (controllers b)" "n = of_nat k" "k = 0 \<longrightarrow> base_units b1 = []"
    and tb: "tables [] b1" and m0: "moves s s1 {#} (base_held e b1)" and f: "res_frame b b1"
    using init_ctrls_result [OF i assms(2) tables_start(1) [OF assms(3-6)] a] tables_start(2) [OF assms(3-6), of e] assms(5)
    by (auto simp: all_ctrls_def)
  have m: "moves s s1 R (base_held e b1 + R)" by (rule moves_from [OF m0])
  have "k \<le> 4" using le_trans [OF k(1) assms(4)] by (simp add: NVME_MAX_CONTROLLERS_def)
  then have "unat (of_nat k :: u32) = k" by (intro unat_of_nat_small) simp
  then have n: "n = 0 \<longleftrightarrow> k = 0" unfolding k(2) by (metis unat_eq_0)
  have num: "base_num b1 = 0 \<longleftrightarrow> base_units b1 = []"
    using unat_base_num [of b1] tb unfolding tables_def by (metis length_0_conv unat_eq_0)
  have "(if ok then tables [] b' \<and> base_units b' \<noteq> [] \<and> moves s s' R (base_held e b' + R) else moves s s' R R) \<and> res_frame b b'"
  proof (cases "n = 0 \<or> base_num b1 = 0")
    case True
    obtain b2 s2 where q: "quiesce e (all_ctrls b1) b1 s1 = (b2, s2)" by fastforce
    have "base_units b1 = []" using True n num k(3) by auto
    then have "moves s1 s2 (base_held e b1 + R) R" "res_frame b1 b2"
      using quiesce_moves [OF q, of R] tb all_ctrls_good [of b1]
      by (simp_all add: base_held_at tables_def base_ok_def all_ctrls_def units_held_def)
    moreover have "(ok, b', s') = (False, b2, s2)" using assms(1) i q True by (auto simp: bring_up_all_def)
    ultimately show ?thesis using moves_trans [OF m] res_frame_trans [OF f] by simp
  next
    case False
    then have "(ok, b', s') = (True, b1, s1)" using assms(1) i by (simp add: bring_up_all_def)
    then show ?thesis using False num tb m f by simp
  qed
  then show "if ok then tables [] b' \<and> base_units b' \<noteq> [] \<and> moves s s' R (base_held e b' + R) else moves s s' R R" "res_frame b b'"
    by blast+
qed

text \<open>What the flags say is held when the jump to \<open>err\<close> is taken.\<close>

definition err_held :: "loaded \<Rightarrow> NVMeBase \<Rightarrow> token multiset" where
  "err_held h b = tok_if (have_iutility h) (Tok_Iface (IUtility b)) + tok_if (have_utility h) (Tok_Lib (UtilityBase b)) +
     (if have_discovery h then pcis_held b else {#}) + tok_if (have_ipci h) (Tok_Iface (IPCI b)) +
     tok_if (have_expansion h) (Tok_Lib (ExpansionBase b))"

lemma load_err_moves:
  assumes "load_err h b s = (ok, b', s')" and "have_discovery h \<Longrightarrow> bus_ok b"
  shows "\<not> ok" and "moves s s' (err_held h b) {#}"
proof -
  define s1 where "s1 = (if have_iutility h then DropInterface (IUtility b) s else s)"
  define s2 where "s2 = (if have_utility h then CloseLibrary (UtilityBase b) s1 else s1)"
  obtain b1 s3 where r: "(if have_discovery h then release_pcis (all_ctrls b) b s2 else (b, s2)) = (b1, s3)" by fastforce
  define s4 where "s4 = (if have_ipci h then DropInterface (IPCI b1) s3 else s3)"
  define s5 where "s5 = (if have_expansion h then CloseLibrary (ExpansionBase b1) s4 else s4)"
  have "(ok, b', s') = (False, b1, s5)"
    using assms(1) unfolding load_err_def Let_def s1_def [symmetric] s2_def [symmetric] r by (auto simp: s4_def s5_def)
  then have e: "\<not> ok" "s' = s5" by simp_all
  then show "\<not> ok" by simp
  let ?q = "if have_discovery h then pcis_held b else {#}"
  let ?i = "tok_if (have_ipci h) (Tok_Iface (IPCI b))" and ?x = "tok_if (have_expansion h) (Tok_Lib (ExpansionBase b))"
  have f: "IPCI b1 = IPCI b \<and> ExpansionBase b1 = ExpansionBase b \<and> moves s2 s3 (?q + R) R" for R
    using r release_all_moves(1) [of b s2 b1 s3 R] release_all_moves(3,4) [of b s2 b1 s3] assms(2) by (cases "have_discovery h") auto
  have "moves s s1 (tok_if (have_iutility h) (Tok_Iface (IUtility b)) + R) R" for R
    by (simp add: s1_def DropInterface_def tok_if_def moves_def)
  moreover have "moves s1 s2 (tok_if (have_utility h) (Tok_Lib (UtilityBase b)) + R) R" for R
    by (simp add: s2_def CloseLibrary_def tok_if_def moves_def)
  moreover have "moves s3 s4 (?i + R) R" for R using f by (simp add: s4_def DropInterface_def tok_if_def moves_def)
  moreover have "moves s4 s5 (?x + R) R" for R using f by (simp add: s5_def CloseLibrary_def tok_if_def moves_def)
  ultimately have "moves s s5 (tok_if (have_iutility h) (Tok_Iface (IUtility b)) + (tok_if (have_utility h) (Tok_Lib (UtilityBase b)) +
      (?q + (?i + (?x + {#}))))) {#}"
    using f by (meson moves_trans)
  then show "moves s s' (err_held h b) {#}" using e by (simp only: err_held_def add.assoc add_0_right)
qed

text \<open>
  The outcome of the library's Init: on success the tables are in order and exactly what they
  name is held; on failure nothing is held.
\<close>

definition load_outcome :: "env \<Rightarrow> NVMeBase \<Rightarrow> drv \<Rightarrow> token multiset \<Rightarrow> bool \<Rightarrow> NVMeBase \<Rightarrow> drv \<Rightarrow> bool" where
  "load_outcome e b s R ok b' s' \<longleftrightarrow> (if ok then tables [] b' \<and> base_units b' \<noteq> [] \<and> bus_ok b' \<and> lib_OpenCnt b' = lib_OpenCnt b \<and>
     moves s s' R (all_held e b') else moves s s' R {#})"

lemma moves_open:
  assumes "OpenLibrary e name v s = (p, t)"
  shows "moves s t R (tok_if (p \<noteq> 0) (Tok_Lib p) + R)"
  using assms by (auto simp: OpenLibrary_def Let_def tok_if_def moves_def ac_simps)

lemma moves_get:
  assumes "GetInterface e l name s = (p, t)"
  shows "moves s t R (tok_if (p \<noteq> 0) (Tok_Iface p) + R)"
  using assms by (auto simp: GetInterface_def Let_def tok_if_def moves_def ac_simps)

definition found :: loaded where
  "found = \<lparr>have_expansion = True, have_ipci = True, have_discovery = True, have_utility = False, have_iutility = False\<rparr>"

lemma pcis_held_upd [simp]:
  "pcis_held (b\<lparr>UtilityBase := x\<rparr>) = pcis_held b" "pcis_held (b\<lparr>IUtility := y\<rparr>) = pcis_held b" "pcis_held (b\<lparr>lib_delexp := z\<rparr>) = pcis_held b"
  "bus_ok (b\<lparr>UtilityBase := x\<rparr>) = bus_ok b" "bus_ok (b\<lparr>IUtility := y\<rparr>) = bus_ok b" "bus_ok (b\<lparr>lib_delexp := z\<rparr>) = bus_ok b"
  by (simp_all add: pcis_held_def bus_ok_def)

lemma load_utility_result:
  assumes "load_utility e found b s = (ok, b', s')" and "dma_never_refused e" and "bus_ok b"
    and "\<forall>i<length (controllers b). pending i (controllers b ! i)" and "length (controllers b) \<le> NVME_MAX_CONTROLLERS"
    and "base_units b = []" and "base_num b = 0" and "ExpansionBase b \<noteq> 0" and "IPCI b \<noteq> 0"
  shows "load_outcome e b s (err_held found b) ok b' s'"
proof -
  obtain p s1 where o: "OpenLibrary e ''utility.library'' 50 s = (p, s1)" by fastforce
  let ?h1 = "found\<lparr>have_utility := True\<rparr>" and ?b1 = "b\<lparr>UtilityBase := p\<rparr>"
  have m1: "moves s s1 (err_held found b) (err_held (found\<lparr>have_utility := p \<noteq> 0\<rparr>) ?b1)"
    using moves_open [OF o, of "err_held found b"] by (simp add: err_held_def found_def ac_simps)
  show ?thesis
  proof (cases "p = 0")
    case True
    then have "load_err found ?b1 s1 = (ok, b', s')" using assms(1) o by (simp add: load_utility_def)
    from load_err_moves [OF this] have "\<not> ok" "moves s1 s' (err_held found ?b1) {#}" using assms(3) by simp_all
    moreover have "found\<lparr>have_utility := False\<rparr> = found" by (simp add: found_def)
    ultimately show ?thesis using moves_trans [OF m1] True by (simp add: load_outcome_def)
  next
    case p: False
    obtain i s2 where g: "GetInterface e p ''main'' s1 = (i, s2)" by fastforce
    let ?b2 = "?b1\<lparr>IUtility := i\<rparr>"
    have "moves s1 s2 (err_held ?h1 ?b1) (err_held (?h1\<lparr>have_iutility := i \<noteq> 0\<rparr>) ?b2)"
      using moves_get [OF g, of "err_held ?h1 ?b1"] by (simp add: err_held_def found_def add_mset_commute ac_simps)
    then have m2: "moves s s2 (err_held found b) (err_held (?h1\<lparr>have_iutility := i \<noteq> 0\<rparr>) ?b2)"
      using moves_trans [OF m1] p by simp
    show ?thesis
    proof (cases "i = 0")
      case True
      then have "load_err ?h1 ?b2 s2 = (ok, b', s')" using assms(1) o g p by (simp add: load_utility_def Let_def)
      from load_err_moves [OF this] have "\<not> ok" "moves s2 s' (err_held ?h1 ?b2) {#}" using assms(3) by simp_all
      moreover have "?h1\<lparr>have_iutility := False\<rparr> = ?h1" by (simp add: found_def)
      ultimately show ?thesis using moves_trans [OF m2] True by (simp add: load_outcome_def)
    next
      case i: False
      let ?b = "?b2\<lparr>lib_delexp := False\<rparr>" and ?h2 = "?h1\<lparr>have_iutility := True\<rparr>"
      obtain ok3 b3 s3 where u: "bring_up_all e ?b s2 = (ok3, b3, s3)" by (cases "bring_up_all e ?b s2")
      note B = bring_up_all_result(1) [OF u assms(2), of "err_held ?h2 ?b2"]
      have F: "res_frame ?b b3" using bring_up_all_result(2) [OF u assms(2)] assms(4-7) by simp
      note H = res_frame_held [OF F]
      have lb: "IUtility b3 = i" "UtilityBase b3 = p" "IPCI b3 = IPCI b" "ExpansionBase b3 = ExpansionBase b"
        using F by (simp_all add: res_frame_def)
      have eh: "err_held ?h2 b3 = err_held ?h2 ?b2" "err_held ?h2 b3 = pcis_held b3 + libs_held b3"
        using H lb i p assms(8,9) by (simp_all add: err_held_def libs_held_def found_def ac_simps)
      have m3: "moves s s2 (err_held found b) (err_held ?h2 ?b2)" using m2 i by simp
      have r: "(ok, b', s') = (if ok3 then (True, b3, s3) else load_err ?h2 b3 s3)"
        using assms(1) o g p i u by (simp add: load_utility_def Let_def split: if_splits)
      show ?thesis
      proof (cases ok3)
        case True
        then have "tables [] b3" "base_units b3 \<noteq> []" "moves s2 s3 (err_held ?h2 ?b2) (base_held e b3 + err_held ?h2 ?b2)"
          using B assms(4-7) by simp_all
        moreover have "base_held e b3 + err_held ?h2 ?b2 = all_held e b3" using eh by (simp add: all_held_def)
        ultimately show ?thesis using r True moves_trans [OF m3] H assms(3) by (simp add: load_outcome_def)
      next
        case False
        then have "load_err ?h2 b3 s3 = (ok, b', s')" using r by simp
        from load_err_moves [OF this] have "\<not> ok" "moves s3 s' (err_held ?h2 ?b2) {#}" using H(3) assms(3) eh by simp_all
        moreover have "moves s2 s3 (err_held ?h2 ?b2) (err_held ?h2 ?b2)" using B False assms(4-7) by simp
        ultimately show ?thesis using moves_trans [OF moves_trans [OF m3]] by (simp add: load_outcome_def)
      qed
    qed
  qed
qed

text \<open>The base as exec hands it to Init: cleared memory.\<close>

definition cleared_base :: "NVMeBase \<Rightarrow> bool" where
  "cleared_base b \<longleftrightarrow> controllers b = [] \<and> length (spare b) = NVME_MAX_CONTROLLERS \<and> (\<forall>x\<in>set (spare b). vacant x)"

lemma manager_Init_result:
  assumes "manager_Init e b s = (ok, b', s')" and "dma_never_refused e" and "cleared_base b"
  shows "load_outcome e b s {#} ok b' s'"
proof -
  let ?b0 = "b\<lparr>base_units := [], base_num := 0\<rparr>" and ?h1 = "nothing_loaded\<lparr>have_expansion := True\<rparr>"
  have b0: "b\<lparr>controllers := [], spare := controllers b @ spare b, base_units := [], base_num := 0\<rparr> = ?b0"
    using assms(3) by (cases b) (simp add: cleared_base_def)
  obtain p s1 where o: "OpenLibrary e ''expansion.library'' 54 s = (p, s1)" by fastforce
  let ?b1 = "?b0\<lparr>ExpansionBase := p\<rparr>"
  have m1: "moves s s1 {#} (err_held (nothing_loaded\<lparr>have_expansion := p \<noteq> 0\<rparr>) ?b1)"
    using moves_open [OF o, of "{#}"] by (simp add: err_held_def nothing_loaded_def)
  show ?thesis
  proof (cases "p = 0")
    case True
    then have "load_err nothing_loaded ?b1 s1 = (ok, b', s')" using assms(1) o by (simp add: manager_Init_def b0)
    from load_err_moves [OF this] have "\<not> ok" "moves s1 s' (err_held nothing_loaded ?b1) {#}" by (simp_all add: nothing_loaded_def)
    moreover have "nothing_loaded\<lparr>have_expansion := False\<rparr> = nothing_loaded" by (simp add: nothing_loaded_def)
    ultimately show ?thesis using moves_trans [OF m1] True by (simp add: load_outcome_def)
  next
    case p: False
    obtain i s2 where g: "GetInterface e p ''pci'' s1 = (i, s2)" by fastforce
    let ?b2 = "?b1\<lparr>IPCI := i\<rparr>" and ?h2 = "?h1\<lparr>have_ipci := True\<rparr>"
    have "moves s1 s2 (err_held ?h1 ?b1) (err_held (?h1\<lparr>have_ipci := i \<noteq> 0\<rparr>) ?b2)"
      using moves_get [OF g, of "err_held ?h1 ?b1"] by (simp add: err_held_def nothing_loaded_def ac_simps)
    then have m2: "moves s s2 {#} (err_held (?h1\<lparr>have_ipci := i \<noteq> 0\<rparr>) ?b2)" using moves_trans [OF m1] p by simp
    show ?thesis
    proof (cases "i = 0")
      case True
      then have "load_err ?h1 ?b2 s2 = (ok, b', s')" using assms(1) o g p by (simp add: manager_Init_def b0 Let_def)
      from load_err_moves [OF this] have "\<not> ok" "moves s2 s' (err_held ?h1 ?b2) {#}" by (simp_all add: nothing_loaded_def)
      moreover have "?h1\<lparr>have_ipci := False\<rparr> = ?h1" by (simp add: nothing_loaded_def)
      ultimately show ?thesis using moves_trans [OF m2] True by (simp add: load_outcome_def)
    next
      case i: False
      obtain ok3 b3 s3 where d: "DiscoverNVMe e ?b2 s2 = (ok3, b3, s3)" by (cases "DiscoverNVMe e ?b2 s2")
      have "controllers ?b2 = []" "\<forall>x\<in>set (spare ?b2). vacant x" "length (spare ?b2) = NVME_MAX_CONTROLLERS"
        using assms(3) by (simp_all add: cleared_base_def)
      note D = DiscoverNVMe_result [OF d this]
      note rs = D(7) [unfolded rest_of_def]
      have lb: "IPCI b3 = i" "ExpansionBase b3 = p" "lib_OpenCnt b3 = lib_OpenCnt b" "base_units b3 = []" "base_num b3 = 0"
        using rs [THEN arg_cong, of IPCI] rs [THEN arg_cong, of ExpansionBase] rs [THEN arg_cong, of lib_OpenCnt]
          rs [THEN arg_cong, of base_units] rs [THEN arg_cong, of base_num] by simp_all
      have pend: "\<forall>j<length (controllers b3). pending j (controllers b3 ! j) \<and> located e (fst (controllers b3 ! j))"
        using D(1) unfolding searched_def by blast
      have "bus_ok b3" unfolding bus_ok_def
      proof
        fix x
        assume "x \<in> set (controllers b3)"
        then obtain j where "j < length (controllers b3)" "x = controllers b3 ! j" by (auto simp: in_set_conv_nth)
        then show "pciDevice (fst x) = 0 \<longrightarrow> bar0 (fst x) = 0" using pend by (simp add: located_def)
      qed
      have m: "moves s s2 {#} {#Tok_Iface i, Tok_Lib p#}" using m2 p i by (simp add: err_held_def nothing_loaded_def add_mset_commute)
      have m3: "moves s s3 {#} (err_held found b3)"
        using moves_trans [OF m moves_from [OF D(4)]] lb by (simp add: err_held_def found_def ac_simps)
      have h: "?h2\<lparr>have_discovery := True\<rparr> = found" by (simp add: nothing_loaded_def found_def)
      have r: "(ok, b', s') = (if ok3 then load_utility e found b3 s3 else load_err ?h2 b3 s3)"
        using assms(1) o g p i d h by (simp add: manager_Init_def b0 Let_def split: if_splits)
      show ?thesis
      proof (cases ok3)
        case True
        then have "load_utility e found b3 s3 = (ok, b', s')" using r by simp
        from load_utility_result [OF this assms(2) \<open>bus_ok b3\<close>] have "load_outcome e b3 s3 (err_held found b3) ok b' s'"
          using pend D(2) lb p i by simp
        then show ?thesis using moves_trans [OF m3] lb(3) by (simp add: load_outcome_def split: if_splits)
      next
        case False
        then have "controllers b3 = []" using D(3) by simp
        then have "err_held ?h2 b3 = err_held found b3" by (simp add: err_held_def found_def nothing_loaded_def pcis_held_def)
        moreover have "load_err ?h2 b3 s3 = (ok, b', s')" using r False by simp
        note load_err_moves [OF this]
        ultimately show ?thesis using moves_trans [OF m3] by (simp add: load_outcome_def nothing_loaded_def)
      qed
    qed
  qed
qed

section \<open>The outcome of an Open\<close>

text \<open>
  The page size with which the buffers of unit \<open>k\<close> are mapped, and the account of what its task
  has set up.
\<close>

definition unit_setup :: "env \<Rightarrow> NVMeBase \<Rightarrow> nat \<Rightarrow> token multiset" where
  "unit_setup e b k = (let u = snd (base_units b ! k) in
     setup_held e (page_size (fst (controllers b ! unat (unit_ctrl u)))) u)"

lemma put_unit_simps [simp]:
  "lib_OpenCnt (put_unit k s b) = lib_OpenCnt b" "lib_delexp (put_unit k s b) = lib_delexp b" "base_num (put_unit k s b) = base_num b"
  "length (base_units (put_unit k s b)) = length (base_units b)"
  "k < length (base_units b) \<Longrightarrow> base_units (put_unit k s b) ! k = (fst (base_units b ! k), unit_st s)"
  "j \<noteq> k \<Longrightarrow> base_units (put_unit k s b) ! j = base_units b ! j"
  by (simp_all add: put_unit_def)

lemma load_ctrl_st: "ctrl_st (load_unit b k s) = fst (controllers b ! unat (unit_ctrl (snd (base_units b ! k))))"
  by (simp add: load_unit_def Let_def)

lemma put_unit_setup:
  assumes "k < length (base_units b)" and "unit_ctrl (unit_st t) = unit_ctrl (snd (base_units b ! k))"
    and "unat (unit_ctrl (snd (base_units b ! k))) < length (controllers b)"
  shows "unit_setup e (put_unit k t b) k = setup_held e (page_size (ctrl_st t)) (unit_st t)"
  using assms by (simp add: unit_setup_def Let_def) (simp add: put_unit_def put_ctrl_def)

text \<open>
  The first part of \<open>manager_Open\<close> that can fail after the lookup, on the loaded unit.
\<close>

definition first_open :: "env \<Rightarrow> drv \<Rightarrow> bool \<times> drv" where
  "first_open e s = (if open_count (unit_st s) = 0 then UnitTask_Start e s else (True, s))"

lemma first_open_result:
  assumes "first_open e s = (ok, t)" and "open_count (unit_st s) = 0 \<Longrightarrow> unstarted (unit_st s)"
  defines "ps \<equiv> page_size (ctrl_st s)"
  shows "moves s t (setup_held e ps (unit_st s)) (setup_held e ps (unit_st t))" and "task_core (unit_st t) = task_core (unit_st s)"
    and "ctrl_st t = ctrl_st s" and "reqs t = reqs s"
    and "open_count (unit_st s) \<noteq> 0 \<Longrightarrow> ok \<and> t = s"
    and "ok \<Longrightarrow> open_count (unit_st s) = 0 \<Longrightarrow> unit_task (unit_st t) \<noteq> 0 \<and> io_port (unit_st t) \<noteq> 0"
  using assms(1,2) UnitTask_Start_outcome [of e s ok t]
  by (auto simp: first_open_def start_outcome_def ps_def split: if_splits)

lemma manager_Open_alt:
  "manager_Open e req n b s =
     (let b1 = b\<lparr>lib_OpenCnt := lib_OpenCnt b + 1\<rparr>; k = unat n in
      if n \<ge> base_num b \<or> fst (base_units b ! k) = 0 then open_fail req b1 s
      else case first_open e (load_unit b k s) of (ok, t) \<Rightarrow>
        if \<not> ok then open_fail req (put_unit k t b1) t
        else let u = upd_unit (\<lambda>u. u\<lparr>open_count := open_count u + 1\<rparr>) t;
                 v = set_error req IO_OK (upd_req req (\<lambda>r. r\<lparr>io_Unit := fst (base_units b ! k)\<rparr>) u)
          in (True, (put_unit k v b1)\<lparr>lib_delexp := False\<rparr>, v))"
  by (simp add: manager_Open_def first_open_def Let_def)

end
