(* ===== verification/Nvme_Session.thy ===== *)
theory Nvme_Session
  imports Nvme_Lives Nvme_Lifetime
begin

text \<open>
  The whole driver in use: the base with all its units, their tasks, the clients, the devices
  and the interrupts as one transition system, from Init to Expunge. A step of one unit loads
  it with its controller, runs a step of Nvme_System on it, and stores both back; Open, Close
  and Expunge are those of Nvme_Library.
\<close>

section \<open>The system\<close>

text \<open>
  \<open>pcs\<close> are the tasks of the units; \<open>admitted\<close> collects what \<open>BeginIO\<close> accepted for any unit, and
  \<open>lost\<close> what the units still carried when the driver was unloaded.
\<close>

record system =
  base :: NVMeBase
  mach :: drv
  pcs :: "nat \<Rightarrow> task_pc"
  admitted :: "token multiset"
  resident :: bool
  lost :: "token multiset"

definition conf :: "nat \<Rightarrow> system \<Rightarrow> config" where
  "conf k y = \<lparr>pc = pcs y k, drv_st = load_unit (base y) k (mach y), accepted = admitted y\<rparr>"

definition put_back :: "nat \<Rightarrow> config \<Rightarrow> system \<Rightarrow> system" where
  "put_back k c y = y\<lparr>base := put_unit k (drv_st c) (base y), mach := drv_st c, pcs := (pcs y)(k := pc c), admitted := accepted c\<rparr>"

text \<open>What the slots of a unit and its waiting requests hold for its clients; of all units.\<close>

definition carried_of :: "NVMeUnit \<Rightarrow> token multiset" where
  "carried_of u = held_slots (inflight u) + mset (map Tok_Req (waiting u))"

definition abandoned :: "NVMeBase \<Rightarrow> token multiset" where
  "abandoned b = (\<Sum>x\<leftarrow>base_units b. carried_of (snd x))"

text \<open>The unit as the last Close hands it to \<open>UnitTask_Shutdown\<close>.\<close>

definition closing :: "nat \<Rightarrow> system \<Rightarrow> drv" where
  "closing k y = close_release (upd_unit (\<lambda>u. u\<lparr>open_count := 0\<rparr>) (load_unit (base y) k (mach y)))"

text \<open>
  The steps while the driver is loaded. The task of an open unit ends only when the last Close asks
  it to; a failed Open has released what it took, and the last Close gets its signal bit (both
  can fail, see the properties of the start and the shutdown). Close and Expunge change hands with
  no step of another unit in between.
\<close>

inductive sys_step :: "env \<Rightarrow> system \<Rightarrow> system \<Rightarrow> bool" for e where
  unit_step: "resident y \<Longrightarrow> k < length (base_units (base y)) \<Longrightarrow> step e (conf k y) c \<Longrightarrow> pcs y k = Gone \<or> pc c \<noteq> Gone \<Longrightarrow>
     sys_step e y (put_back k c y)"
| interrupt: "resident y \<Longrightarrow> i < length (controllers (base y)) \<Longrightarrow>
     \<forall>u cq. Some (u, cq) \<in> set us \<longrightarrow> (\<exists>x\<in>set (base_units (base y)). u = snd x \<and> unat (unit_ctrl u) = i) \<Longrightarrow>
     nvme_irq_handler us (load_ctrl (fst (controllers (base y) ! i)) (mach y)) = (claimed, s') \<Longrightarrow>
     sys_step e y (y\<lparr>mach := s'\<rparr>)"
| open_unit: "resident y \<Longrightarrow> lib_OpenCnt (base y) + 1 \<noteq> 0 \<Longrightarrow> manager_Open e req n (base y) (mach y) = (ok, b', s') \<Longrightarrow>
     (\<not> ok \<Longrightarrow> unat n < length (base_units b') \<Longrightarrow> unit_setup e b' (unat n) = {#}) \<Longrightarrow>
     sys_step e y (y\<lparr>base := b', mach := s', pcs := (pcs y)(unat n := if ok \<and> pcs y (unat n) = Gone then Top else pcs y (unat n))\<rparr>)"
| close_some: "resident y \<Longrightarrow> find_unit (io_Unit (reqs (mach y) req)) (base y) = Some k \<Longrightarrow>
     1 < open_count (snd (base_units (base y) ! k)) \<Longrightarrow> manager_Close e (\<lambda>s. s) req (base y) (mach y) = (gone, b', s') \<Longrightarrow>
     sys_step e y (y\<lparr>base := b', mach := s'\<rparr>)"
| close_last: "resident y \<Longrightarrow> find_unit (io_Unit (reqs (mach y) req)) (base y) = Some k \<Longrightarrow>
     open_count (snd (base_units (base y) ! k)) = 1 \<Longrightarrow> 0 \<le> e_AllocSignal e (trace (closing k y)) \<Longrightarrow>
     (step e)\<^sup>*\<^sup>* ((conf k y)\<lparr>drv_st := asked e (closing k y)\<rparr>) c \<Longrightarrow> pc c = Gone \<Longrightarrow>
     manager_Close e (\<lambda>_. drv_st c) req (base y) (mach y) = (gone, b', s') \<Longrightarrow>
     sys_step e y (y\<lparr>base := b', mach := s', pcs := (pcs y)(k := Gone), admitted := accepted c, resident := \<not> gone,
       lost := if gone then abandoned (put_unit k (UnitTask_Shutdown e (\<lambda>_. drv_st c) (closing k y)) (base y)) else {#}\<rparr>)"
| expunge: "resident y \<Longrightarrow> manager_Expunge e (\<lambda>s. s) (base y) (mach y) = (gone, b', s') \<Longrightarrow>
     sys_step e y (y\<lparr>base := b', mach := s', resident := \<not> gone, lost := if gone then abandoned (base y) else {#}\<rparr>)"

definition after_Init :: "NVMeBase \<Rightarrow> drv \<Rightarrow> system" where
  "after_Init b s = \<lparr>base = b, mach = s, pcs = (\<lambda>_. Gone), admitted = {#}, resident = True, lost = {#}\<rparr>"

section \<open>A unit in its place\<close>

lemma fixedD:
  assumes "fixed_of c' = fixed_of c"
  shows "page_size c' = page_size c" "ctrl_res e c' = ctrl_res e c" "ctrl_good c' = ctrl_good c" "pci_held c' = pci_held c"
    "pciDevice c' = pciDevice c" "bar0 c' = bar0 c"
proof -
  have f: "g (fixed_of c') = g (fixed_of c)" for g :: "NVMeController \<Rightarrow> 'a" using assms by simp
  have p: "admin_sq c' = admin_sq c" "admin_cq c' = admin_cq c" "identify_buf c' = identify_buf c"
    "admin_sq_dma c' = admin_sq_dma c" "admin_cq_dma c' = admin_cq_dma c" "identify_dma c' = identify_dma c"
    "irq_installed c' = irq_installed c" "irq_vector c' = irq_vector c"
    using f [of admin_sq] f [of admin_cq] f [of identify_buf] f [of admin_sq_dma] f [of admin_cq_dma] f [of identify_dma]
      f [of irq_installed] f [of irq_vector] by (simp_all add: fixed_of_def)
  show q: "page_size c' = page_size c" "pciDevice c' = pciDevice c" "bar0 c' = bar0 c"
    using f [of page_size] f [of pciDevice] f [of bar0] by (simp_all add: fixed_of_def)
  show "ctrl_res e c' = ctrl_res e c" "ctrl_good c' = ctrl_good c" "pci_held c' = pci_held c"
    using p q by (simp_all add: ctrl_res_def ctrl_held_def int_held_def ctrl_good_def progress_def pci_held_def)
qed

lemma carried_eq: "carried s = carried_of (unit_st s)"
  by (simp add: carried_def carried_of_def)

text \<open>What a unit names: the set-up of its task, and what it carries.\<close>

definition unit_live :: "env \<Rightarrow> NVMeBase \<Rightarrow> NVMeUnit \<Rightarrow> token multiset" where
  "unit_live e b u = setup_held e (page_size (fst (controllers b ! unat (unit_ctrl u)))) u + carried_of u"

definition live :: "env \<Rightarrow> NVMeBase \<Rightarrow> token multiset" where
  "live e b = (\<Sum>x\<leftarrow>base_units b. unit_live e b (snd x))"

text \<open>The tables are in order.\<close>

definition sound :: "NVMeBase \<Rightarrow> bool" where
  "sound b \<longleftrightarrow> (\<forall>x\<in>set (controllers b). ctrl_good (fst x)) \<and> bus_ok b \<and> base_num b = of_nat (length (base_units b)) \<and>
     length (base_units b) \<le> NVME_MAX_GLOBAL_UNITS \<and>
     (\<forall>x\<in>set (base_units b). fst x \<noteq> 0 \<and> io_sq (snd x) \<noteq> 0 \<and> io_cq (snd x) \<noteq> 0 \<and> unat (unit_ctrl (snd x)) < length (controllers b))"

lemma flags_only [simp]:
  "sound (b\<lparr>lib_OpenCnt := n\<rparr>) = sound b" "sound (b\<lparr>lib_delexp := d\<rparr>) = sound b"
  "live e (b\<lparr>lib_OpenCnt := n\<rparr>) = live e b" "live e (b\<lparr>lib_delexp := d\<rparr>) = live e b"
  "all_held e (b\<lparr>lib_OpenCnt := n\<rparr>) = all_held e b" "all_held e (b\<lparr>lib_delexp := d\<rparr>) = all_held e b"
  by (simp_all add: sound_def bus_ok_def live_def unit_live_def all_held_def base_held_def pcis_held_def libs_held_def)

text \<open>The unit that was loaded from place \<open>k\<close> is stored back as it is in \<open>t\<close>.\<close>

definition stored :: "NVMeBase \<Rightarrow> nat \<Rightarrow> drv \<Rightarrow> bool" where
  "stored b k t \<longleftrightarrow> k < length (base_units b) \<and> sound b \<and>
     unit_ctrl (unit_st t) = unit_ctrl (snd (base_units b ! k)) \<and> io_sq (unit_st t) = io_sq (snd (base_units b ! k)) \<and>
     io_cq (unit_st t) = io_cq (snd (base_units b ! k)) \<and>
     fixed_of (ctrl_st t) = fixed_of (fst (controllers b ! unat (unit_ctrl (snd (base_units b ! k)))))"

lemma storedI:
  assumes "k < length (base_units b)" and "sound b" and "unit_ctrl (unit_st t) = unit_ctrl (snd (base_units b ! k))"
    and "io_sq (unit_st t) = io_sq (snd (base_units b ! k))" and "io_cq (unit_st t) = io_cq (snd (base_units b ! k))"
    and "same_hw (load_unit b k s) t"
  shows "stored b k t"
  using assms by (simp add: stored_def same_hw_def load_ctrl_st)

lemma seat_there: "k < length (base_units b) \<Longrightarrow> sound b \<Longrightarrow> unat (unit_ctrl (snd (base_units b ! k))) < length (controllers b)"
  using nth_mem [of k "base_units b"] by (auto simp: sound_def)

lemma put_units: "base_units (put_unit k t b) = (base_units b)[k := (fst (base_units b ! k), unit_st t)]"
  by (simp add: put_unit_def)

lemma put_ctrls:
  assumes "stored b k t"
  defines "i \<equiv> unat (unit_ctrl (snd (base_units b ! k)))"
  shows "controllers (put_unit k t b) = (controllers b)[i := (ctrl_st t, snd (controllers b ! i))]"
  using assms by (simp add: put_unit_def put_ctrl_def stored_def)

text \<open>What depends on the identity of the controllers only is kept.\<close>

lemma put_over_ctrls:
  assumes "stored b k t" and "\<And>c c'. fixed_of c' = fixed_of c \<Longrightarrow> f c' = f c"
  shows "map (\<lambda>x. f (fst x)) (controllers (put_unit k t b)) = map (\<lambda>x. f (fst x)) (controllers b)"
  unfolding put_ctrls [OF assms(1)]
proof (rule map_update_same)
  show "f (fst (ctrl_st t, snd (controllers b ! unat (unit_ctrl (snd (base_units b ! k)))))) =
      f (fst (controllers b ! unat (unit_ctrl (snd (base_units b ! k)))))"
    unfolding fst_conv by (rule assms(2)) (use assms(1) in \<open>simp add: stored_def\<close>)
qed

lemma put_pages:
  assumes "stored b k t"
  shows "page_size (fst (controllers (put_unit k t b) ! j)) = page_size (fst (controllers b ! j))"
proof -
  let ?i = "unat (unit_ctrl (snd (base_units b ! k)))"
  have f: "fixed_of (ctrl_st t) = fixed_of (fst (controllers b ! ?i))" and l: "?i < length (controllers b)"
    using assms seat_there [of k b] by (simp_all add: stored_def)
  show ?thesis
  proof (cases "j = ?i")
    case True
    show ?thesis unfolding put_ctrls [OF assms] True nth_list_update_eq [OF l] fst_conv by (rule fixedD(1) [OF f])
  next
    case False
    then show ?thesis unfolding put_ctrls [OF assms] by simp
  qed
qed

lemma put_all_held:
  assumes "stored b k t"
  shows "all_held e (put_unit k t b) = all_held e b"
proof -
  let ?b = "put_unit k t b"
  have c: "map (\<lambda>x. ctrl_res e (fst x)) (controllers ?b) = map (\<lambda>x. ctrl_res e (fst x)) (controllers b)"
    by (rule put_over_ctrls [OF assms fixedD(2)])
  have p: "map (\<lambda>x. pci_held (fst x)) (controllers ?b) = map (\<lambda>x. pci_held (fst x)) (controllers b)"
    by (rule put_over_ctrls [OF assms fixedD(4)])
  have "io_sq (unit_st t) = io_sq (snd (base_units b ! k))" "io_cq (unit_st t) = io_cq (snd (base_units b ! k))"
    using assms by (simp_all add: stored_def)
  then have u: "map (unit_held e) (base_units ?b) = map (unit_held e) (base_units b)"
    unfolding put_units by (intro map_update_same) (simp add: unit_held_def queues_held_def vecs_held_def pins_held_def)
  have "libs_held ?b = libs_held b" by (simp add: libs_held_def put_unit_def put_ctrl_def)
  then show ?thesis by (simp only: all_held_def base_held_def pcis_held_def units_held_def c p u)
qed

lemma put_sound:
  assumes "stored b k t"
  shows "sound (put_unit k t b)"
proof -
  let ?b = "put_unit k t b" and ?i = "unat (unit_ctrl (snd (base_units b ! k)))"
  have b: "sound b" "k < length (base_units b)" using assms by (simp_all add: stored_def)
  have l: "length (controllers ?b) = length (controllers b)" by (simp add: put_ctrls [OF assms])
  have g: "ctrl_good (ctrl_st t)"
  proof -
    have "fixed_of (ctrl_st t) = fixed_of (fst (controllers b ! ?i))" using assms by (simp add: stored_def)
    moreover have "ctrl_good (fst (controllers b ! ?i))" using b nth_mem [OF seat_there [OF b(2,1)]] by (simp add: sound_def)
    ultimately show ?thesis using fixedD(3) by blast
  qed
  have "ctrl_good (fst x)" if "x \<in> set (controllers ?b)" for x
  proof -
    have "x = (ctrl_st t, snd (controllers b ! ?i)) \<or> x \<in> set (controllers b)"
      using that unfolding put_ctrls [OF assms] by (rule set_put)
    then show ?thesis using g b(1) by (auto simp: sound_def)
  qed
  moreover have "bus_ok ?b"
  proof -
    have "(pciDevice c', bar0 c') = (pciDevice c, bar0 c)" if "fixed_of c' = fixed_of c" for c c'
      using fixedD(5,6) [OF that] by simp
    from put_over_ctrls [OF assms, of "\<lambda>c. (pciDevice c, bar0 c)", OF this]
    have q: "map (\<lambda>x. (pciDevice (fst x), bar0 (fst x))) (controllers ?b) = map (\<lambda>x. (pciDevice (fst x), bar0 (fst x))) (controllers b)" .
    have "res_frame b ?b" unfolding res_frame_def q by (simp add: put_unit_def put_ctrl_def)
    from res_frame_held(3) [OF this] show ?thesis using b(1) by (simp add: sound_def)
  qed
  moreover have "fst x \<noteq> 0 \<and> io_sq (snd x) \<noteq> 0 \<and> io_cq (snd x) \<noteq> 0 \<and> unat (unit_ctrl (snd x)) < length (controllers b)"
    if "x \<in> set (base_units ?b)" for x
  proof -
    have "x = (fst (base_units b ! k), unit_st t) \<or> x \<in> set (base_units b)" using that set_put unfolding put_units by fastforce
    then show ?thesis using b nth_mem [OF b(2)] assms by (auto simp: sound_def stored_def)
  qed
  ultimately show ?thesis using b(1) l by (simp add: sound_def)
qed

lemma put_live:
  assumes "stored b k t"
  shows "live e (put_unit k t b) + unit_live e b (snd (base_units b ! k)) = live e b + unit_live e b (unit_st t)"
proof -
  have u: "unit_live e (put_unit k t b) v = unit_live e b v" for v by (simp add: unit_live_def put_pages [OF assms])
  show ?thesis
    using sum_list_update_add [of k "base_units b" "\<lambda>x. unit_live e b (snd x)" "(fst (base_units b ! k), unit_st t)"] assms
    unfolding live_def u put_units by (simp add: stored_def)
qed

lemma put_moves:
  assumes st: "stored b k t"
    and m: "moves s t (A + (setup_held e (page_size (ctrl_st (load_unit b k s))) (snd (base_units b ! k)) + carried (load_unit b k s)))
      (setup_held e (page_size (ctrl_st t)) (unit_st t) + carried t)"
  shows "moves s t (A + (all_held e b + live e b)) (all_held e (put_unit k t b) + live e (put_unit k t b))"
proof -
  let ?u = "snd (base_units b ! k)"
  have f: "fixed_of (ctrl_st t) = fixed_of (fst (controllers b ! unat (unit_ctrl ?u)))" and "unit_ctrl (unit_st t) = unit_ctrl ?u"
    using st by (simp_all add: stored_def)
  note fixedD(1) [OF f] this(2)
  then have m': "moves s t (A + unit_live e b ?u) (unit_live e b (unit_st t))"
    using m by (simp add: unit_live_def carried_eq load_ctrl_st)
  have "A + (H + l) + it + os = (H + l') + ot + is"
    if "A + a + it + os = a' + ot + is" "l' + a = l + a'" for l l' a a' "is" os ot it H :: "token multiset"
  proof -
    have "(A + (H + l) + it + os) + (a + a') = ((H + l') + ot + is) + (a + a')"
      using arg_cong2 [OF that(1) that(2) [symmetric], of "(+)"] by (simp add: ac_simps)
    then show ?thesis by simp
  qed
  from this [OF m' [unfolded moves_def] put_live [OF st]] show ?thesis unfolding put_all_held [OF st] moves_def .
qed

section \<open>The invariant\<close>

text \<open>A unit that is not open is at rest; an open unit has its task.\<close>

definition unit_state :: "task_pc \<Rightarrow> drv \<Rightarrow> bool" where
  "unit_state p s \<longleftrightarrow> (if open_count (unit_st s) = 0 then p = Gone \<and> rested s
     else p \<noteq> Gone \<and> wf s \<and> arrays_ok (unit_st s) \<and> unit_task (unit_st s) \<noteq> 0)"

lemma unit_state_cong: "unit_st s = unit_st t \<Longrightarrow> unit_state p s = unit_state p t"
  by (simp add: unit_state_def rested_def wf_def not_inflight_def slot_of_def)

definition counted :: "NVMeBase \<Rightarrow> bool" where
  "counted b \<longleftrightarrow> unat (lib_OpenCnt b) = (\<Sum>x\<leftarrow>base_units b. unat (open_count (snd x)))"

definition units_in_order :: "system \<Rightarrow> bool" where
  "units_in_order y \<longleftrightarrow> (\<forall>k<length (base_units (base y)). unit_state (pcs y k) (load_unit (base y) k (mach y)))"

definition account :: "env \<Rightarrow> drv \<Rightarrow> system \<Rightarrow> bool" where
  "account e s0 y \<longleftrightarrow> moves s0 (mach y) (admitted y) (if resident y then all_held e (base y) + live e (base y) else lost y)"

definition serving :: "env \<Rightarrow> drv \<Rightarrow> system \<Rightarrow> bool" where
  "serving e s0 y \<longleftrightarrow> account e s0 y \<and> (resident y \<longrightarrow> sound (base y) \<and> counted (base y) \<and> units_in_order y)"

lemma placeD:
  assumes "place_of u' = place_of u"
  shows "unit_ctrl u' = unit_ctrl u" "io_sq u' = io_sq u" "io_cq u' = io_cq u" "open_count u' = open_count u"
  using assms by (simp_all add: place_of_def)

text \<open>A unit is stored back; \<open>A\<close> is what it accepted.\<close>

lemma put_serving:
  assumes y: "serving e s0 y" "resident y" and st: "stored (base y) k t" and u: "unit_state p t"
    and m: "moves (load_unit (base y) k (mach y)) t
      (A + (setup_held e (page_size (ctrl_st (load_unit (base y) k (mach y)))) (snd (base_units (base y) ! k)) + carried (load_unit (base y) k (mach y))))
      (setup_held e (page_size (ctrl_st t)) (unit_st t) + carried t)"
  defines "y' \<equiv> y\<lparr>base := put_unit k t (base y), mach := t, pcs := (pcs y)(k := p), admitted := admitted y + A\<rparr>"
  shows "sound (base y')" and "units_in_order y'" and "account e s0 y'"
proof -
  show "sound (base y')" using put_sound [OF st] by (simp add: y'_def)
  have "unit_state (((pcs y)(k := p)) j) (load_unit (put_unit k t (base y)) j t)" if "j < length (base_units (base y))" for j
  proof (cases "j = k")
    case True
    have "unit_st (load_unit (put_unit k t (base y)) k t) = unit_st t" using that True by simp
    from unit_state_cong [OF this] show ?thesis using u True by simp
  next
    case False
    then have "unit_st (load_unit (put_unit k t (base y)) j t) = unit_st (load_unit (base y) j (mach y))" by simp
    from unit_state_cong [OF this] show ?thesis using y that False by (simp add: serving_def units_in_order_def)
  qed
  then show "units_in_order y'" by (simp add: units_in_order_def y'_def)
  let ?h = "all_held e (base y) + live e (base y)"
  have a: "moves s0 (mach y) (admitted y + A) (A + ?h)"
    using y moves_frame [of s0 "mach y" "admitted y" ?h A] by (simp add: serving_def account_def add.commute)
  have m': "moves (mach y) t (A + (setup_held e (page_size (ctrl_st (load_unit (base y) k (mach y)))) (snd (base_units (base y) ! k)) +
      carried (load_unit (base y) k (mach y)))) (setup_held e (page_size (ctrl_st t)) (unit_st t) + carried t)"
    using m by (simp add: moves_def)
  show "account e s0 y'" using moves_trans [OF a put_moves [OF st m']] y(2) by (simp add: account_def y'_def)
qed

lemma put_counts:
  assumes "k < length (base_units b)"
  shows "(\<Sum>x\<leftarrow>base_units (put_unit k t b). unat (open_count (snd x))) + unat (open_count (snd (base_units b ! k))) =
    (\<Sum>x\<leftarrow>base_units b. unat (open_count (snd x))) + unat (open_count (unit_st t))"
  using sum_list_update_add [OF assms, of "\<lambda>x. unat (open_count (snd x))" "(fst (base_units b ! k), unit_st t)"] by (simp add: put_units)

lemma put_counted:
  assumes "k < length (base_units b)" and "open_count (unit_st t) = open_count (snd (base_units b ! k))"
  shows "counted (put_unit k t b) = counted b"
  using put_counts [OF assms(1), of t] assms(2) by (simp add: counted_def)

section \<open>Steps of a unit\<close>

lemma unit_state_step:
  assumes u: "unit_state (pc c) (drv_st c)" and st: "step e c c'" and fl: "dma_flags_clear e" and live: "pc c = Gone \<or> pc c' \<noteq> Gone"
  shows "unit_state (pc c') (drv_st c')" and "place_of (unit_st (drv_st c')) = place_of (unit_st (drv_st c))"
proof -
  have w: "wf (drv_st c)" using u by (simp add: unit_state_def rested_def split: if_splits)
  note p = step_post [OF st fl w]
  have b: "bare_of (unit_st (drv_st c')) = bare_of (unit_st (drv_st c))" "wf (drv_st c')" using p by (simp_all add: stepped_def)
  show pl: "place_of (unit_st (drv_st c')) = place_of (unit_st (drv_st c))" by (rule bare_place [OF b(1)])
  show "unit_state (pc c') (drv_st c')"
  proof (cases "open_count (unit_st (drv_st c)) = 0")
    case True
    then have r: "pc c = Gone" "rested (drv_st c)" using u by (simp_all add: unit_state_def)
    have g: "pc c' = Gone" by (rule gone_stays [OF st r(1)])
    have "closed c" using r by (simp add: closed_def rested_def)
    from closed_step [OF st this p] g have "taskless (unit_st (drv_st c'))" by (simp add: closed_def)
    then show ?thesis using True placeD(4) [OF pl] g b(2) bareD(3) [OF b(1)] r(2) by (simp add: unit_state_def rested_def)
  next
    case False
    then have r: "pc c \<noteq> Gone" "arrays_ok (unit_st (drv_st c))" "unit_task (unit_st (drv_st c)) \<noteq> 0" using u by (simp_all add: unit_state_def)
    then have "home_of (unit_st (drv_st c')) = home_of (unit_st (drv_st c))" using live p by (simp add: stepped_def)
    from homeD(2) [OF this] show ?thesis using False placeD(4) [OF pl] live r b bareD(2) [OF b(1)] by (simp add: unit_state_def)
  qed
qed

lemma serving_unit:
  assumes y: "serving e s0 y" "resident y" "k < length (base_units (base y))" and st: "step e (conf k y) c"
    and live: "pcs y k = Gone \<or> pc c \<noteq> Gone" and fl: "dma_flags_clear e"
  shows "serving e s0 (put_back k c y)"
proof -
  let ?l = "load_unit (base y) k (mach y)"
  have l: "drv_st (conf k y) = ?l" "pc (conf k y) = pcs y k" "accepted (conf k y) = admitted y" by (simp_all add: conf_def)
  have u: "unit_state (pc (conf k y)) (drv_st (conf k y))" using y by (simp add: serving_def units_in_order_def l)
  have w: "wf (drv_st (conf k y))" using u by (simp add: unit_state_def rested_def split: if_splits)
  note U = unit_state_step [OF u st fl, unfolded l, OF live]
  note p = step_post [OF st fl w, unfolded stepped_def l]
  obtain R where R: "accepted c = admitted y + R" "conserved ?l (drv_st c) R" using p by blast
  have hw: "same_hw ?l (drv_st c)" using step_hw [OF st] by (simp add: l)
  note pl = placeD [OF U(2)]
  have so: "sound (base y)" using y by (simp add: serving_def)
  have sd: "stored (base y) k (drv_st c)" by (rule storedI [OF y(3) so _ _ _ hw]) (use pl in simp_all)
  have b: "setup_held e (page_size (ctrl_st ?l)) (unit_st (drv_st c)) = setup_held e (page_size (ctrl_st ?l)) (unit_st ?l)"
    by (rule bareD(1)) (use p in blast)
  have m: "moves ?l (drv_st c) (R + (setup_held e (page_size (ctrl_st ?l)) (snd (base_units (base y) ! k)) + carried ?l))
      (setup_held e (page_size (ctrl_st (drv_st c))) (unit_st (drv_st c)) + carried (drv_st c))"
    using moves_frame [OF conserved_moves [OF R(2)], of "setup_held e (page_size (ctrl_st ?l)) (unit_st ?l)"] same_hwD [OF hw] b
    by (simp add: ac_simps)
  note P = put_serving [OF y(1,2) sd U(1) m]
  have "counted (base y)" using y by (simp add: serving_def)
  then have "counted (put_unit k (drv_st c) (base y))" using put_counted [OF y(3), of "drv_st c"] pl(4) by simp
  then show ?thesis using P y(2) R(1) by (simp add: serving_def put_back_def account_def units_in_order_def)
qed

text \<open>Requests and events that acquire nothing do not matter.\<close>

lemma serving_mach:
  assumes "ins (trace s') = ins (trace (mach y))" and "outs (trace s') = outs (trace (mach y))"
  shows "serving e s0 (y\<lparr>mach := s'\<rparr>) = serving e s0 y"
proof -
  have "unit_state p (load_unit b k s') = unit_state p (load_unit b k (mach y))" for p b k by (rule unit_state_cong) simp
  then show ?thesis using assms by (simp add: serving_def account_def moves_def units_in_order_def)
qed

lemma serving_interrupt:
  assumes "serving e s0 y" and "nvme_irq_handler us (load_ctrl c (mach y)) = (claimed, s')"
  shows "serving e s0 (y\<lparr>mach := s'\<rparr>)"
proof -
  have q: "ins (task_signals us) = {#}" "outs (task_signals us) = {#}"
    by (induction us) (auto simp: task_signals_def List.map_filter_def split: option.splits)
  have t: "ins (trace s') = ins (trace (mach y))" "outs (trace s') = outs (trace (mach y))"
    using assms(2) q by (auto simp: nvme_irq_handler_def Let_def signal_units_eq nvme_w32_def log_ev_def split: if_splits)
  show ?thesis using serving_mach [of s' y, OF t] assms(1) by simp
qed

end
