(* ===== verification/Nvme_Serving.thy ===== *)
theory Nvme_Serving
  imports Nvme_Session
begin

text \<open>
  Open, Close and Expunge keep the account of the whole driver (Nvme_Session), and with them
  every sequence of steps from Init on.
\<close>

lemma flags_commute [simp]:
  "put_unit k t (b\<lparr>lib_OpenCnt := m\<rparr>) = (put_unit k t b)\<lparr>lib_OpenCnt := m\<rparr>"
  "load_unit (b\<lparr>lib_OpenCnt := m\<rparr>) = load_unit b" "load_unit (b\<lparr>lib_delexp := d\<rparr>) = load_unit b"
  "counted (b\<lparr>lib_delexp := d\<rparr>) = counted b"
  by (simp_all add: put_unit_def put_ctrl_def load_unit_def Let_def counted_def fun_eq_iff)

lemma flags_same [simp]: "(put_unit k t b)\<lparr>lib_OpenCnt := lib_OpenCnt b\<rparr> = put_unit k t b"
  by (simp add: put_unit_def put_ctrl_def)

section \<open>Open\<close>

lemma open_count_small:
  assumes "counted b" and "k < length (base_units b)"
  shows "unat (open_count (snd (base_units b ! k))) \<le> unat (lib_OpenCnt b)"
proof -
  have "unat (open_count (snd (base_units b ! k))) \<in> set (map (\<lambda>x. unat (open_count (snd x))) (base_units b))"
    using assms(2) by simp
  from member_le_sum_list [OF this] show ?thesis using assms(1) by (simp add: counted_def)
qed

lemma count_succ:
  assumes "counted b" and "k < length (base_units b)"
  shows "unat (open_count (snd (base_units b ! k)) + 1) = unat (open_count (snd (base_units b ! k))) + 1"
proof -
  have "unat (open_count (snd (base_units b ! k))) < 2 ^ LENGTH(16)" by (rule le_less_trans [OF open_count_small [OF assms] unsigned_less])
  then have "unat (open_count (snd (base_units b ! k))) + 1 < 2 ^ 32" by simp
  then show ?thesis by (simp add: unat_word_ariths)
qed

text \<open>What the first Open leaves in the unit, before it is counted.\<close>

lemma first_open_state:
  assumes f: "first_open e l = (True, t)" and u: "unit_state p l"
  defines "v \<equiv> (unit_st t)\<lparr>open_count := open_count (unit_st t) + 1\<rparr>"
  assumes v: "unit_st w = v" "trace w = trace t" "ctrl_st w = ctrl_st t" and nz: "open_count (unit_st l) + 1 \<noteq> 0"
  shows "unit_state (if p = Gone then Top else p) w" and "place_of (unit_st t) = place_of (unit_st l)" and "ctrl_st t = ctrl_st l"
    and "moves l w (setup_held e (page_size (ctrl_st l)) (unit_st l) + carried l) (setup_held e (page_size (ctrl_st w)) (unit_st w) + carried w)"
proof -
  have un: "open_count (unit_st l) = 0 \<Longrightarrow> unstarted (unit_st l)" using u by (simp add: unit_state_def rested_def)
  note F = first_open_result [OF f un]
  show pl: "place_of (unit_st t) = place_of (unit_st l)" by (rule task_core_place [OF F(2)])
  show c: "ctrl_st t = ctrl_st l" by (rule F(3))
  have s: "wf t \<and> arrays_ok (unit_st t) \<and> unit_task (unit_st t) \<noteq> 0 \<and> carried t = carried l"
  proof (cases "open_count (unit_st l) = 0")
    case True
    then have st: "UnitTask_Start e l = (True, t)" and r: "rested l" using f u by (simp_all add: first_open_def unit_state_def)
    note o = UnitTask_Start_outcome [OF st un [OF True]]
    have "port_msgs (unit_st t) = port_msgs (unit_st l)" using o r by (simp add: start_outcome_def rested_def taskless_def)
    moreover have "arrays_ok (unit_st t)" "unit_task (unit_st t) \<noteq> 0" using o unstartedD(1) [OF un [OF True]] by (simp_all add: start_outcome_def filled_def)
    ultimately show ?thesis using start_wf [OF o] r by (simp add: rested_def)
  next
    case False
    then show ?thesis using F(5) u by (simp add: unit_state_def)
  qed
  have w: "carried w = carried t" "wf w = wf t" "setup_held e ps (unit_st w) = setup_held e ps (unit_st t)"
    "arrays_ok (unit_st w) = arrays_ok (unit_st t)" "unit_task (unit_st w) = unit_task (unit_st t)" for ps
    by (simp_all add: carried_def wf_def not_inflight_def slot_of_def v v_def waiting_def unit_ok_def setup_held_def arrays_ok_def)
  have "open_count (unit_st w) \<noteq> 0" using placeD(4) [OF pl] nz by (simp add: v v_def)
  then show "unit_state (if p = Gone then Top else p) w" using s w by (simp add: unit_state_def)
  show "moves l w (setup_held e (page_size (ctrl_st l)) (unit_st l) + carried l) (setup_held e (page_size (ctrl_st w)) (unit_st w) + carried w)"
    using moves_frame [OF F(1), of "carried l"] s w(1,3) v(3) c by (simp add: moves_trace [OF v(2)])
qed

lemma sound_num: "sound b \<Longrightarrow> unat (base_num b) = length (base_units b)"
  unfolding sound_def NVME_MAX_GLOBAL_UNITS_def NVME_MAX_CONTROLLERS_def NVME_MAX_UNITS_PER_CTRL_def by (simp add: unat_of_nat)

lemma open_failD:
  assumes "(ok, b', s') = open_fail req b s"
  shows "\<not> ok" "b' = b\<lparr>lib_OpenCnt := lib_OpenCnt b - 1\<rparr>" "trace s' = trace s"
  using assms by (simp_all add: open_fail_def set_error_def)

lemma serving_flagless:
  assumes "sound (base y')" "units_in_order y'" "account e s0 y'" "resident y'" and "counted (base y'\<lparr>lib_OpenCnt := m\<rparr>)"
  shows "serving e s0 (y'\<lparr>base := base y'\<lparr>lib_OpenCnt := m, lib_delexp := d\<rparr>\<rparr>)"
  using assms by (simp add: serving_def account_def units_in_order_def)

lemma serving_open_fails:
  assumes y: "serving e s0 y" "resident y" and k: "k < length (base_units (base y))"
    and f: "first_open e (load_unit (base y) k (mach y)) = (False, t)" and cl: "unit_setup e (put_unit k t (base y)) k = {#}"
  shows "serving e s0 (y\<lparr>base := put_unit k t (base y), mach := t\<rparr>)"
proof -
  let ?b = "base y" and ?l = "load_unit (base y) k (mach y)"
  have so: "sound ?b" "counted ?b" and u: "unit_state (pcs y k) ?l" using y k by (simp_all add: serving_def units_in_order_def)
  have z: "open_count (unit_st ?l) = 0" using f by (simp add: first_open_def split: if_splits)
  then have r: "pcs y k = Gone" "rested ?l" and st: "UnitTask_Start e ?l = (False, t)" using u f by (simp_all add: unit_state_def first_open_def)
  have un: "unstarted (unit_st ?l)" using r by (simp add: rested_def)
  note o = UnitTask_Start_outcome [OF st un]
  have ct: "ctrl_st t = ctrl_st ?l" and core: "task_core (unit_st t) = task_core (unit_st ?l)" using o by (simp_all add: start_outcome_def)
  note pl = placeD [OF task_core_place [OF core]]
  have sd: "stored ?b k t" by (rule storedI [OF k so(1) _ _ _ same_hw_ctrl [OF ct]]) (use pl in simp_all)
  have "unit_setup e (put_unit k t ?b) k = setup_held e (page_size (ctrl_st t)) (unit_st t)"
    by (rule put_unit_setup [OF k _ seat_there [OF k so(1)]]) (use pl in simp)
  then have h: "setup_held e (page_size (ctrl_st ?l)) (unit_st t) = {#}" using cl ct by simp
  note R = refused_rests [OF r(2) st h]
  have m: "moves ?l t ({#} + (setup_held e (page_size (ctrl_st ?l)) (snd (base_units ?b ! k)) + carried ?l))
      (setup_held e (page_size (ctrl_st t)) (unit_st t) + carried t)"
    using R(2) h ct unstartedD(2) [OF un] by simp
  have "unit_state Gone t" using R(1) pl(4) z by (simp add: unit_state_def)
  note P = put_serving [OF y sd this m]
  have "(pcs y)(k := Gone) = pcs y" using r(1) by (simp add: fun_upd_idem)
  then show ?thesis using P y(2) put_counted [OF k, of t] so(2) pl(4) by (simp add: serving_def account_def units_in_order_def)
qed

lemma serving_open_done:
  assumes y: "serving e s0 y" "resident y" and k: "k < length (base_units (base y))" and nw: "lib_OpenCnt (base y) + 1 \<noteq> 0"
    and f: "first_open e (load_unit (base y) k (mach y)) = (True, t)"
    and w: "unit_st w = (unit_st t)\<lparr>open_count := open_count (unit_st t) + 1\<rparr>" "trace w = trace t" "ctrl_st w = ctrl_st t"
  shows "serving e s0 (y\<lparr>base := (put_unit k w (base y))\<lparr>lib_OpenCnt := lib_OpenCnt (base y) + 1, lib_delexp := False\<rparr>, mach := w,
    pcs := (pcs y)(k := if pcs y k = Gone then Top else pcs y k)\<rparr>)"
proof -
  let ?b = "base y" and ?l = "load_unit (base y) k (mach y)" and ?p = "if pcs y k = Gone then Top else pcs y k"
  have so: "sound ?b" "counted ?b" and u: "unit_state (pcs y k) ?l" using y k by (simp_all add: serving_def units_in_order_def)
  note cs = count_succ [OF so(2) k]
  have nz: "open_count (unit_st ?l) + 1 \<noteq> 0"
  proof
    assume "open_count (unit_st ?l) + 1 = 0"
    then show False using cs by simp
  qed
  note O = first_open_state [OF f u w nz]
  note pl = placeD [OF O(2)]
  have sd: "stored ?b k w" by (rule storedI [OF k so(1) _ _ _ same_hw_ctrl]) (use pl w(3) O(3) in \<open>simp_all add: w(1)\<close>)
  have m: "moves ?l w ({#} + (setup_held e (page_size (ctrl_st ?l)) (snd (base_units ?b ! k)) + carried ?l))
      (setup_held e (page_size (ctrl_st w)) (unit_st w) + carried w)"
    using O(4) by simp
  define y' where "y' = y\<lparr>base := put_unit k w ?b, mach := w, pcs := (pcs y)(k := ?p), admitted := admitted y + {#}\<rparr>"
  note P = put_serving [OF y sd O(1) m, folded y'_def]
  have b': "base y' = put_unit k w ?b" by (simp add: y'_def)
  have "unat (lib_OpenCnt ?b + 1) = unat (lib_OpenCnt ?b) + 1" using nw by (metis Suc_eq_plus1 unatSuc add.commute)
  moreover have "open_count (unit_st w) = open_count (snd (base_units ?b ! k)) + 1" using pl(4) by (simp add: w(1))
  ultimately have "counted (base y'\<lparr>lib_OpenCnt := lib_OpenCnt ?b + 1\<rparr>)"
    using put_counts [OF k, of w] cs so(2) by (simp add: counted_def b')
  from serving_flagless [OF P _ this, of False] y(2)
  have "serving e s0 (y'\<lparr>base := base y'\<lparr>lib_OpenCnt := lib_OpenCnt ?b + 1, lib_delexp := False\<rparr>\<rparr>)" by (simp add: y'_def)
  moreover have "y'\<lparr>base := base y'\<lparr>lib_OpenCnt := lib_OpenCnt ?b + 1, lib_delexp := False\<rparr>\<rparr> =
      y\<lparr>base := (put_unit k w ?b)\<lparr>lib_OpenCnt := lib_OpenCnt ?b + 1, lib_delexp := False\<rparr>, mach := w, pcs := (pcs y)(k := ?p)\<rparr>"
    by (cases y) (simp add: y'_def)
  ultimately show ?thesis by simp
qed

lemma serving_open:
  assumes y: "serving e s0 y" "resident y" and nw: "lib_OpenCnt (base y) + 1 \<noteq> 0"
    and op: "manager_Open e req n (base y) (mach y) = (ok, b', s')"
    and cl: "\<not> ok \<Longrightarrow> unat n < length (base_units b') \<Longrightarrow> unit_setup e b' (unat n) = {#}"
  shows "serving e s0 (y\<lparr>base := b', mach := s', pcs := (pcs y)(unat n := if ok \<and> pcs y (unat n) = Gone then Top else pcs y (unat n))\<rparr>)"
proof -
  let ?b = "base y" and ?k = "unat n" and ?l = "load_unit (base y) (unat n) (mach y)"
  let ?b1 = "?b\<lparr>lib_OpenCnt := lib_OpenCnt ?b + 1\<rparr>"
  have so: "sound ?b" using y by (simp add: serving_def)
  obtain op t where f: "first_open e ?l = (op, t)" by fastforce
  define w where "w = set_error req IO_OK (upd_req req (\<lambda>r. r\<lparr>io_Unit := fst (base_units ?b ! ?k)\<rparr>) (upd_unit (\<lambda>u. u\<lparr>open_count := open_count u + 1\<rparr>) t))"
  have r: "(ok, b', s') = (if n \<ge> base_num ?b \<or> fst (base_units ?b ! ?k) = 0 then open_fail req ?b1 (mach y)
     else if \<not> op then open_fail req (put_unit ?k t ?b1) t else (True, (put_unit ?k w ?b1)\<lparr>lib_delexp := False\<rparr>, w))"
    using op f by (auto simp: manager_Open_alt Let_def w_def split: if_splits)
  have upd: "(pcs y)(?k := pcs y ?k) = pcs y" by simp
  show ?thesis
  proof (cases "n \<ge> base_num ?b \<or> fst (base_units ?b ! ?k) = 0")
    case True
    then have "(ok, b', s') = open_fail req ?b1 (mach y)" using r by simp
    note o = open_failD [OF this]
    have "b' = ?b" using o(2) by simp
    then show ?thesis using serving_mach [of s' y e s0] o(1,3) y(1) upd by simp
  next
    case False
    then have k: "?k < length (base_units ?b)" using sound_num [OF so] by (simp add: word_le_nat_alt)
    show ?thesis
    proof (cases op)
      case True
      then have o: "ok" "b' = (put_unit ?k w ?b)\<lparr>lib_OpenCnt := lib_OpenCnt ?b + 1, lib_delexp := False\<rparr>" "s' = w"
        using r \<open>\<not> (n \<ge> base_num ?b \<or> fst (base_units ?b ! ?k) = 0)\<close> by auto
      have "serving e s0 (y\<lparr>base := (put_unit ?k w ?b)\<lparr>lib_OpenCnt := lib_OpenCnt ?b + 1, lib_delexp := False\<rparr>, mach := w,
          pcs := (pcs y)(?k := if pcs y ?k = Gone then Top else pcs y ?k)\<rparr>)"
        by (rule serving_open_done [OF y k nw f [unfolded True [THEN eqTrueI]]]) (simp_all add: w_def set_error_def)
      then show ?thesis using o by simp
    next
      case op: False
      then have "(ok, b', s') = open_fail req (put_unit ?k t ?b1) t" using r False by simp
      note d = open_failD [OF this]
      have o: "\<not> ok" "b' = put_unit ?k t ?b" "trace s' = trace t" using d by simp_all
      then have "unit_setup e (put_unit ?k t ?b) ?k = {#}" using cl k by simp
      moreover have "first_open e ?l = (False, t)" using f op by simp
      ultimately have "serving e s0 (y\<lparr>base := put_unit ?k t ?b, mach := t\<rparr>)" by (intro serving_open_fails [OF y k])
      then show ?thesis using serving_mach [of s' "y\<lparr>base := put_unit ?k t ?b, mach := t\<rparr>" e s0] o upd by simp
    qed
  qed
qed

section \<open>Expunge\<close>

lemma idle_base:
  assumes "counted b" and "lib_OpenCnt b = 0" and "x \<in> set (base_units b)"
  shows "open_count (snd x) = 0"
proof -
  have "sum_list (map (\<lambda>x. unat (open_count (snd x))) (base_units b)) = 0" using assms(1,2) by (simp add: counted_def)
  then have "\<forall>n\<in>set (map (\<lambda>x. unat (open_count (snd x))) (base_units b)). n = 0" by (simp only: sum_list_eq_0_iff)
  then show ?thesis using assms(3) by (simp add: unat_eq_0)
qed

lemma serving_expunge:
  assumes y: "serving e s0 y" "resident y" and x: "manager_Expunge e run (base y) (mach y) = (gone, b', s')"
  shows "serving e s0 (y\<lparr>base := b', mach := s', resident := \<not> gone, lost := if gone then abandoned (base y) else {#}\<rparr>)"
proof -
  let ?b = "base y"
  have so: "sound ?b" "counted ?b" "units_in_order y" and a: "moves s0 (mach y) (admitted y) (all_held e ?b + live e ?b)"
    using y by (simp_all add: serving_def account_def)
  show ?thesis
  proof (cases "lib_OpenCnt ?b = 0")
    case False
    then have "\<not> gone" "b' = ?b\<lparr>lib_delexp := True\<rparr>" "s' = mach y" using x by (simp_all add: manager_Expunge_def)
    then show ?thesis using so a y(2) by (simp add: serving_def account_def units_in_order_def)
  next
    case True
    have r: "rested (load_unit ?b k (mach y))" if "k < length (base_units ?b)" for k
      using so(3) idle_base [OF so(2) True nth_mem [OF that]] that by (simp add: units_in_order_def unit_state_def)
    have st: "stopped x \<and> unit_live e ?b (snd x) = carried_of (snd x)" if "x \<in> set (base_units ?b)" for x
    proof -
      obtain k where k: "k < length (base_units ?b)" "x = base_units ?b ! k" using \<open>x \<in> set (base_units ?b)\<close> by (auto simp: in_set_conv_nth)
      have "unstarted (snd x)" "unit_task (snd x) = 0" using r [OF k(1)] k(2) by (simp_all add: rested_def taskless_def)
      then show ?thesis using that so(1) unstartedD(2) by (simp add: stopped_def sound_def unit_live_def)
    qed
    then have l: "live e ?b = abandoned ?b" unfolding live_def abandoned_def by (intro arg_cong [where f = sum_list] map_cong) simp_all
    have "base_ok ?b" "bus_ok ?b" using so(1) st by (simp_all add: base_ok_def sound_def)
    note E = Expunge_moves [OF this True x]
    have "moves (mach y) s' (all_held e ?b + live e ?b) (live e ?b)" using moves_frame [OF E(2), of "live e ?b"] by simp
    from moves_trans [OF a this] E(1) l show ?thesis by (simp add: serving_def account_def)
  qed
qed

section \<open>Close\<close>

lemma find_unit_Some:
  assumes "find_unit p b = Some k"
  shows "k < length (base_units b)"
proof -
  have f: "List.find P [0..<n] = Some j \<Longrightarrow> j < n" for P n j by (auto simp: find_Some_iff)
  show ?thesis using assms by (auto simp: find_unit_def split: if_splits dest: f)
qed

text \<open>After the unit is done, the count of the library goes down, and a deferred Expunge happens.\<close>

definition close_rest :: "env \<Rightarrow> (drv \<Rightarrow> drv) \<Rightarrow> NVMeBase \<Rightarrow> drv \<Rightarrow> bool \<times> NVMeBase \<times> drv" where
  "close_rest e run b s = (if lib_OpenCnt b = 0 \<and> lib_delexp b then manager_Expunge e run b s else (False, b, s))"

lemma manager_Close_alt:
  assumes "find_unit (io_Unit (reqs s req)) b = Some k"
  shows "manager_Close e run req b s = (let t = close_unit e run (load_unit b k s) in
    close_rest e run ((put_unit k t b)\<lparr>lib_OpenCnt := lib_OpenCnt b - 1\<rparr>) (upd_req req (\<lambda>r. r\<lparr>io_Unit := NO_UNIT\<rparr>) t))"
  using assms by (simp add: manager_Close_def close_rest_def Let_def)

lemma serving_close_rest:
  assumes y: "serving e s0 y" "resident y" and x: "close_rest e run (base y) s = (gone, b', s')" and s: "trace s = trace (mach y)"
  shows "serving e s0 (y\<lparr>base := b', mach := s', resident := \<not> gone, lost := if gone then abandoned (base y) else {#}\<rparr>)"
proof -
  let ?y = "y\<lparr>mach := s\<rparr>"
  have i: "serving e s0 ?y" "resident ?y" using serving_mach [of s y e s0] y s by simp_all
  show ?thesis
  proof (cases "lib_OpenCnt (base y) = 0 \<and> lib_delexp (base y)")
    case True
    then have "manager_Expunge e run (base ?y) (mach ?y) = (gone, b', s')" using x by (simp add: close_rest_def)
    from serving_expunge [OF i this] show ?thesis by (cases gone) simp_all
  next
    case False
    then have "\<not> gone" "b' = base y" "s' = s" using x by (auto simp: close_rest_def)
    then show ?thesis using i y(2) by (simp add: serving_def account_def units_in_order_def)
  qed
qed

text \<open>One user less, of the unit and of the library.\<close>

lemma counted_down:
  assumes "counted b" and "k < length (base_units b)" and "open_count (snd (base_units b ! k)) \<noteq> 0"
    and "open_count (unit_st t) = open_count (snd (base_units b ! k)) - 1"
  shows "counted ((put_unit k t b)\<lparr>lib_OpenCnt := lib_OpenCnt b - 1\<rparr>)"
proof -
  have "0 < unat (open_count (snd (base_units b ! k)))" using assms(3) by (simp add: unat_gt_0)
  then have "0 < unat (lib_OpenCnt b)" using open_count_small [OF assms(1,2)] by linarith
  then have "lib_OpenCnt b \<noteq> 0" by (simp add: unat_gt_0)
  then have "unat (lib_OpenCnt b - 1) = unat (lib_OpenCnt b) - 1" by (rule unat_minus_one)
  moreover have "unat (open_count (unit_st t)) = unat (open_count (snd (base_units b ! k))) - 1" unfolding assms(4) by (rule unat_minus_one [OF assms(3)])
  ultimately show ?thesis
    using put_counts [OF assms(2), of t] assms(1) \<open>0 < unat (lib_OpenCnt b)\<close> \<open>0 < unat (open_count (snd (base_units b ! k)))\<close>
    by (simp add: counted_def)
qed

lemma serving_close_unit:
  assumes y: "serving e s0 y" "resident y" and st: "stored (base y) k t" and us: "unit_state p t"
    and m: "moves (load_unit (base y) k (mach y)) t
      (A + (setup_held e (page_size (ctrl_st (load_unit (base y) k (mach y)))) (snd (base_units (base y) ! k)) + carried (load_unit (base y) k (mach y))))
      (setup_held e (page_size (ctrl_st t)) (unit_st t) + carried t)"
    and oc: "open_count (snd (base_units (base y) ! k)) \<noteq> 0" "open_count (unit_st t) = open_count (snd (base_units (base y) ! k)) - 1"
    and x: "close_rest e run ((put_unit k t (base y))\<lparr>lib_OpenCnt := lib_OpenCnt (base y) - 1\<rparr>) s = (gone, b', s')" and s: "trace s = trace t"
  shows "serving e s0 (y\<lparr>base := b', mach := s', pcs := (pcs y)(k := p), admitted := admitted y + A, resident := \<not> gone,
      lost := if gone then abandoned (put_unit k t (base y)) else {#}\<rparr>)"
    and "gone \<Longrightarrow> open_count (unit_st t) = 0"
proof -
  let ?b = "base y" and ?n = "lib_OpenCnt (base y) - 1"
  have k: "k < length (base_units ?b)" using st by (simp add: stored_def)
  have cn: "counted ((put_unit k t ?b)\<lparr>lib_OpenCnt := ?n\<rparr>)"
    by (rule counted_down [OF _ k oc]) (use y in \<open>simp add: serving_def\<close>)
  define y' where "y' = y\<lparr>base := put_unit k t ?b, mach := t, pcs := (pcs y)(k := p), admitted := admitted y + A\<rparr>"
  note P = put_serving [OF y st us m, folded y'_def]
  have b': "base y' = put_unit k t ?b" "resident y'" using y(2) by (simp_all add: y'_def)
  define z where "z = y'\<lparr>base := (base y')\<lparr>lib_OpenCnt := ?n, lib_delexp := lib_delexp (base y')\<rparr>\<rparr>"
  have zs: "serving e s0 z" unfolding z_def by (rule serving_flagless [OF P b'(2)]) (use cn b'(1) in simp)
  have zb: "base z = (put_unit k t ?b)\<lparr>lib_OpenCnt := ?n\<rparr>" by (simp add: z_def b'(1))
  have zr: "resident z" "trace s = trace (mach z)" using y(2) s by (simp_all add: z_def y'_def)
  have zx: "close_rest e run (base z) s = (gone, b', s')" using x by (simp add: zb)
  have "serving e s0 (z\<lparr>base := b', mach := s', resident := \<not> gone, lost := if gone then abandoned (base z) else {#}\<rparr>)"
    by (rule serving_close_rest [OF zs zr(1) zx zr(2)])
  moreover have "abandoned (base z) = abandoned (put_unit k t ?b)" by (simp add: zb abandoned_def)
  moreover have "z\<lparr>base := b', mach := s', resident := \<not> gone, lost := q\<rparr> =
      y\<lparr>base := b', mach := s', pcs := (pcs y)(k := p), admitted := admitted y + A, resident := \<not> gone, lost := q\<rparr>" for q
    by (cases y) (simp add: z_def y'_def)
  ultimately show "serving e s0 (y\<lparr>base := b', mach := s', pcs := (pcs y)(k := p), admitted := admitted y + A, resident := \<not> gone,
      lost := if gone then abandoned (put_unit k t (base y)) else {#}\<rparr>)" by (cases gone) simp_all
  assume gone
  then have "lib_OpenCnt (base z) = 0" using zx by (auto simp: close_rest_def manager_Expunge_def split: if_splits)
  then show "open_count (unit_st t) = 0"
    using idle_base [of "base z" "(fst (base_units ?b ! k), unit_st t)"] cn k by (simp add: zb put_units set_update_memI)
qed

lemma serving_close_some:
  assumes y: "serving e s0 y" "resident y" and f: "find_unit (io_Unit (reqs (mach y) req)) (base y) = Some k"
    and n: "1 < open_count (snd (base_units (base y) ! k))" and x: "manager_Close e run req (base y) (mach y) = (gone, b', s')"
  shows "serving e s0 (y\<lparr>base := b', mach := s'\<rparr>)"
proof -
  let ?b = "base y" and ?l = "load_unit (base y) k (mach y)"
  have k: "k < length (base_units ?b)" by (rule find_unit_Some [OF f])
  have so: "sound ?b" and u: "unit_state (pcs y k) ?l" using y k by (simp_all add: serving_def units_in_order_def)
  define t where "t = upd_unit (\<lambda>u. u\<lparr>open_count := open_count u - 1\<rparr>) ?l"
  have nz: "open_count (snd (base_units ?b ! k)) \<noteq> 0" "open_count (snd (base_units ?b ! k)) - 1 \<noteq> 0" using n by auto
  have ct: "close_unit e run ?l = t" using nz by (simp add: close_unit_def t_def Let_def word_gt_0)
  have w: "carried t = carried ?l" "wf t = wf ?l" "setup_held e ps (unit_st t) = setup_held e ps (unit_st ?l)"
    "arrays_ok (unit_st t) = arrays_ok (unit_st ?l)" "unit_task (unit_st t) = unit_task (unit_st ?l)" "ctrl_st t = ctrl_st ?l" "trace t = trace ?l" for ps
    by (simp_all add: t_def carried_def wf_def not_inflight_def slot_of_def waiting_def unit_ok_def setup_held_def arrays_ok_def)
  have us: "unit_state (pcs y k) t" using u nz w by (simp add: unit_state_def) (simp add: t_def)
  have oc: "open_count (unit_st t) = open_count (snd (base_units ?b ! k)) - 1" by (simp add: t_def)
  have sd: "stored ?b k t" by (rule storedI [OF k so(1) _ _ _ same_hw_ctrl [OF w(6)]]) (simp_all add: t_def)
  have m: "moves ?l t ({#} + (setup_held e (page_size (ctrl_st ?l)) (snd (base_units ?b ! k)) + carried ?l))
      (setup_held e (page_size (ctrl_st t)) (unit_st t) + carried t)"
    using w by (simp add: moves_same)
  have cr: "close_rest e run ((put_unit k t ?b)\<lparr>lib_OpenCnt := lib_OpenCnt ?b - 1\<rparr>) (upd_req req (\<lambda>r. r\<lparr>io_Unit := NO_UNIT\<rparr>) t) = (gone, b', s')"
    using x by (simp add: manager_Close_alt [OF f] Let_def ct)
  note C = serving_close_unit [OF y sd us m nz(1) oc cr, simplified]
  have "\<not> gone" using C(2) oc nz(2) by auto
  then show ?thesis using C(1) y(2) by (simp add: serving_def account_def units_in_order_def)
qed

lemma closing_state:
  assumes "unit_state p l" and "open_count (unit_st l) = 1"
  defines "s \<equiv> close_release (upd_unit (\<lambda>u. u\<lparr>open_count := 0\<rparr>) l)"
  shows "p \<noteq> Gone" and "wf s" and "arrays_ok (unit_st s)" and "unit_task (unit_st s) \<noteq> 0" and "same_hw l s"
    and "place_of (unit_st s) = place_of ((unit_st l)\<lparr>open_count := 0\<rparr>)" and "moves l s (R + carried l) (R + carried s)"
    and "setup_held e ps (unit_st s) = setup_held e ps (unit_st l)"
proof -
  let ?m = "upd_unit (\<lambda>u. u\<lparr>open_count := 0\<rparr>) l"
  have u: "p \<noteq> Gone" "wf l" "arrays_ok (unit_st l)" "unit_task (unit_st l) \<noteq> 0" using assms(1,2) by (simp_all add: unit_state_def)
  then show "p \<noteq> Gone" by simp
  have "wf ?m = wf l" "arrays_ok (unit_st ?m) = arrays_ok (unit_st l)" and c: "carried ?m = carried l"
    by (simp_all add: carried_def wf_def not_inflight_def slot_of_def waiting_def unit_ok_def arrays_ok_def)
  with u have w: "carried ?m = carried l" "wf ?m" "arrays_ok (unit_st ?m)" by simp_all
  note q = close_release_quiet [of ?m, folded s_def]
  show "wf s" by (rule quiet_inv(1) [OF q w(2) quiet_not_inflight [OF q]])
  have h: "home_of (unit_st s) = home_of (unit_st ?m)" by (rule same_io_home) (use q in \<open>simp add: quiet_def\<close>)
  then have b: "bare_of (unit_st s) = bare_of (unit_st ?m)" by (simp add: bare_of_def)
  show "arrays_ok (unit_st s)" using bareD(2) [OF b] w(3) by simp
  show "unit_task (unit_st s) \<noteq> 0" using homeD(2) [OF h] u(4) by simp
  show "same_hw l s" by (simp add: s_def close_release_def)
  show "place_of (unit_st s) = place_of ((unit_st l)\<lparr>open_count := 0\<rparr>)" using bare_place [OF b] by simp
  have "setup_held e ps (unit_st ?m) = setup_held e ps (unit_st l)" by (simp add: setup_held_def)
  then show "setup_held e ps (unit_st s) = setup_held e ps (unit_st l)" using bareD(1) [OF b] by simp
  have "conserved ?m s {#}" using q by (simp add: quiet_def)
  from moves_frame [OF conserved_moves [OF this], of R] show "moves l s (R + carried l) (R + carried s)"
    using w(1) by (simp add: moves_def ac_simps)
qed

lemma serving_close_last:
  assumes y: "serving e s0 y" "resident y" and f: "find_unit (io_Unit (reqs (mach y) req)) (base y) = Some k"
    and n: "open_count (snd (base_units (base y) ! k)) = 1" and sig: "0 \<le> e_AllocSignal e (trace (closing k y))"
    and run: "(step e)\<^sup>*\<^sup>* ((conf k y)\<lparr>drv_st := asked e (closing k y)\<rparr>) c" and gone: "pc c = Gone" and fl: "dma_flags_clear e"
    and x: "manager_Close e (\<lambda>_. drv_st c) req (base y) (mach y) = (ok, b', s')"
  shows "serving e s0 (y\<lparr>base := b', mach := s', pcs := (pcs y)(k := Gone), admitted := accepted c, resident := \<not> ok,
       lost := if ok then abandoned (put_unit k (UnitTask_Shutdown e (\<lambda>_. drv_st c) (closing k y)) (base y)) else {#}\<rparr>)"
proof -
  let ?b = "base y" and ?l = "load_unit (base y) k (mach y)" and ?s = "closing k y"
  define t where "t = UnitTask_Shutdown e (\<lambda>_. drv_st c) ?s"
  have k: "k < length (base_units ?b)" by (rule find_unit_Some [OF f])
  have so: "sound ?b" and u: "unit_state (pcs y k) ?l" using y k by (simp_all add: serving_def units_in_order_def)
  have "open_count (unit_st ?l) = 1" using n by simp
  note S = closing_state [OF u this, folded closing_def [of k y]]
  let ?c = "(conf k y)\<lparr>drv_st := asked e ?s\<rparr>"
  have c0: "drv_st ?c = asked e ?s" "pc ?c \<noteq> Gone" "accepted ?c = admitted y" using S(1) by (simp_all add: conf_def)
  note E = end_rests [OF S(2-4) sig fl run c0(1,2) gone, unfolded c0(3), folded t_def]
  obtain R where R: "accepted c = admitted y + R"
    "moves ?s t (R + (setup_held e (page_size (ctrl_st ?s)) (unit_st ?s) + carried ?s)) (carried t)" using E(4) by blast
  have hw: "same_hw ?l t" by (rule same_hw_trans [OF S(5) E(2)])
  have pl: "place_of (unit_st t) = place_of ((unit_st ?l)\<lparr>open_count := 0\<rparr>)" using E(3) S(6) by simp
  note pd = placeD [OF pl, simplified]
  have sd: "stored ?b k t" by (rule storedI [OF k so _ _ _ hw]) (use pd in simp_all)
  have us: "unit_state Gone t" using E(1) pd(4) by (simp add: unit_state_def)
  have un: "setup_held e ps (unit_st t) = {#}" for ps using E(1) unstartedD(2) by (auto simp: rested_def)
  let ?H = "setup_held e (page_size (ctrl_st ?l)) (unit_st ?l)"
  have h: "setup_held e (page_size (ctrl_st ?s)) (unit_st ?s) = ?H" using S(8) same_hwD [OF S(5)] by simp
  have "moves ?l ?s ((R + ?H) + carried ?l) ((R + ?H) + carried ?s)" by (rule S(7))
  from moves_trans [OF this] R(2) have "moves ?l t (R + (?H + carried ?l)) (carried t)" unfolding h by (simp only: add.assoc)
  then have m: "moves ?l t (R + (setup_held e (page_size (ctrl_st ?l)) (snd (base_units ?b ! k)) + carried ?l))
      (setup_held e (page_size (ctrl_st t)) (unit_st t) + carried t)"
    by (simp add: un)
  have oc: "open_count (snd (base_units ?b ! k)) \<noteq> 0" "open_count (unit_st t) = open_count (snd (base_units ?b ! k)) - 1"
    using n pd(4) by simp_all
  have ct: "close_unit e (\<lambda>_. drv_st c) ?l = t" using n by (simp add: close_unit_def t_def closing_def Let_def upd_unit_def)
  have "close_rest e (\<lambda>_. drv_st c) ((put_unit k t ?b)\<lparr>lib_OpenCnt := lib_OpenCnt ?b - 1\<rparr>) (upd_req req (\<lambda>r. r\<lparr>io_Unit := NO_UNIT\<rparr>) t) = (ok, b', s')"
    using x by (simp add: manager_Close_alt [OF f] Let_def ct)
  from serving_close_unit(1) [OF y sd us m oc this] show ?thesis by (cases ok) (simp_all add: R(1) t_def)
qed

section \<open>From Init on\<close>

lemma online_rested:
  assumes "online (unit_st s)"
  shows "rested s"
proof -
  have o: "unstarted (unit_st s)" "unit_ok (unit_st s)" "waiting (unit_st s) = []" "unit_task (unit_st s) = 0" "io_port (unit_st s) = 0"
    using assms by (simp_all add: online_def)
  then show ?thesis by (simp add: rested_def wf_def taskless_def waiting_def)
qed

lemma online_carries:
  assumes "online u"
  shows "carried_of u = {#}"
proof -
  have "held_slots fs = {#}" if "\<forall>f\<in>set fs. slot_ok f \<and> inf_ioreq f = 0" for fs
    using that by (induction fs) (simp_all add: held_slots_def)
  then show ?thesis using assms by (simp add: online_def carried_of_def unit_ok_def)
qed

lemma serving_start:
  assumes i: "manager_Init e b0 s0 = (True, b, s)" and "dma_never_refused e" and "cleared_base b0" and "lib_OpenCnt b0 = 0"
  shows "serving e s0 (after_Init b s)"
proof -
  have r: "tables [] b" "bus_ok b" "lib_OpenCnt b = 0" "moves s0 s {#} (all_held e b)"
    using manager_Init_result [OF i assms(2,3)] assms(4) by (simp_all add: load_outcome_def)
  have o: "online (snd x)" if "x \<in> set (base_units b)" for x
    using r(1) that by (auto simp: tables_def in_set_conv_nth)
  have st: "open_count (snd x) = 0 \<and> unit_live e b (snd x) = {#}" if "x \<in> set (base_units b)" for x
  proof -
    have "unstarted (snd x)" "open_count (snd x) = 0" using o [OF that] by (simp_all add: online_def)
    then show ?thesis using online_carries [OF o [OF that]] unstartedD(2) by (simp add: unit_live_def)
  qed
  have l: "live e b = {#}"
  proof -
    have "live e b = (\<Sum>x\<leftarrow>base_units b. {#})" unfolding live_def by (intro arg_cong [where f = sum_list] map_cong) (simp_all add: st)
    then show ?thesis by simp
  qed
  have c: "(\<Sum>x\<leftarrow>base_units b. unat (open_count (snd x))) = 0"
  proof -
    have "(\<Sum>x\<leftarrow>base_units b. unat (open_count (snd x))) = (\<Sum>x\<leftarrow>base_units b. 0)"
      by (intro arg_cong [where f = sum_list] map_cong) (simp_all add: st)
    then show ?thesis by simp
  qed
  have "unit_state Gone (load_unit b k s)" if "k < length (base_units b)" for k
  proof -
    have x: "online (snd (base_units b ! k))" "open_count (snd (base_units b ! k)) = 0" using o st nth_mem [OF that] by blast+
    then have "rested (load_unit b k s)" by (intro online_rested) simp
    then show ?thesis using x by (simp add: unit_state_def)
  qed
  moreover have "sound b" using r by (auto simp: sound_def tables_def base_ok_def stopped_def)
  ultimately show ?thesis
    using r(3,4) l c by (simp add: serving_def account_def units_in_order_def counted_def after_Init_def)
qed

lemma serving_step:
  assumes "sys_step e y y'" and "serving e s0 y" and fl: "dma_flags_clear e"
  shows "serving e s0 y'"
  using assms(1)
proof cases
  case (unit_step k c)
  then show ?thesis using serving_unit [OF assms(2) _ _ _ _ fl] by blast
next
  case (interrupt i us claimed s')
  then show ?thesis using serving_interrupt [OF assms(2)] by blast
next
  case (open_unit req n ok b' s')
  show ?thesis unfolding open_unit(1) by (rule serving_open [OF assms(2) open_unit(2,3,4,5)])
next
  case (close_some req k gone b' s')
  show ?thesis unfolding close_some(1) by (rule serving_close_some [OF assms(2) close_some(2-5)])
next
  case (close_last req k c gone b' s')
  show ?thesis unfolding close_last(1) by (rule serving_close_last [OF assms(2) close_last(2-7) fl close_last(8)])
next
  case (expunge gone b' s')
  show ?thesis unfolding expunge(1) by (rule serving_expunge [OF assms(2) expunge(2,3)])
qed

lemma serving_run: "(sys_step e)\<^sup>*\<^sup>* y y' \<Longrightarrow> serving e s0 y \<Longrightarrow> dma_flags_clear e \<Longrightarrow> serving e s0 y'"
  by (induction rule: rtranclp_induct) (auto intro: serving_step)

end
