(* ===== verification/Nvme_Setup_Props.thy ===== *)
theory Nvme_Setup_Props
  imports Nvme_Lifetime Nvme_Example
begin

text \<open>
  Properties of the set-up: bring-up and cleanup of a controller, the interrupt server, start
  and shutdown of the unit task, and the life of the driver as a library.
\<close>

section \<open>A controller that comes up\<close>

text \<open>
  The environment of the witnesses: 64 queue entries, a controller that is ready at once, and
  a device that answers every admin command with success; its Identify data, read as a list,
  names one namespace, and read as a namespace gives it one block.
\<close>

definition boot_env :: env where
  "boot_env = demo_env\<lparr>
     e_mmio := (\<lambda>tr a. if a = 0xF0000000 then 0x3F else if a = 0xF0000008 then 0x10400 else if a = 0xF000001C then 1 else 0),
     e_device := (\<lambda>tr m. m\<lparr>acq_mem := (\<lambda>i. if i mod 16 = 14 then 1 else 0),
       id_mem := (\<lambda>i. if i = 0 then 1 else 0)\<rparr>)\<rparr>"

definition cold_ctrl :: NVMeController where
  "cold_ctrl = demo_ctrl\<lparr>admin_sq := 0, admin_cq := 0, identify_buf := 0\<rparr>"

definition cold_drv :: drv where
  "cold_drv = demo_drv\<lparr>ctrl_st := cold_ctrl\<rparr>"


lemma cold_fresh [simp]: "fresh_ctrl cold_ctrl"
  by (simp add: fresh_ctrl_def cold_ctrl_def demo_ctrl_def)




text \<open>Every stage succeeds in this environment, as long as the registers are where they were.\<close>

definition ring_at :: "nat \<Rightarrow> drv \<Rightarrow> bool" where
  "ring_at n s \<longleftrightarrow> admin_cq_head (ctrl_st s) = of_nat n \<and> admin_cq_phase (ctrl_st s) = 1"





lemma boot_fields [simp]:
  "e_AllocVec boot_env tr n = 0x600000" "e_StartDMA boot_env tr b n fl = 1" "e_AllocDMAEntry boot_env tr k = 0x5000"
  "e_mmio boot_env tr a = (if a = 0xF0000000 then 0x3F else if a = 0xF0000008 then 0x10400 else if a = 0xF000001C then 1 else 0)"
  "e_device boot_env tr m = m\<lparr>acq_mem := (\<lambda>i. if i mod 16 = 14 then 1 else 0), id_mem := (\<lambda>i. if i = 0 then 1 else 0)\<rparr>"
  by (simp_all add: boot_env_def demo_env_def)










section \<open>Interrupts\<close>

text \<open>
  C20. The interrupt server claims an interrupt exactly if some unit of its controller has a
  completion entry to harvest; then it masks the controller and signals every unit task that
  waits, in order, and otherwise it touches no register. Every call is counted once as claimed or
  as not ours.
\<close>

theorem irq_claims_exactly:
  assumes "nvme_irq_handler us s = (claimed, s')"
  shows "(claimed \<longleftrightarrow> (\<exists>u cq. Some (u, cq) \<in> set us \<and> io_cq u \<noteq> 0 \<and>
       NVME_CQE_PHASE (cqe_status cq (unat (io_cq_head u))) = ucast (io_cq_phase u))) \<and>
     s' = s\<lparr>isr_count := isr_count s + 1, isr_claimed := isr_claimed s + (if claimed then 1 else 0),
       isr_not_ours := isr_not_ours s + (if claimed then 0 else 1),
       trace := trace s @ (if claimed then EvW32 (iobase (ctrl_st s) + NVME_REG_INTMS) 1 # task_signals us else [])\<rparr>"
proof -
  have "claimed = isr_scan us" using assms by (auto simp: nvme_irq_handler_def Let_def split: if_splits)
  moreover have "isr_scan us = (\<exists>u cq. Some (u, cq) \<in> set us \<and> io_cq u \<noteq> 0 \<and>
       NVME_CQE_PHASE (cqe_status cq (unat (io_cq_head u))) = ucast (io_cq_phase u))"
    unfolding isr_scan_iff isr_peek_def ..
  moreover have "s' = s\<lparr>isr_count := isr_count s + 1, isr_claimed := isr_claimed s + (if isr_scan us then 1 else 0),
       isr_not_ours := isr_not_ours s + (if isr_scan us then 0 else 1),
       trace := trace s @ (if isr_scan us then EvW32 (iobase (ctrl_st s) + NVME_REG_INTMS) 1 # task_signals us else [])\<rparr>"
    using assms by (cases "isr_scan us") (auto simp: nvme_irq_handler_def Let_def signal_units_eq nvme_w32_def log_ev_def)
  ultimately show ?thesis by blast
qed

theorem irq_claims_exactly_witness:
  "\<not> fst (nvme_irq_handler [Some (demo_unit, \<lambda>_. 0), None] demo_drv) \<and>
   fst (nvme_irq_handler [None, Some (demo_unit, \<lambda>_. 1)] demo_drv)"
proof -
  have p: "NVME_CQE_PHASE (cqe_status (\<lambda>_. 0) i) = 0" "NVME_CQE_PHASE (cqe_status (\<lambda>_. 1) i) = 1" for i
    by (simp_all add: NVME_CQE_PHASE_def cqe_status_def cqe_dw3_def dma_r32_def)
  obtain c s' d s'' where r: "nvme_irq_handler [Some (demo_unit, \<lambda>_. 0), None] demo_drv = (c, s')"
    "nvme_irq_handler [None, Some (demo_unit, \<lambda>_. 1)] demo_drv = (d, s'')" by (meson surj_pair)
  show ?thesis
    using irq_claims_exactly [OF r(1)] irq_claims_exactly [OF r(2)] r p by (simp add: demo_unit_def)
qed

section \<open>The unit task\<close>

text \<open>
  C15. The start of a unit's task, on a unit that goes online or was closed: whatever the start
  acquired is named by the unit. If it succeeds, the task has its port and every slot its two
  buffers, and the system is in the initial state from which the invariants of all reachable
  states are proved; if it fails, everything has been released, except when the new task got
  no port or signal, which leaves every buffer allocated.
\<close>

theorem start_reaches_boot:
  assumes "unstarted (unit_st s)" and "unit_ok (unit_st s)" and "\<forall>f\<in>set (inflight (unit_st s)). inf_ioreq f = 0"
    and "changeint_req (unit_st s) = 0" and "remove_req (unit_st s) = 0" and "UnitTask_Start e s = (ok, s')"
  shows "moves s s' {#} (setup_held e (page_size (ctrl_st s)) (unit_st s')) \<and>
    (if ok then boot (s'\<lparr>trace := []\<rparr>) \<and> io_port (unit_st s') \<noteq> 0 \<and> io_wait_task (unit_st s') = unit_task (unit_st s') \<and>
       unit_task (unit_st s') \<noteq> 0 \<and> filled NVME_MAX_INFLIGHT (unit_st s')
     else setup_held e (page_size (ctrl_st s)) (unit_st s') = {#} \<or>
       unit_task (unit_st s') = 0 \<and> io_port (unit_st s') = 0 \<and> filled NVME_MAX_INFLIGHT (unit_st s'))"
proof -
  have o: "start_outcome e (page_size (ctrl_st s)) s ok s'" by (rule UnitTask_Start_outcome [OF assms(6,1)])
  then have c: "task_core (unit_st s') = task_core (unit_st s)" unfolding start_outcome_def by blast
  note d = task_coreD [OF c]
  have "unit_ok (unit_st s')" using assms(2) by (simp add: unit_ok_def d)
  moreover have "waiting (unit_st s') = port_msgs (unit_st s')" using assms(4,5) by (simp add: waiting_def d)
  ultimately show ?thesis
    using o assms(3) unstartedD(2) [OF assms(1), of e "page_size (ctrl_st s)"]
    by (auto simp: start_outcome_def boot_def d)
qed

definition closed_drv :: drv where
  "closed_drv = demo_drv\<lparr>unit_st := new_unit 0 1 0 demo_ctrl\<rparr>"

lemma closed_unit:
  "unstarted (unit_st closed_drv)" "unit_ok (unit_st closed_drv)" "\<forall>f\<in>set (inflight (unit_st closed_drv)). inf_ioreq f = 0"
  "changeint_req (unit_st closed_drv) = 0" "remove_req (unit_st closed_drv) = 0"
  by (simp_all add: closed_drv_def new_unit_def zero_unit_def unstarted_def unit_ok_def slot_ok_def zero_slot_def occupied_def
      zero_stats_def demo_ctrl_def NVME_MAX_INFLIGHT_def)

lemma demo_grants: "grants_memory demo_env" "grants_task demo_env" "e_AllocPort demo_env tr \<noteq> 0"
  by (simp_all add: grants_memory_def grants_task_def demo_env_def)

theorem start_reaches_boot_witness:
  "\<exists>s'. UnitTask_Start demo_env closed_drv = (True, s') \<and> boot (s'\<lparr>trace := []\<rparr>)"
proof -
  obtain s' where r: "UnitTask_Start demo_env closed_drv = (True, s')"
    using UnitTask_Start_succeeds [OF demo_grants(1,2), of closed_drv] demo_grants(3) by (metis prod.collapse)
  show ?thesis using start_reaches_boot [OF closed_unit r] r by simp
qed

text \<open>The leak of the exception is real.\<close>

lemma start_leaks_buffers:
  "\<exists>s'. UnitTask_Start (demo_env\<lparr>e_AllocPort := (\<lambda>_. 0)\<rparr>) closed_drv = (False, s') \<and>
    setup_held (demo_env\<lparr>e_AllocPort := (\<lambda>_. 0)\<rparr>) (page_size (ctrl_st closed_drv)) (unit_st s') \<noteq> {#}"
  by (rule portless_start_leaks [OF _ _ _ closed_unit(1)])
    (use demo_grants in \<open>simp_all add: grants_memory_def grants_task_def\<close>)

text \<open>
  C19. The shutdown of the unit task. \<open>run\<close> is any behaviour of the task, the clients and the
  device between the request and the end of the task. If the caller gets a signal bit, all the
  buffers, mappings and entry arrays that the unit holds when the task is gone are released,
  exactly once, and the unit names none of them any more; without a bit the caller only waits and
  releases nothing.
\<close>

theorem shutdown_releases:
  assumes "unit_task (unit_st s) \<noteq> 0" and "arrays_ok (unit_st (run (asked e s)))"
  shows "if e_AllocSignal e (trace s) < 0 then UnitTask_Shutdown e run s = run (asked e s)
    else moves (run (asked e s)) (UnitTask_Shutdown e run s)
        (setup_held e (page_size (ctrl_st (run (asked e s)))) (unit_st (run (asked e s)))) {#} \<and>
      setup_held e (page_size (ctrl_st (run (asked e s)))) (unit_st (UnitTask_Shutdown e run s)) = {#}"
  by (rule UnitTask_Shutdown_result [of s run e, OF assms])

theorem shutdown_releases_witness:
  "setup_held demo_env 4096 (unit_st (UnitTask_Shutdown demo_env task_exit demo_drv)) = {#}"
proof -
  have "unit_task (unit_st demo_drv) \<noteq> 0" by (simp add: demo_drv_def demo_unit_def)
  moreover have "arrays_ok (unit_st (task_exit (asked demo_env demo_drv)))"
    by (simp add: task_exit_def asked_def Let_def arrays_ok_def) (simp add: demo_drv_def demo_unit_def NVME_MAX_INFLIGHT_def)
  moreover have "page_size (ctrl_st (task_exit (asked demo_env demo_drv))) = 4096"
    by (simp add: task_exit_def asked_def Let_def)
  moreover have "\<not> e_AllocSignal demo_env (trace demo_drv) < 0" by (simp add: demo_env_def)
  ultimately show ?thesis using shutdown_releases [of demo_drv task_exit demo_env] by simp
qed

section \<open>The library\<close>

text \<open>One controller with one namespace comes up in the environment of the witnesses.\<close>

lemma ring_at_steps [simp]:
  "ring_at n (log_ev ev s) = ring_at n s" "ring_at n (upd_unit f s) = ring_at n s" "ring_at n (upd_ram g s) = ring_at n s"
  by (simp_all add: ring_at_def)




definition cold_base :: NVMeBase where
  "cold_base = \<lparr>ExpansionBase = 0, IPCI = 0, UtilityBase = 0, IUtility = 0, platform = NVME_PLATFORM_UNKNOWN,
     controllers = [], spare = replicate 4 (cold_ctrl\<lparr>pciDevice := 0, bar0 := 0\<rparr>, []), base_units = [], base_num = 0,
     lib_OpenCnt = 0, lib_delexp = False\<rparr>"

lemma cold_cleared: "cleared_base cold_base"
  by (simp add: cleared_base_def cold_base_def vacant_def cold_ctrl_def demo_ctrl_def fresh_ctrl_def NVME_MAX_CONTROLLERS_def)



lemma boot_bus [simp]:
  "e_OpenLibrary boot_env tr n v = 0xD000" "e_GetInterface boot_env tr l n = 0xE000" "e_FindBridge boot_env tr = 0"
  "e_FindClass boot_env tr c m k = (if k = 0 then 0xC000 else 0)" "e_GetResourceRange boot_env tr d = 0xC800"
  "e_range boot_env r = \<lparr>BaseAddress = 0xF0000000, Physical = 0xF0000000, range_Size = 0x4000, range_Flags = 1\<rparr>"
  by (simp_all add: boot_env_def demo_env_def)

lemma boot_probe: "\<exists>s'. probe_slot boot_env 0xC000 n s = (True, s') \<and> iobase (ctrl_st s') = 0xF0000000"
proof -
  have v: "valid_cap 0x3F" "valid_version 0x10400"
    by (simp_all add: valid_cap_def valid_version_def NVME_CAP_MQES_def)
  have p: "\<exists>cap t. NVMe_MMIOProbe boot_env 0xF0000000 u = (True, cap, t) \<and> ctrl_st t = ctrl_st u" for u
  proof -
    obtain ok cap t where r: "NVMe_MMIOProbe boot_env 0xF0000000 u = (ok, cap, t)" by (cases "NVMe_MMIOProbe boot_env 0xF0000000 u")
    then show ?thesis using MMIOProbe_result(3) [OF r] only_traceD(2) [OF MMIOProbe_result(1) [OF r]] v by (simp add: nvme_defs)
  qed
  define u where "u = NVMe_MMU_SetupBAR boot_env 0xC800 (upd_ctrl (\<lambda>c. c\<lparr>iobase := 0xF0000000\<rparr>)
    (upd_ctrl (\<lambda>c. c\<lparr>bar0 := 0xC800\<rparr>) (log_ev (EvGetRange 0xC000 0xC800) (repair_bar boot_env 0xC000 (enable_device boot_env 0xC000
      (snd (ReadConfig boot_env 0xC000 (k_PCI_DEVICE_ID boot_env) (snd (ReadConfig boot_env 0xC000 (k_PCI_VENDOR_ID boot_env)
        (upd_ctrl (\<lambda>c. c\<lparr>ctrl_idx := n, pciDevice := 0xC000\<rparr>) s))))))))))"
  obtain cap t where t: "NVMe_MMIOProbe boot_env 0xF0000000 u = (True, cap, t)" "ctrl_st t = ctrl_st u" using p by blast
  have "iobase (ctrl_st u) = 0xF0000000" by (simp add: u_def only_traceD(2) [OF MMU_SetupBAR_kept(1)])
  moreover have "probe_slot boot_env 0xC000 n s = (True, t)"
    using t(1) by (simp add: probe_slot_def Let_def u_def NVME_BAR0_MIN_SIZE_def)
  ultimately show ?thesis using t(2) by simp
qed

lemma boot_search:
  assumes "controllers b = []" and "spare b \<noteq> []" and "snd (hd (spare b)) = []"
  shows "\<exists>c b' s'. DiscoverNVMe boot_env b s = (True, b', s') \<and> controllers b' = [(c, [])] \<and> iobase c = 0xF0000000 \<and>
    base_num b' = base_num b \<and> lib_OpenCnt b' = lib_OpenCnt b \<and> base_units b' = base_units b"
proof -
  obtain c us where h: "hd (spare b) = (c, us)" by fastforce
  obtain p s1 where p: "NVMe_PlatformDetect boot_env (IPCI b) s = (p, s1)" by fastforce
  define s2 where "s2 = load_ctrl c (log_ev (EvFindDevice 0xC000) s1)"
  obtain s3 where t: "probe_slot boot_env 0xC000 0 s2 = (True, s3)" "iobase (ctrl_st s3) = 0xF0000000" using boot_probe by blast
  have ix: "[0..<NVME_MAX_CONTROLLERS] = [0, 1, 2, 3]" by (simp add: NVME_MAX_CONTROLLERS_def upt_rec)
  have "\<exists>b' s'. DiscoverNVMe boot_env b s = (True, b', s') \<and> controllers b' = [(ctrl_st s3, [])] \<and>
    base_num b' = base_num b \<and> lib_OpenCnt b' = lib_OpenCnt b \<and> base_units b' = base_units b"
    using assms h t(1) by (simp add: DiscoverNVMe_def p ix Let_def flip: s2_def)
  then show ?thesis using t(2) by blast
qed


text \<open>
  C17. The search for the controllers. Whatever is on the bus, at most four controllers are
  recorded, and the search succeeds exactly if there is one. Each has its device and its register
  range, of unknown size or at least 8 KiB, a register base at which CAP and the version register
  read like those of a controller, the index of its place, and is ready for its bring-up; and
  exactly these devices and ranges are held: every other one has been given back.
\<close>

theorem controllers_found:
  assumes "cleared_base b" and "DiscoverNVMe e b s = (ok, b', s')"
  shows "(ok \<longleftrightarrow> controllers b' \<noteq> []) \<and> length (controllers b') \<le> NVME_MAX_CONTROLLERS \<and> moves s s' {#} (pcis_held b') \<and>
     (\<forall>i<length (controllers b'). case controllers b' ! i of (c, us) \<Rightarrow>
        ctrl_idx c = of_nat i \<and> us = [] \<and> pciDevice c \<noteq> 0 \<and> bar0 c \<noteq> 0 \<and> fresh_ctrl c \<and> \<not> irq_installed c \<and>
        (range_Size (e_range e (bar0 c)) = 0 \<or> 0x2000 \<le> range_Size (e_range e (bar0 c))) \<and>
        (\<exists>tr. valid_cap (e_mmio e tr (iobase c + NVME_REG_CAP_LO))) \<and> (\<exists>tr. valid_version (e_mmio e tr (iobase c + NVME_REG_VS))))"
proof -
  have c: "controllers b = []" "\<forall>x\<in>set (spare b). vacant x" "length (spare b) = NVME_MAX_CONTROLLERS"
    using assms(1) by (simp_all add: cleared_base_def)
  note D = DiscoverNVMe_result [OF assms(2) c]
  have "pending i (d, us) \<and> located e d" if "i < length (controllers b')" "controllers b' ! i = (d, us)" for i d us
    using D(1) that unfolding searched_def by (metis fst_conv)
  then show ?thesis
    using D(2-4) by (fastforce simp: pending_def located_def answers_def NVME_BAR0_MIN_SIZE_def split: prod.splits)
qed

theorem controllers_found_witness:
  "\<exists>b' s'. DiscoverNVMe boot_env cold_base cold_drv = (True, b', s') \<and> controllers b' \<noteq> [] \<and> ctrl_idx (fst (controllers b' ! 0)) = 0"
proof -
  have "controllers cold_base = []" "spare cold_base \<noteq> []" "snd (hd (spare cold_base)) = []"
    by (simp_all add: cold_base_def numeral_eq_Suc)
  from boot_search [OF this, of cold_drv] obtain b' s' where d: "DiscoverNVMe boot_env cold_base cold_drv = (True, b', s')" by blast
  note f = controllers_found [OF cold_cleared d]
  then have "ctrl_idx (fst (controllers b' ! 0)) = of_nat 0" by (cases "controllers b' ! 0") fastforce
  then show ?thesis using f d by auto
qed





text \<open>
  C21. Opening a unit. An Open succeeds only for a unit of the table; it then counts one more user
  of the unit and of the device, calls off a pending Expunge, and gives the request its unit and
  no error, the first one with a running task. A failed Open leaves all counts as they were
  and poisons the request. Either way what the start of the task acquired is named by the unit.
\<close>

theorem open_contract:
  assumes "manager_Open e req n b s = (ok, b', s')" and "unat (base_num b) = length (base_units b)"
    and "\<forall>x\<in>set (base_units b). (open_count (snd x) = 0 \<longrightarrow> unstarted (snd x)) \<and> unat (unit_ctrl (snd x)) < length (controllers b)"
  shows "(if ok then unat n < length (base_units b) \<and> lib_OpenCnt b' = lib_OpenCnt b + 1 \<and> \<not> lib_delexp b' \<and>
        io_Error (reqs s' req) = IO_OK \<and> io_Unit (reqs s' req) = fst (base_units b ! unat n) \<and>
        open_count (snd (base_units b' ! unat n)) = open_count (snd (base_units b ! unat n)) + 1 \<and>
        (open_count (snd (base_units b ! unat n)) = 0 \<longrightarrow> unit_task (snd (base_units b' ! unat n)) \<noteq> 0)
      else lib_OpenCnt b' = lib_OpenCnt b \<and> lib_delexp b' = lib_delexp b \<and>
        io_Error (reqs s' req) = IOERR_OPENFAIL \<and> io_Unit (reqs s' req) = NO_UNIT \<and>
        (\<forall>k<length (base_units b). open_count (snd (base_units b' ! k)) = open_count (snd (base_units b ! k)))) \<and>
     (unat n < length (base_units b) \<longrightarrow> moves s s' (unit_setup e b (unat n)) (unit_setup e b' (unat n)))"
proof -
  define b1 where "b1 = b\<lparr>lib_OpenCnt := lib_OpenCnt b + 1\<rparr>"
  define k where "k = unat n"
  obtain op t where f: "first_open e (load_unit b k s) = (op, t)" by fastforce
  define u where "u = upd_unit (\<lambda>u. u\<lparr>open_count := open_count u + 1\<rparr>) t"
  define v where "v = set_error req IO_OK (upd_req req (\<lambda>r. r\<lparr>io_Unit := fst (base_units b ! k)\<rparr>) u)"
  have r: "(ok, b', s') = (if n \<ge> base_num b \<or> fst (base_units b ! k) = 0 then open_fail req b1 s
     else if \<not> op then open_fail req (put_unit k t b1) t else (True, (put_unit k v b1)\<lparr>lib_delexp := False\<rparr>, v))"
    using assms(1) f [unfolded k_def] by (auto simp: manager_Open_alt Let_def b1_def k_def u_def v_def split: if_splits)
  have b1: "base_units b1 = base_units b" "controllers b1 = controllers b" "lib_OpenCnt b1 = lib_OpenCnt b + 1" "lib_delexp b1 = lib_delexp b"
    by (simp_all add: b1_def)
  have of: "(a, c', z) = open_fail req c x \<Longrightarrow> a = False \<and> c' = c\<lparr>lib_OpenCnt := lib_OpenCnt c - 1\<rparr> \<and> z = snd (snd (open_fail req c x))"
    "io_Error (reqs (snd (snd (open_fail req c x))) req) = IOERR_OPENFAIL" "io_Unit (reqs (snd (snd (open_fail req c x))) req) = NO_UNIT"
    "moves y (snd (snd (open_fail req c x))) R A = moves y x R A" for a c' z c x y R A
    by (simp_all add: open_fail_def set_error_def moves_def)
  show ?thesis
  proof (cases "n \<ge> base_num b \<or> fst (base_units b ! k) = 0")
    case True
    then have "(ok, b', s') = open_fail req b1 s" using r by simp
    from of(1) [OF this] have "ok = False" "b' = b1\<lparr>lib_OpenCnt := lib_OpenCnt b1 - 1\<rparr>" "s' = snd (snd (open_fail req b1 s))"
      by simp_all
    then show ?thesis using of b1 by (simp add: unit_setup_def)
  next
    case False
    then have k: "k < length (base_units b)" using assms(2) by (simp add: k_def word_le_nat_alt)
    let ?w = "snd (base_units b ! k)"
    have w: "open_count ?w = 0 \<Longrightarrow> unstarted ?w" "unat (unit_ctrl ?w) < length (controllers b)" using assms(3) k by simp_all
    have lw: "open_count (unit_st (load_unit b k s)) = 0 \<Longrightarrow> unstarted (unit_st (load_unit b k s))" using w(1) by simp
    note F = first_open_result [OF f lw]
    note d = task_coreD [OF F(2)]
    have pu: "unit_setup e (put_unit k x b1) k = setup_held e (page_size (ctrl_st x)) (unit_st x)"
      if "unit_ctrl (unit_st x) = unit_ctrl ?w" for x
      using put_unit_setup [of k b1 x e] that w(2) k b1 by simp
    have sb: "unit_setup e b k = setup_held e (page_size (fst (controllers b ! unat (unit_ctrl ?w)))) ?w"
      by (simp add: unit_setup_def Let_def)
    have st: "unit_setup e (c\<lparr>lib_OpenCnt := m\<rparr>) j = unit_setup e c j" "unit_setup e (c\<lparr>lib_delexp := x\<rparr>) j = unit_setup e c j" for c m x j
      by (simp_all add: unit_setup_def)
    have ct: "ctrl_st t = fst (controllers b ! unat (unit_ctrl ?w))" using F(3) by (simp add: load_ctrl_st)
    have m: "moves s t (unit_setup e b k) (setup_held e (page_size (ctrl_st t)) (unit_st t))"
      using F(1) by (simp add: sb ct load_ctrl_st moves_def)
    have cnt: "open_count (unit_st t) = open_count ?w" "unit_ctrl (unit_st t) = unit_ctrl ?w" using d(8,9) by simp_all
    show ?thesis
    proof (cases op)
      case False
      with \<open>\<not> (n \<ge> base_num b \<or> fst (base_units b ! k) = 0)\<close> r have "(ok, b', s') = open_fail req (put_unit k t b1) t" by simp
      from of(1) [OF this] have o: "ok = False" "b' = (put_unit k t b1)\<lparr>lib_OpenCnt := lib_OpenCnt (put_unit k t b1) - 1\<rparr>"
        "s' = snd (snd (open_fail req (put_unit k t b1) t))" by simp_all
      have "open_count (snd (base_units b' ! j)) = open_count (snd (base_units b ! j))" if "j < length (base_units b)" for j
        using cnt(1) k b1(1) by (cases "j = k") (simp_all add: o(2))
      moreover have "moves s s' (unit_setup e b k) (unit_setup e b' k)"
        using m pu [OF cnt(2)] by (simp add: o(2,3) of(4) st)
      ultimately show ?thesis using o of(2,3) b1 by (simp flip: k_def)
    next
      case True
      with \<open>\<not> (n \<ge> base_num b \<or> fst (base_units b ! k) = 0)\<close> r
      have o: "ok" "b' = (put_unit k v b1)\<lparr>lib_delexp := False\<rparr>" "s' = v" by auto
      have v: "unit_st v = (unit_st t)\<lparr>open_count := open_count (unit_st t) + 1\<rparr>" "ctrl_st v = ctrl_st t" "trace v = trace t"
        "io_Error (reqs v req) = IO_OK" "io_Unit (reqs v req) = fst (base_units b ! k)"
        by (simp_all add: v_def u_def set_error_def)
      have "setup_held e (page_size (ctrl_st v)) (unit_st v) = setup_held e (page_size (ctrl_st t)) (unit_st t)"
        by (simp add: v setup_held_def)
      then have "moves s s' (unit_setup e b k) (unit_setup e b' k)"
        using m pu [of v] cnt(2) v by (simp add: o(2,3) st moves_trace [OF v(3)])
      moreover have "open_count ?w = 0 \<longrightarrow> unit_task (unit_st v) \<noteq> 0" using F(6) True v(1) by simp
      ultimately show ?thesis using o v cnt(1) b1 k by (simp flip: k_def)
    qed
  qed
qed

definition open_base :: NVMeBase where
  "open_base = \<lparr>ExpansionBase = 0xD000, IPCI = 0xE000, UtilityBase = 0xD000, IUtility = 0xE000, platform = NVME_PLATFORM_UNKNOWN,
     controllers = [(demo_ctrl, [0x600000])], spare = [], base_units = [(0x600000, new_unit 0 1 0 demo_ctrl)], base_num = 1,
     lib_OpenCnt = 0, lib_delexp = True\<rparr>"

lemma demo_opens: "fst (manager_Open demo_env demo_req 0 open_base demo_drv)"
proof -
  obtain t where "UnitTask_Start demo_env (load_unit open_base 0 demo_drv) = (True, t)"
    using UnitTask_Start_succeeds [OF demo_grants(1,2)] demo_grants(3) by (metis prod.collapse)
  then have "\<exists>t. first_open demo_env (load_unit open_base 0 demo_drv) = (True, t)" by (simp add: first_open_def)
  then show ?thesis by (auto simp: manager_Open_alt Let_def) (auto simp: open_base_def)
qed

theorem open_contract_witness:
  "lib_OpenCnt (fst (snd (manager_Open demo_env demo_req 0 open_base demo_drv))) = 1 \<and>
   \<not> lib_delexp (fst (snd (manager_Open demo_env demo_req 0 open_base demo_drv)))"
proof -
  obtain b' s' where r: "manager_Open demo_env demo_req 0 open_base demo_drv = (True, b', s')"
    using demo_opens by (cases "manager_Open demo_env demo_req 0 open_base demo_drv") simp
  have u: "unstarted (new_unit 0 1 0 demo_ctrl)" "unit_ctrl (new_unit 0 1 0 demo_ctrl) = 0"
    using closed_unit(1) by (simp_all add: closed_drv_def new_unit_def demo_ctrl_def)
  have "unat (base_num open_base) = length (base_units open_base)" by (simp add: open_base_def)
  from open_contract [OF r this] u show ?thesis by (simp add: r) (simp add: open_base_def)
qed

end
