(* ===== verification/Nvme_Life_Props.thy ===== *)
theory Nvme_Life_Props
  imports Nvme_Lives Nvme_Setup_Props
begin

text \<open>The property of the whole history of a unit, with its witness: one life that answers a request.\<close>








end
