(* ===== verification/Nvme_Data.thy ===== *)
theory Nvme_Data
  imports Nvme_Transfer_Props
begin

text \<open>
  The user's data on the way through the driver (src/src/nvme/nvme_io.c). A transfer that
  uses the bounce buffer of its slot is copied by the CPU: into the buffer when a write is
  submitted, before its entry reaches the queue, and out of it when a read completes with
  success. The copies are \<open>CopyMem\<close> of exec, a parameter of the model; what is shown is
  which copies the driver makes, between which buffers, and that it makes no other. The
  properties assume of \<open>CopyMem\<close> what exec documents, \<open>copymem_ok\<close>.
\<close>

section \<open>What each step does to the buffers\<close>

text \<open>
  What exec documents of \<open>CopyMem\<close>: the first \<open>n\<close> bytes of the target are those of the
  source, and every other byte stays.
\<close>

definition copymem_ok :: "env \<Rightarrow> bool" where
  "copymem_ok e \<longleftrightarrow>
     (\<forall>m a n b i. e_CopyMem_in e m a n b i = (if i < unat n then m (a + of_nat i) else b i)) \<and>
     (\<forall>b m a n x. e_CopyMem_out e b m a n x = (if unat (x - a) < unat n then b (unat (x - a)) else m x))"

lemma copymem_out:
  "copymem_ok e \<Longrightarrow> e_CopyMem_out e b m a n x = (if unat (x - a) < unat n then b (unat (x - a)) else m x)"
  unfolding copymem_ok_def by blast

text \<open>The bounce buffers after a transfer has been submitted in a slot.\<close>

definition bounce_filled :: "env \<Rightarrow> nat \<Rightarrow> bool \<Rightarrow> u32 \<Rightarrow> u32 \<Rightarrow> ram \<Rightarrow> nat \<Rightarrow> buf" where
  "bounce_filled e slot is_write data len m =
     (if is_write then (bounce_mem m)(slot := e_CopyMem_in e (mem m) data len (bounce_mem m slot))
      else bounce_mem m)"

text \<open>The user's memory after a completion of the transfer that a slot describes.\<close>

definition mem_after :: "env \<Rightarrow> nat \<Rightarrow> NVMeInflight \<Rightarrow> ioerr \<Rightarrow> ram \<Rightarrow> cpu_mem" where
  "mem_after e slot f err m =
     (if inf_use_bounce f \<and> \<not> inf_is_write f \<and> err = IO_OK \<and> inf_bounce_user_buf f \<noteq> 0
      then e_CopyMem_out e (bounce_mem m slot) (mem m) (inf_bounce_user_buf f) (inf_bounce_user_len f)
      else mem m)"

lemma submit_bounce_data:
  assumes "submit_bounce e req slot w data len s = (Inr prps, s')" and "slot < length (inflight (unit_st s))"
  shows "mem (ram s') = mem (ram s)" "bounce_mem (ram s') = bounce_filled e slot w data len (ram s)"
    "slot_of s' slot = (slot_of s slot)\<lparr>inf_use_bounce := True, inf_bounce_user_buf := data, inf_bounce_user_len := len\<rparr>"
  using assms
  by (auto simp: submit_bounce_def bounce_filled_def slot_of_def Let_def split: prod.splits prp2.splits if_splits)

lemma submit_direct_data:
  assumes "submit_direct e req slot w data len s = (Inr prps, s')" and "slot < length (inflight (unit_st s))"
  shows "mem (ram s') = mem (ram s)" "bounce_mem (ram s') = bounce_mem (ram s)"
    "inf_use_bounce (slot_of s' slot) = inf_use_bounce (slot_of s slot)"
    "inf_is_write (slot_of s' slot) = inf_is_write (slot_of s slot)"
  using assms
  by (auto simp: submit_direct_def direct_entries_def slot_of_def Let_def
      split: prod.splits prp2.splits if_splits option.splits)

lemma submit_commit_data:
  assumes "slot < length (inflight (unit_st s))"
  shows "mem (ram (submit_commit e w slot len prps lba nlb s)) = mem (ram s)"
    "bounce_mem (ram (submit_commit e w slot len prps lba nlb s)) = bounce_mem (ram s)"
    "inf_use_bounce (slot_of (submit_commit e w slot len prps lba nlb s) slot) = inf_use_bounce (slot_of s slot)"
    "inf_is_write (slot_of (submit_commit e w slot len prps lba nlb s) slot) = inf_is_write (slot_of s slot)"
    "inf_bounce_user_buf (slot_of (submit_commit e w slot len prps lba nlb s) slot) = inf_bounce_user_buf (slot_of s slot)"
    "inf_bounce_user_len (slot_of (submit_commit e w slot len prps lba nlb s) slot) = inf_bounce_user_len (slot_of s slot)"
  using assms
  by (simp_all add: submit_commit_def put_sqe_def stamp_ticks_def advance_tail_def slot_of_def Let_def)

lemma release_dma_ram: "ram (release_dma slot s) = ram s"
  by (simp add: release_dma_def Let_def)

lemma harvest_complete_mem:
  "mem (ram (harvest_complete e slot st s)) =
   mem_after e slot (slot_of s slot) (NVMe_StatusToIOErr st) (ram s)"
  "bounce_mem (ram (harvest_complete e slot st s)) = bounce_mem (ram s)"
  by (simp_all add: harvest_complete_def harvest_cleanup_def mem_after_def release_dma_ram slot_of_def Let_def)

text \<open>The bytes of the user's memory that a completion of a slot may write.\<close>

definition read_target :: "NVMeInflight \<Rightarrow> u32 \<Rightarrow> bool" where
  "read_target f x \<longleftrightarrow> inf_ioreq f \<noteq> 0 \<and> inf_use_bounce f \<and> \<not> inf_is_write f \<and>
     unat (x - inf_bounce_user_buf f) < unat (inf_bounce_user_len f)"

section \<open>The path of the data\<close>

lemma submit_ok_data:
  "submit_check u r = Inr b \<Longrightarrow> io_Data r \<noteq> 0"
  by (auto simp: submit_check_def Let_def split: if_splits)

lemma submit_slot_data:
  assumes ok: "unit_ok (unit_st s)" and free: "find_free_slot s = Some slot"
    and res: "NVMeIO_SubmitNoRing e req w s = (0, s')"
  defines "r \<equiv> reqs s req"
  defines "bounce \<equiv> should_use_bounce (io_Length r) (io_Data r) (page_size (ctrl_st s))"
  shows "io_Data r \<noteq> 0" "mem (ram s') = mem (ram s)" "inf_use_bounce (slot_of s' slot) = bounce"
    "inf_is_write (slot_of s' slot) = w"
    "bounce_mem (ram s') = (if bounce then bounce_filled e slot w (io_Data r) (io_Length r) (ram s) else bounce_mem (ram s))"
    "bounce \<Longrightarrow> inf_bounce_user_buf (slot_of s' slot) = io_Data r \<and> inf_bounce_user_len (slot_of s' slot) = io_Length r"
proof -
  note f = find_free_slot_Some [OF ok free]
  define s1 where "s1 = reserve_slot slot req w s"
  have one: "ram s1 = ram s" "ctrl_st s1 = ctrl_st s" "slot < length (inflight (unit_st s1))"
      "inf_use_bounce (slot_of s1 slot) = False" "inf_is_write (slot_of s1 slot) = w"
    using f by (simp_all add: s1_def reserve_slot_def slot_of_def)
  obtain lba nlb where c: "submit_check (unit_st s) r = Inr (lba, nlb)"
    using res free by (auto simp: NVMeIO_SubmitNoRing_def r_def submit_check_def Let_def split: if_splits)
  show "io_Data r \<noteq> 0" by (rule submit_ok_data [OF c])
  have step: "\<exists>prps s2. (if bounce then submit_bounce else submit_direct) e req slot w (io_Data r) (io_Length r) s1 = (Inr prps, s2) \<and>
      s' = submit_commit e w slot (io_Length r) prps lba nlb s2"
    using res free c path_codes [of e req slot w "io_Data r" "io_Length r" s1] one
    by (auto simp: NVMeIO_SubmitNoRing_def Let_def r_def [symmetric] s1_def [symmetric] bounce_def
        split: prod.splits sum.splits if_splits)
  then obtain prps s2 where p: "(if bounce then submit_bounce else submit_direct) e req slot w (io_Data r) (io_Length r) s1 = (Inr prps, s2)"
      and s': "s' = submit_commit e w slot (io_Length r) prps lba nlb s2" by blast
  have l: "slot < length (inflight (unit_st s2))"
    using p one(3) by (cases bounce)
      (auto simp: submit_bounce_def submit_direct_def direct_entries_def Let_def
        split: prod.splits prp2.splits if_splits option.splits)
  note b = submit_bounce_data [OF _ one(3)] and d = submit_direct_data [OF _ one(3)] and k = submit_commit_data [OF l]
  show "mem (ram s') = mem (ram s)" "inf_use_bounce (slot_of s' slot) = bounce" "inf_is_write (slot_of s' slot) = w"
    "bounce_mem (ram s') = (if bounce then bounce_filled e slot w (io_Data r) (io_Length r) (ram s) else bounce_mem (ram s))"
    using p b [of e req w "io_Data r" "io_Length r" prps s2] d [of e req w "io_Data r" "io_Length r" prps s2] one
    by (cases bounce; simp add: s' k)+
  show "inf_bounce_user_buf (slot_of s' slot) = io_Data r \<and> inf_bounce_user_len (slot_of s' slot) = io_Length r" if bounce
    using that p b [of e req w "io_Data r" "io_Length r" prps s2] by (simp add: s' k)
qed

text \<open>
  C10. The data of a transfer. Under the documented behaviour of \<open>CopyMem\<close>, an accepted
  submission leaves the user's memory alone; a write through the bounce buffer has put
  exactly the user's bytes into the buffer of its slot and touched no other buffer. When
  the slot is completed, in whatever state that happens, a read that went through the
  buffer and succeeded has its bytes at the address and over the length the request had at
  submission, and no other byte of memory changes; a failed read, a write and a direct
  transfer change nothing. The copies stay inside the 64 KiB of the bounce buffer.
\<close>

theorem transfer_carries_data:
  assumes "unit_ok (unit_st s)" and "find_free_slot s = Some slot" and copy: "copymem_ok e"
    and "NVMeIO_SubmitNoRing e req w s = (0, s')"
  shows "let data = io_Data (reqs s req); len = io_Length (reqs s req);
         bounce = should_use_bounce len data (page_size (ctrl_st s)) in
     (bounce \<longrightarrow> unat len \<le> unat NVME_BOUNCE_SIZE) \<and> mem (ram s') = mem (ram s) \<and>
     (\<forall>j i. bounce_mem (ram s') j i =
        (if bounce \<and> w \<and> j = slot \<and> i < unat len then mem (ram s) (data + of_nat i) else bounce_mem (ram s) j i)) \<and>
     (\<forall>t st x. slot_of t slot = slot_of s' slot \<longrightarrow>
        mem (ram (harvest_complete e slot st t)) x =
          (if bounce \<and> \<not> w \<and> NVMe_StatusToIOErr st = IO_OK \<and> unat (x - data) < unat len
           then bounce_mem (ram t) slot (unat (x - data)) else mem (ram t) x))"
proof -
  note d = submit_slot_data [OF assms(1,2,4)]
  have "unat (io_Length (reqs s req)) \<le> unat NVME_BOUNCE_SIZE"
    if "should_use_bounce (io_Length (reqs s req)) (io_Data (reqs s req)) (page_size (ctrl_st s))"
    using that by (auto simp: should_use_bounce_def word_le_nat_alt [symmetric] split: if_splits)
  then show ?thesis
    using d copy unfolding Let_def
    by (auto simp: harvest_complete_mem mem_after_def bounce_filled_def copymem_ok_def)
qed

definition copy_env :: env where
  "copy_env = demo_env\<lparr>
     e_CopyMem_in := \<lambda>m a n b i. if i < unat n then m (a + of_nat i) else b i,
     e_CopyMem_out := \<lambda>b m a n x. if unat (x - a) < unat n then b (unat (x - a)) else m x\<rparr>"

lemma copy_env_ok: "copymem_ok copy_env"
  by (simp add: copymem_ok_def copy_env_def)

theorem transfer_carries_data_witness:
  "\<exists>t. mem (ram t) 0x20000003 = 0 \<and> mem (ram (harvest_complete copy_env 0 0 t)) 0x20000003 = 7 \<and>
     mem (ram (harvest_complete copy_env 0 0 t)) 0x20000200 = 0"
proof -
  obtain s' where r: "NVMeIO_SubmitNoRing copy_env demo_req False demo_drv = (0, s')"
    using demo_submit_any [of copy_env False] by (metis prod.collapse)
  define t where "t = upd_ram (\<lambda>m. m\<lparr>bounce_mem := \<lambda>_ _. 7\<rparr>) s'"
  have t: "slot_of t 0 = slot_of s' 0" "bounce_mem (ram t) 0 i = 7" "mem (ram t) = mem (ram s')" for i
    by (simp_all add: t_def slot_of_def)
  have b: "should_use_bounce 0x200 0x20000000 4096" by (simp add: should_use_bounce_def nvme_defs)
  have z: "mem (ram demo_drv) x = 0" for x by (simp add: demo_drv_def)
  have ok: "NVMe_StatusToIOErr 0 = IO_OK" by (simp add: NVMe_StatusToIOErr_def sct_of_def sc_of_def)
  from transfer_carries_data [OF demo_ok demo_free copy_env_ok r] have
    "mem (ram s') = mem (ram demo_drv)"
    "mem (ram (harvest_complete copy_env 0 0 t)) x =
       (if unat (x - 0x20000000) < 512 then 7 else mem (ram t) x)" for x
    using t b ok by (simp_all add: Let_def)
  then show ?thesis using t z by (intro exI [of _ t]) simp
qed

section \<open>What a drain may write\<close>

lemma harvest_complete_confined:
  assumes "copymem_ok e" and "inf_ioreq (slot_of s i) \<noteq> 0"
    and "mem (ram (harvest_complete e i st s)) x \<noteq> mem (ram s) x"
  shows "read_target (slot_of s i) x"
  using assms by (auto simp: harvest_complete_mem mem_after_def read_target_def copymem_out split: if_splits)

lemma harvest_entry_confined:
  assumes "copymem_ok e" and "mem (ram (harvest_entry e s)) x \<noteq> mem (ram s) x"
  shows "\<exists>i<NVME_MAX_INFLIGHT. read_target (slot_of s i) x"
proof (cases "cid_slot (cq_cid s) (advance_cq s)")
  case None
  with assms show ?thesis by (simp add: harvest_entry_def Let_def)
next
  case (Some i)
  note c = cid_slot_Some [OF Some]
  show ?thesis
    using harvest_complete_confined [OF assms(1) c(2), of "cq_status s" x] assms(2) Some c(1)
    by (auto simp: harvest_entry_def Let_def)
qed

lemma harvest_drain_confined:
  assumes "copymem_ok e" and "unit_ok (unit_st s)" and "mem (ram (harvest_drain e s)) x \<noteq> mem (ram s) x"
  shows "\<exists>i<NVME_MAX_INFLIGHT. read_target (slot_of s i) x"
  using assms
proof (induction e s rule: harvest_drain.induct)
  case (1 e s)
  let ?t = "harvest_entry e s"
  have k: "io_kept s ?t" by (rule harvest_entry_kept [OF "1.prems"(2)])
  show ?case
  proof (cases "mem (ram ?t) x = mem (ram s) x")
    case False
    then show ?thesis by (rule harvest_entry_confined [OF "1.prems"(1)])
  next
    case True
    then have r: "queue_depth (unit_st s) \<noteq> 0 \<and> cq_ready s" "mem (ram (harvest_drain e ?t)) x \<noteq> mem (ram ?t) x"
      using "1.prems"(3) by (subst (asm) harvest_drain.simps, simp split: if_splits)+
    have "unit_ok (unit_st ?t)" using k by (simp add: io_kept_def)
    from "1.IH" [OF r(1) "1.prems"(1) this r(2)] obtain i where i: "i < NVME_MAX_INFLIGHT" "read_target (slot_of ?t i) x"
      by blast
    then have "slot_of ?t i = slot_of s i"
      using k by (intro cleared_empty) (auto simp: io_kept_def read_target_def)
    with i show ?thesis by auto
  qed
qed

text \<open>
  C11. The confinement of a harvest: whatever the device writes into the completion queue
  and the bounce buffers, a harvest changes a byte of the user's memory only if it lies in
  the buffer of a read that was outstanding in a slot when the harvest began.
\<close>

theorem harvest_writes_confined:
  assumes ok: "unit_ok (unit_st s)" and copy: "copymem_ok e"
    and free: "\<forall>i<NVME_MAX_INFLIGHT. \<not> read_target (slot_of s i) x"
  shows "mem (ram (NVMeIO_Harvest e s)) x = mem (e_device e (trace s) (ram s)) x"
proof (rule ccontr)
  assume "mem (ram (NVMeIO_Harvest e s)) x \<noteq> mem (e_device e (trace s) (ram s)) x"
  then show False
    using harvest_drain_confined [OF copy, of "upd_ram (e_device e (trace s)) s" x] ok free
    by (auto simp: NVMeIO_Harvest_def slot_of_def)
qed

theorem harvest_writes_confined_witness:
  "\<exists>s'. read_target (slot_of s' 0) 0x200001FF \<and>
     mem (ram (NVMeIO_Harvest copy_env s')) 0x20000200 = mem (e_device copy_env (trace s') (ram s')) 0x20000200"
proof -
  obtain s' where r: "NVMeIO_SubmitNoRing copy_env demo_req False demo_drv = (0, s')"
    using demo_submit_any [of copy_env False] by (metis prod.collapse)
  have fl: "dma_flags_clear copy_env" using demo_flags by (simp add: copy_env_def dma_flags_clear_def)
  have b: "should_use_bounce 0x200 0x20000000 4096" by (simp add: should_use_bounce_def nvme_defs)
  note d = submit_slot_data [OF demo_ok demo_free r]
  note k = SubmitNoRing_ledger(1) [OF demo_ok demo_req_nonzero fl r]
  have o: "inf_ioreq (slot_of s' 0) = demo_req \<and> (\<forall>i<NVME_MAX_INFLIGHT. i \<noteq> 0 \<longrightarrow> slot_of s' i = free_slot)"
    using demo_ok demo_req_nonzero fl r
  proof (cases rule: SubmitNoRing_cases)
    case (submitted slot lba nlb prps f evs)
    have "slot = 0" using submitted(1) by simp
    then show ?thesis
      using submitted(4,11) find_free_slot_Some [OF demo_ok demo_free] demo_slot by (auto simp: slot_of_def)
  qed simp_all
  have z: "read_target (slot_of s' 0) x \<longleftrightarrow> unat (x - 0x20000000) < 512" for x
    using o d(3,4,6) b by (simp add: read_target_def)
  have "\<not> read_target (slot_of s' i) 0x20000200" if "i < NVME_MAX_INFLIGHT" for i
  proof (cases "i = 0")
    case True
    then show ?thesis by (simp add: z)
  next
    case False
    with o that have "slot_of s' i = free_slot" by blast
    then show ?thesis by (simp add: read_target_def free_slot_def)
  qed
  then have free: "\<forall>i<NVME_MAX_INFLIGHT. \<not> read_target (slot_of s' i) 0x20000200" by blast
  show ?thesis
    using harvest_writes_confined [OF k copy_env_ok free] by (intro exI [of _ s'] conjI) (simp_all add: z)
qed

end
