(* ===== verification/Nvme_Layout.thy ===== *)
theory Nvme_Layout
  imports Nvme_Admin
begin

text \<open>
  The structures that the driver shares with the controller (src/include/nvme.h) as C lays them
  out: each member at the next multiple of its alignment, the whole padded to its alignment. The
  operations address them by byte offset; the lemmas at the end show that these are the offsets of
  the members.
\<close>

section \<open>The layout of a structure\<close>

datatype ctype = UBYTE | UWORD | ULONG | UINT64 | Array ctype nat | Struct members
  and members = End | Member string ctype members

definition align_to :: "nat \<Rightarrow> nat \<Rightarrow> nat" where
  "align_to a n = (n + a - 1) div a * a"

primrec align_of :: "ctype \<Rightarrow> nat" and align_members :: "members \<Rightarrow> nat" where
  "align_of UBYTE = 1"
| "align_of UWORD = 2"
| "align_of ULONG = 4"
| "align_of UINT64 = 8"
| "align_of (Array t n) = align_of t"
| "align_of (Struct ms) = align_members ms"
| "align_members End = 1"
| "align_members (Member x t ms) = max (align_of t) (align_members ms)"

primrec size_of :: "ctype \<Rightarrow> nat" and end_of :: "members \<Rightarrow> nat \<Rightarrow> nat" where
  "size_of UBYTE = 1"
| "size_of UWORD = 2"
| "size_of ULONG = 4"
| "size_of UINT64 = 8"
| "size_of (Array t n) = n * size_of t"
| "size_of (Struct ms) = align_to (align_members ms) (end_of ms 0)"
| "end_of End off = off"
| "end_of (Member x t ms) off = end_of ms (align_to (align_of t) off + size_of t)"

primrec offset_in :: "members \<Rightarrow> nat \<Rightarrow> string \<Rightarrow> nat option" where
  "offset_in End off y = None"
| "offset_in (Member x t ms) off y =
     (let here = align_to (align_of t) off in if x = y then Some here else offset_in ms (here + size_of t) y)"

definition offset_of :: "members \<Rightarrow> string \<Rightarrow> nat" where
  "offset_of ms y = the (offset_in ms 0 y)"

fun members_of :: "(string \<times> ctype) list \<Rightarrow> members" where
  "members_of [] = End"
| "members_of ((x, t) # xs) = Member x t (members_of xs)"

section \<open>The structures\<close>

definition nvme_cqe :: members where
  "nvme_cqe = members_of [(''cdw0'', ULONG), (''cdw1'', ULONG), (''sq_head'', UWORD), (''sq_id'', UWORD), (''cid'', UWORD), (''status'', UWORD)]"

definition nvme_sqe_members :: members where
  "nvme_sqe_members = members_of [(''cdw0'', ULONG), (''nsid'', ULONG), (''cdw2'', ULONG), (''cdw3'', ULONG), (''mptr_lo'', ULONG),
     (''mptr_hi'', ULONG), (''prp1_lo'', ULONG), (''prp1_hi'', ULONG), (''prp2_lo'', ULONG), (''prp2_hi'', ULONG), (''cdw10'', ULONG),
     (''cdw11'', ULONG), (''cdw12'', ULONG), (''cdw13'', ULONG), (''cdw14'', ULONG), (''cdw15'', ULONG)]"

definition nvme_dsm_range :: members where
  "nvme_dsm_range = members_of [(''cattr'', ULONG), (''nlb'', ULONG), (''slba_lo'', ULONG), (''slba_hi'', ULONG)]"

definition nvme_id_ns :: members where
  "nvme_id_ns = members_of [(''nsze'', UINT64), (''ncap'', UINT64), (''nuse'', UINT64), (''nsfeat'', UBYTE), (''nlbaf'', UBYTE), (''flbas'', UBYTE),
     (''mc'', UBYTE), (''dpc'', UBYTE), (''dps'', UBYTE), (''nmic'', UBYTE), (''rescap'', UBYTE), (''fpi'', UBYTE), (''dlfeat'', UBYTE),
     (''nawun'', UWORD), (''nawupf'', UWORD), (''nacwu'', UWORD), (''nabsn'', UWORD), (''nabo'', UWORD), (''nabspf'', UWORD), (''noiob'', UWORD),
     (''nvmcap'', Array UBYTE 16), (''npwg'', UWORD), (''npwa'', UWORD), (''npdg'', UWORD), (''npda'', UWORD), (''nows'', UWORD),
     (''reserved72'', Array UBYTE 18), (''anagrpid'', ULONG), (''reserved96'', Array UBYTE 3), (''nsattr'', UBYTE), (''nvmsetid'', UWORD),
     (''endgid'', UWORD), (''nguid'', Array UBYTE 16), (''eui64'', Array UBYTE 8),
     (''lbaf'', Array (Struct (members_of [(''ds'', ULONG)])) 16), (''reserved192'', Array UBYTE 192), (''vs'', Array UBYTE 3712)]"

definition nvme_id_ctrl :: members where
  "nvme_id_ctrl = members_of [(''vid'', UWORD), (''ssvid'', UWORD), (''sn'', Array UBYTE 20), (''mn'', Array UBYTE 40), (''fr'', Array UBYTE 8),
     (''rab'', UBYTE), (''ieee'', Array UBYTE 3), (''cmic'', UBYTE), (''mdts'', UBYTE), (''cntlid'', UWORD), (''ver'', ULONG), (''rtd3r'', ULONG),
     (''rtd3e'', ULONG), (''oaes'', ULONG), (''ctratt'', ULONG), (''reserved100'', Array UBYTE 156), (''oacs'', UWORD), (''acl'', UBYTE),
     (''aerl'', UBYTE), (''frmw'', UBYTE), (''lpa'', UBYTE), (''elpe'', UBYTE), (''npss'', UBYTE), (''avscc'', UBYTE), (''apsta'', UBYTE),
     (''wctemp'', UWORD), (''cctemp'', UWORD), (''reserved270'', Array UBYTE 3826)]"

section \<open>What the layout gives\<close>

lemmas layout_defs = nvme_cqe_def nvme_sqe_members_def nvme_dsm_range_def nvme_id_ns_def nvme_id_ctrl_def offset_of_def align_to_def

text \<open>The structures have the sizes of the specification, without padding.\<close>

lemma struct_sizes:
  "size_of (Struct nvme_sqe_members) = NVME_SQE_SIZE" "size_of (Struct nvme_cqe) = NVME_CQE_SIZE" "size_of (Struct nvme_dsm_range) = 16"
  "size_of (Struct nvme_id_ns) = 4096" "size_of (Struct nvme_id_ctrl) = 4096"
  by (simp_all add: layout_defs NVME_SQE_SIZE_def NVME_CQE_SIZE_def)

lemma offsets:
  "offset_of nvme_id_ctrl ''sn'' = 4" "offset_of nvme_id_ctrl ''mn'' = 24" "offset_of nvme_id_ctrl ''fr'' = 64" "offset_of nvme_id_ctrl ''mdts'' = 77"
  "offset_of nvme_id_ns ''nsze'' = 0" "offset_of nvme_id_ns ''flbas'' = 26" "offset_of nvme_id_ns ''lbaf'' = 128"
  "offset_of nvme_cqe ''cid'' = 12" "offset_of nvme_cqe ''status'' = 14"
  "offset_of nvme_dsm_range ''cattr'' = 0" "offset_of nvme_dsm_range ''nlb'' = 4" "offset_of nvme_dsm_range ''slba_lo'' = 8"
  "offset_of nvme_dsm_range ''slba_hi'' = 12"
  by (simp_all add: layout_defs)

text \<open>The Identify data is parsed at the members of its structures.\<close>

lemma parse_controller_members:
  "parse_controller b c = c\<lparr>
     model_str := id_string b (offset_of nvme_id_ctrl ''mn'') 40, serial_str := id_string b (offset_of nvme_id_ctrl ''sn'') 20,
     fw_rev_str := id_string b (offset_of nvme_id_ctrl ''fr'') 8,
     max_transfer_bytes := mdts_cap (b (offset_of nvme_id_ctrl ''mdts'')) (page_size c),
     onc_dsm := drop_bit 2 (b 520) AND 1 \<noteq> 0, vwc_present := b 525 AND 1 \<noteq> 0, vwc_enabled := b 525 AND 1 \<noteq> 0\<rparr>"
  by (simp add: parse_controller_def offsets)

lemma parse_namespace_members:
  "total_blocks (parse_namespace b u) = push_bit 32 (ucast (dma_r32 b (offset_of nvme_id_ns ''nsze'' + 4))) OR
     ucast (dma_r32 b (offset_of nvme_id_ns ''nsze''))"
  "block_shift (parse_namespace b u) =
     NVME_LBAF_LBADS (dma_r32 b (offset_of nvme_id_ns ''lbaf'' + unat (b (offset_of nvme_id_ns ''flbas'') AND 0xF) * size_of ULONG))"
  by (simp_all add: parse_namespace_def Let_def offsets)

text \<open>The member \<open>status\<close> is the high half of the little-endian dword that holds both it and \<open>cid\<close>.\<close>

lemma cqe_members:
  "cqe_dw3 b i = dma_r32 b (i * size_of (Struct nvme_cqe) + offset_of nvme_cqe ''cid'')"
  "offset_of nvme_cqe ''status'' = offset_of nvme_cqe ''cid'' + size_of UWORD"
  unfolding struct_sizes(2) cqe_dw3_def offsets by simp_all

end
