(* ===== verification/Nvme_Tables.thy ===== *)
theory Nvme_Tables
  imports Nvme_State
begin

text \<open>
  The static tables of the driver (src/src/device.c): the vectors of its interface, the tags and
  the Resident structure by which exec finds and loads it; and the report of the leak counters of
  the debug build (src/src/nvme_leak.c).
\<close>

section \<open>The interface of the device\<close>

text \<open>The vectors of the interface \<open>__device\<close>, in the order of the table, which ends with \<open>-1\<close>.\<close>

datatype vector = Vec_Obtain | Vec_Release | Vec_NULL | Vec_Open | Vec_Close | Vec_Expunge | Vec_BeginIO | Vec_AbortIO | Vec_End

definition manager_Vectors :: "vector list" where
  "manager_Vectors = [Vec_Obtain, Vec_Release, Vec_NULL, Vec_NULL, Vec_Open, Vec_Close, Vec_Expunge, Vec_NULL, Vec_BeginIO, Vec_AbortIO, Vec_End]"

text \<open>Obtain and Release return the new reference count.\<close>

definition manager_Obtain :: "u32 \<Rightarrow> u32 \<times> u32" where
  "manager_Obtain refs = (let refs' = refs + 1 in (refs', refs'))"

definition manager_Release :: "u32 \<Rightarrow> u32 \<times> u32" where
  "manager_Release refs = (let refs' = refs - 1 in (refs', refs'))"

lemma obtain_release: "snd (manager_Release (snd (manager_Obtain n))) = n" "snd (manager_Obtain (snd (manager_Release n))) = n"
  by (simp_all add: manager_Obtain_def manager_Release_def Let_def)

text \<open>The tags of the interface and of the library; the tag values and the type codes are exec's.\<close>

datatype tag = MIT_Name string | MIT_VectorTable "vector list" | MIT_Version u32 | CLT_DataSize u32 | CLT_Interfaces "tag list option list"
  | CLT_InitFunc | CLT_NoLegacyIFace bool | TAG_END

definition manager_Tags :: "tag list" where
  "manager_Tags = [MIT_Name ''__device'', MIT_VectorTable manager_Vectors, MIT_Version 1, TAG_END]"

text \<open>The array ends with NULL.\<close>

definition devInterfaces :: "tag list option list" where
  "devInterfaces = [Some manager_Tags, None]"

definition dev_init_tags :: "u32 \<Rightarrow> tag list" where
  "dev_init_tags sizeof_NVMeBase = [CLT_DataSize sizeof_NVMeBase, CLT_Interfaces devInterfaces, CLT_InitFunc, CLT_NoLegacyIFace True, TAG_END]"

text \<open>The Resident tag, with the constants of exec/resident.h as parameters.\<close>

record exec_constants =
  RTC_MATCHWORD :: u16
  RTF_NATIVE :: u8
  RTF_COLDSTART :: u8
  RTF_AUTOINIT :: u8
  NT_DEVICE :: u8

record Resident =
  rt_MatchWord :: u16
  rt_MatchTag :: u32
  rt_EndSkip :: u32
  rt_Flags :: u8
  rt_Version :: u8
  rt_Type :: u8
  rt_Pri :: u8
  rt_Name :: string
  rt_IdString :: string
  rt_Init :: "tag list"

definition DEVNAME :: string where "DEVNAME = ''nvme.device''"
definition DEVVER :: u8 where "DEVVER = 1"
definition DEVVERSIONSTRING :: string where "DEVVERSIONSTRING = ''nvme.device 1.68 (2026-06-11)''"

definition verstag :: string where "verstag = CHR 0x00 # ''$VER: '' @ DEVVERSIONSTRING"

definition dev_res :: "exec_constants \<Rightarrow> u32 \<Rightarrow> u32 \<Rightarrow> u32 \<Rightarrow> Resident" where
  "dev_res k sizeof_Resident sizeof_NVMeBase here = \<lparr>rt_MatchWord = RTC_MATCHWORD k, rt_MatchTag = here, rt_EndSkip = here + sizeof_Resident,
     rt_Flags = RTF_NATIVE k OR RTF_COLDSTART k OR RTF_AUTOINIT k, rt_Version = DEVVER, rt_Type = NT_DEVICE k, rt_Pri = 0,
     rt_Name = DEVNAME, rt_IdString = DEVVERSIONSTRING, rt_Init = dev_init_tags sizeof_NVMeBase\<rparr>"

text \<open>The entry point of the file as a command: it fails with a message, and runs no code of the driver.\<close>

definition start_command :: "string \<times> int" where
  "start_command = (DEVNAME @ '' cannot be executed from a shell '' @ [CHR 0xE2, CHR 0x80, CHR 0x94] @
     '' install in SYS:Kickstart/ and reboot.'' @ [CHR 0x0A], 20)"

text \<open>What exec relies on: the table has no vector after its end mark, and every operation of the driver is in it once.\<close>

lemma vectors_complete:
  "last manager_Vectors = Vec_End" "Vec_End \<notin> set (butlast manager_Vectors)" "distinct (filter (\<lambda>v. v \<noteq> Vec_NULL) manager_Vectors)"
  "set manager_Vectors = UNIV"
proof -
  show "set manager_Vectors = UNIV"
  proof (intro equalityI subsetI UNIV_I)
    show "v \<in> set manager_Vectors" for v by (cases v) (simp_all add: manager_Vectors_def)
  qed
qed (simp_all add: manager_Vectors_def)

section \<open>The report of the leak counters\<close>

text \<open>The counters of the debug build, and the report of Expunge: a line per counter, and a last one if any is not zero.\<close>

record leak_counters =
  leak_vec :: "32 word"
  leak_dma :: "32 word"
  leak_dmaentry :: "32 word"
  leak_port :: "32 word"
  leak_signal :: "32 word"
  leak_library :: "32 word"
  leak_interface :: "32 word"
  leak_pcidev :: "32 word"
  leak_resource :: "32 word"
  leak_irq :: "32 word"

definition leak_entries :: "leak_counters \<Rightarrow> (string \<times> 32 word) list" where
  "leak_entries c = [(''AllocVec'', leak_vec c), (''StartDMA'', leak_dma c), (''DMAEntry obj'', leak_dmaentry c), (''MsgPort obj'', leak_port c),
     (''AllocSignal'', leak_signal c), (''OpenLibrary'', leak_library c), (''GetInterface'', leak_interface c), (''PCI device'', leak_pcidev c),
     (''Resource range'', leak_resource c), (''Int server'', leak_irq c)]"

primrec leak_lines :: "(string \<times> 32 word) list \<Rightarrow> bool \<Rightarrow> (string \<times> string \<times> int) list \<times> bool" where
  "leak_lines [] any_leaked = ([], any_leaked)"
| "leak_lines (x # xs) any_leaked =
     (let v = snd x; flag = (if v = 0 then ''   OK'' else '' LEAK'');
          (ls, any_leaked') = leak_lines xs (if v \<noteq> 0 then True else any_leaked)
      in ((flag, fst x, sint v) # ls, any_leaked'))"

definition NVMe_DumpLeakStats :: "leak_counters \<Rightarrow> (string \<times> string \<times> int) list \<times> bool" where
  "NVMe_DumpLeakStats c = leak_lines (leak_entries c) False"

lemma leak_lines_eq:
  "leak_lines xs a = (map (\<lambda>(n, v). (if v = 0 then ''   OK'' else '' LEAK'', n, sint v)) xs, a \<or> (\<exists>x\<in>set xs. snd x \<noteq> 0))"
  by (induction xs arbitrary: a) (auto simp: Let_def split: prod.splits)

lemma leak_report:
  "snd (NVMe_DumpLeakStats c) \<longleftrightarrow> (\<exists>(n, v)\<in>set (leak_entries c). v \<noteq> 0)"
  "length (fst (NVMe_DumpLeakStats c)) = 10"
  by (auto simp: NVMe_DumpLeakStats_def leak_lines_eq leak_entries_def)

end
