(* ===== verification/Spec2Isabelle.thy ===== *)
theory Spec2Isabelle
  imports Nvme_Client_Props Nvme_Session_Props Nvme_Data Nvme_Layout Nvme_Tables
begin

text \<open>
  nvme.device, an AmigaOS 4 driver for NVMe disks, as Isabelle/HOL definitions translated from
  its C sources (src/src and src/include), with the theorems about them.

  The program. A client hands an I/O request to \<open>BeginIO\<close> (src/src/BeginIO.c), which completes
  it on the spot, holds it, or puts it into the message port of its unit, one namespace of a
  controller. The unit task (src/src/unit_task.c) takes the messages, turns reads, writes and
  flushes into submission entries of the unit's queue pair (src/src/nvme/nvme_io.c), emulates
  SCSI commands (src/src/scsi_cmds) and replies. The controller reads the entries after a
  doorbell write, moves the data by DMA and posts completion entries; the harvest consumes
  them and replies the requests. Admin commands (src/src/nvme/nvme_admin.c) go through a queue
  pair of their own and are polled. When the driver is loaded, the controllers are searched on
  the PCI bus (src/src/pci), every controller is reset and
  enabled (src/src/nvme/nvme_init.c), gets an interrupt server (src/src/nvme/nvme_irq.c), and
  its namespaces become units with queues of their own (src/src/unit_discovery.c); the first
  Open of a unit starts its task, the last Close ends it, and Expunge takes everything down.

  The model. C integers are words of their width, so every wrap-around of the code is one of
  the model; structs are records, shared memory is explicit (\<open>ram\<close>), pointers are 32-bit
  addresses with 0 for NULL, errors are values. \<open>drv\<close> is the state the driver's code can
  reach: requests, SCSI blocks, one unit, its controller, memory, and a trace of the effects
  outside the driver (register writes, replies, DMA mappings). What the operating system and
  the device do is a parameter, the record \<open>env\<close> of functions from the trace: whether and how
  StartDMA maps a buffer, allocation, the clock, register reads, and how the device changes
  memory whenever the driver looks at a completion queue. No theorem restricts the device
  beyond its stated assumptions; \<open>dma_flags_clear\<close> says that exec's DMA flag does not use bit
  31, which the driver uses as a mark, and \<open>sg_paged\<close> that the fragments of a DMA list meet at
  page boundaries, as documented for GetDMAList; \<open>copymem_ok\<close> that CopyMem copies; \<open>dma_never_refused\<close>, which only the properties of the bring-up
  assume, that StartDMA grants a mapping (\<open>InitNVMe\<close> ends a mapping that was refused, see
  nvme_init.c:139, so the account of the mappings fails without it).

  The theories, in the order of the imports:
  Nvme_Prelude: words, byte buffers, little-endian dwords, copy loops, rings, bounded polls,
  and the locales \<open>dword_store\<close>, \<open>cq_ring\<close> and \<open>polling\<close>.
  Nvme_Regs (src/include/nvme.h): registers, doorbells, field macros, entries.
  Nvme_Status (src/src/nvme_status.c): status words to io_Error.
  Nvme_State (src/include/nvme_device.h): the records and the elementary effects.
  Nvme_Prp (nvme_io.c): choice of the path, PRP entries and lists, and the abstract addressing
  rule they refine.
  Nvme_Ledger: tokens for requests, pins and entry arrays; the invariant \<open>unit_ok\<close>.
  Nvme_IO (nvme_io.c): submission. Nvme_Harvest (nvme_io.c): completion and synchronous
  commands.
  Nvme_Dispatch (unit_task.c): back-pressure, reads and writes, the split of large transfers;
  locale \<open>submitter\<close>, the contract of a submission routine, with its interpretations.
  Nvme_Admin (nvme_admin.c). Nvme_Scsi (src/src/scsi_cmds: log sense, mode, unmap) and
  Nvme_Scsi_Cmd (ATA pass-through, \<open>handle_scsi_cmd\<close>).
  Nvme_Unit_Task (unit_task.c): \<open>dispatch_ioreq\<close> and the pieces of the event loop.
  Nvme_BeginIO (BeginIO.c, nvme_stats.c, Close.c): the client's entry points and statistics.
  Nvme_System: clients, device and unit task as an inductive step relation, with its invariant.
  Nvme_Resources: allocation and mapping of memory as effects, and \<open>moves\<close>, the account of
  what an operation acquires and releases.
  Nvme_Init (nvme_init.c): bring-up of a controller as a list of stages with one error path,
  locale \<open>staged\<close> for its account, and cleanup. Nvme_Irq (nvme_irq.c): the interrupt server.
  Nvme_Start (unit_task.c): start and shutdown of the unit task and the buffers it pins.
  Nvme_Discovery (unit_discovery.c): namespaces, queue pairs, tables of units.
  Nvme_Pci (pci_discovery.c, platform_detect.c, nvme_mmu.c): the search for the controllers, and
  the base \<open>NVMeBase\<close>. Nvme_Library (Init.c, Open.c, Close.c, Expunge.c): the life cycle over
  the base. Nvme_Lifetime: its account.
  Nvme_Life and Nvme_Lives: the lives of the task of one unit, from start to shutdown, one after
  the other. Nvme_Session: the whole driver from Init to Expunge, all units with their tasks, the
  clients, the devices and the interrupts, as one transition system (\<open>sys_step\<close>), and its
  invariant; Nvme_Serving: Open, Close and Expunge keep it.
  Nvme_Layout (src/include/nvme.h): the shared structures as C lays them out. Nvme_Tables
  (src/src/device.c, src/src/nvme_leak.c): the static tables and the report of the leak counters.
  Nvme_Data (nvme_io.c): the user's bytes on their way through the bounce buffers, as properties.
  Nvme_Example: a concrete environment and state for the witnesses.
  Nvme_Transfer_Props, Nvme_Command_Props, Nvme_Service_Props, Nvme_Client_Props,
  Nvme_Setup_Props, Nvme_Life_Props, Nvme_Session_Props and this theory: the properties.

  What the lemmas show. For each operation: the invariant \<open>unit_ok\<close> of the unit is kept, the
  ledger is conserved (what was mapped, allocated or accepted is held by a slot or has been
  released exactly once), and what it writes. From these the properties of the whole system
  follow by induction over \<open>reach\<close>. Besides: the PRP construction addresses the right bytes,
  the submission entry reads back as the command, a transfer through a bounce buffer carries
  exactly the bytes of the request and a harvest writes no other memory, the drain consumes what was posted, the
  split equals its plan, tables and strings stay in their buffers and read back. For the set-up:
  every operation \<open>moves\<close> from what was held before to what the records name afterwards, so
  loading and unloading, and the start and end of a task, release what they acquired exactly
  once; and a successful start is an initial state of \<open>reach\<close>, so the invariants of the system
  hold from there on. The two halves meet in \<open>lives\<close> (one unit) and \<open>sys_step\<close> (the driver): the
  account of the library, the set-up of the tasks and the ledger of the requests are one
  equation over the trace, which every step of every component keeps.

  Bounds. Polls are bounded in the code and so in the model: \<open>POLL_BUDGET\<close> = 5000000 passes for
  a slot, a chunk or a synchronous command, \<open>ADMIN_POLL_ITERS\<close> = 5000000 for an admin command;
  \<open>ready_poll_budget\<close> (5000000 to 60000000 reads of CSTS) for RDY and \<open>SHUTDOWN_POLL_ITERS\<close> =
  1000000 for SHST; they are the fuel of \<open>poll_until\<close>, \<open>admin_poll\<close> and \<open>poll_csts\<close>, so no fuel
  is invented. The drain of the
  completion queue, which the code bounds only through the phase bit, terminates by the measure
  \<open>drain_measure\<close>; the PRP loops and \<open>chunk_loop\<close> by the remaining bytes.

  Not modelled. Debug output, and the increments of the leak counters at the places where the code
  acquires and releases; both have no effect on the state. The identity fields of exec's own nodes
  that Init.c and nvme_irq.c fill in. What the task, the clients and the device do while
  \<open>UnitTask_Shutdown\<close> waits is a parameter of it; \<open>lives\<close> and \<open>sys_step\<close> put a run of the unit
  there, so no step of another unit falls into that interval. Both leave out the failures that
  are known to leak and are findings (a start without port, a shutdown without signal bit, a break
  signal from another task). The memory components of \<open>ram\<close> are those of one unit: operations that
  load another unit keep the account of its resources, not the contents of its buffers. Two tasks
  at once: \<open>BeginIO\<close>, \<open>AbortIO\<close>, the device and the unit task interleave at the granularity of
  the steps of Nvme_System; a preemption inside one call of \<open>BeginIO\<close> is not modelled.
\<close>

section \<open>The system\<close>

text \<open>
  C1. Conservation. In every reachable state of clients, device and unit task, for every
  interleaving, every failure of the operating system and every behaviour of the device,
  each request was accepted exactly as often as it has been replied, plus once for each
  place it waits in: a slot that will reply, the port, or the held list.
\<close>

theorem requests_conserved:
  assumes "reach e s0 c" and "boot s0" and "dma_flags_clear e" and "r \<noteq> 0"
  shows "in_slots r (drv_st c) + count_list (waiting (unit_st (drv_st c))) r + replies r (drv_st c) =
     count (accepted c) (Tok_Req r)"
  by (rule request_account [OF reach_inv(2) [OF assms(1-3)] assms(4)])

lemma demo_begun:
  "reach demo_env demo_drv \<lparr>pc = Top, drv_st = manager_BeginIO demo_env demo_req demo_drv,
     accepted = {#} + begun demo_req (manager_BeginIO demo_env demo_req demo_drv)\<rparr>"
  using reach.more [OF reach.start step.begin_io [of demo_req "\<lparr>pc = Top, drv_st = demo_drv, accepted = {#}\<rparr>" _ demo_env]]
  by simp

lemma demo_queued:
  "waiting (unit_st (manager_BeginIO demo_env demo_req demo_drv)) = [demo_req]"
  "\<not> is_quick (reqs (manager_BeginIO demo_env demo_req demo_drv) demo_req)"
  "in_slots demo_req (manager_BeginIO demo_env demo_req demo_drv) = 0"
proof -
  have c: "begin_switch demo_env demo_req True CMD_READ s = PutMsg demo_req (clear_quick demo_req s)"
    if "io_port (unit_st s) \<noteq> 0" for s
    using that by (simp add: begin_switch_def motor_cmds_def noop_cmds_def zero_cmds_def queued_cmds_def)
  have b: "manager_BeginIO demo_env demo_req demo_drv = PutMsg demo_req (clear_quick demo_req (set_error demo_req IO_OK demo_drv))"
    by (simp add: manager_BeginIO_def Let_def set_error_def c)
  show "waiting (unit_st (manager_BeginIO demo_env demo_req demo_drv)) = [demo_req]"
    "\<not> is_quick (reqs (manager_BeginIO demo_env demo_req demo_drv) demo_req)"
    using demo_waiting by (simp_all add: b PutMsg_def clear_quick_def set_error_def is_quick_def waiting_def)
  show "in_slots demo_req (manager_BeginIO demo_env demo_req demo_drv) = 0"
    by (simp add: b PutMsg_def clear_quick_def set_error_def in_slots_def)
      (simp add: demo_drv_def demo_unit_def free_slot_def demo_req_def)
qed

theorem requests_conserved_witness:
  "replies demo_req (manager_BeginIO demo_env demo_req demo_drv) = 0"
  using requests_conserved [OF demo_begun demo_boot demo_flags demo_req_nonzero]
  by (simp add: demo_queued begun_def)

text \<open>
  C2. The unit's invariant in every reachable state: sixteen slots, the ring indices inside
  the rings, a free slot holds no pin and suppresses no reply, the gauge \<open>inflight_current\<close> is
  the number of occupied slots, and a request waits in at most one place outside the slots
  and never in a slot at the same time.
\<close>

theorem unit_invariant:
  assumes "reach e s0 c" and "boot s0" and "dma_flags_clear e"
  shows "unit_ok (unit_st (drv_st c)) \<and>
     unat (st_inflight_current (stats (unit_st (drv_st c)))) = occupied (inflight (unit_st (drv_st c))) \<and>
     distinct (waiting (unit_st (drv_st c))) \<and> (\<forall>r\<in>set (waiting (unit_st (drv_st c))). not_inflight r (drv_st c))"
proof -
  have w: "wf (drv_st c)" by (rule reach_inv(1) [OF assms])
  then have u: "unit_ok (unit_st (drv_st c))" by (simp add: wf_def)
  then have "occupied (inflight (unit_st (drv_st c))) \<le> 16"
    using occupied_le [of "inflight (unit_st (drv_st c))"] by (simp add: unit_ok_def NVME_MAX_INFLIGHT_def)
  then have "unat (of_nat (occupied (inflight (unit_st (drv_st c)))) :: u32) = occupied (inflight (unit_st (drv_st c)))"
    by (intro unat_of_nat_small) simp
  then show ?thesis using w u by (simp add: wf_def unit_ok_def)
qed

theorem unit_invariant_witness: "distinct (waiting (unit_st (manager_BeginIO demo_env demo_req demo_drv)))"
  using unit_invariant [OF demo_begun demo_boot demo_flags] by simp

text \<open>
  C3. Pins. In every reachable state in which no slot is occupied, every DMA mapping that
  was started for a transfer has been ended with the same buffer, length and flags, as often
  as it was started, and every entry array that was allocated has been freed.
\<close>

theorem no_pin_leaks:
  assumes "reach e s0 c" and "boot s0" and "dma_flags_clear e"
    and "occupied (inflight (unit_st (drv_st c))) = 0"
  shows "count (ins (trace (drv_st c))) (Tok_Pin b n fl) = count (outs (trace (drv_st c))) (Tok_Pin b n fl) \<and>
     count (ins (trace (drv_st c))) (Tok_Ents p) = count (outs (trace (drv_st c))) (Tok_Ents p)"
proof -
  have u: "unit_ok (unit_st (drv_st c))" using reach_inv(1) [OF assms(1-3)] by (simp add: wf_def)
  have "held_slots fs = {#}" if "\<forall>f\<in>set fs. slot_ok f" "occupied fs = 0" for fs
    using that by (induction fs) (auto simp: held_slots_def occupied_def split: if_splits)
  then have h: "held_slots (inflight (unit_st (drv_st c))) = {#}" using u assms(4) by (simp add: unit_ok_def)
  have a: "count (accepted c) t = 0" if "\<forall>r. t \<noteq> Tok_Req r" for t
    using assms(1) that by (rule reach_accepted)
  have w: "count (mset (map Tok_Req xs)) t = 0" if "\<forall>r. t \<noteq> Tok_Req r" for t xs
    using that by (induction xs) auto
  show ?thesis
    using arg_cong [OF reach_inv(2) [OF assms(1-3), unfolded ledger_def h], of "\<lambda>x. count x (Tok_Pin b n fl)"]
      arg_cong [OF reach_inv(2) [OF assms(1-3), unfolded ledger_def h], of "\<lambda>x. count x (Tok_Ents p)"]
      a w by (simp only: count_union count_empty) simp
qed

theorem no_pin_leaks_witness:
  "count (ins (trace (manager_BeginIO demo_env demo_req demo_drv))) (Tok_Pin 0 512 2) =
   count (outs (trace (manager_BeginIO demo_env demo_req demo_drv))) (Tok_Pin 0 512 2)"
proof -
  have "same_io (unit_st demo_drv) (unit_st (manager_BeginIO demo_env demo_req demo_drv))"
    using BeginIO_post [OF demo_req_nonzero] by (simp add: begin_post_def)
  then have "occupied (inflight (unit_st (manager_BeginIO demo_env demo_req demo_drv))) = 0"
    using same_ioD(1) by (simp add: demo_drv_def demo_unit_def occupied_def free_slot_def)
  then show ?thesis using no_pin_leaks [OF demo_begun demo_boot demo_flags] by simp
qed




end
